(* ===== verification/Tyche_Prelude.thy ===== *)
theory Tyche_Prelude
  imports Complex_Main "HOL-Library.Word" "HOL-Library.Monad_Syntax"
begin

text \<open>
  Shared vocabulary of the development: the machine types of the C++ sources,
  byte strings, little-endian splitting of words, association lists that stand
  for \<^verbatim>\<open>std::unordered_map\<close> and for the vectors of pairs the engine searches
  linearly, and the arithmetic of positions in a ring of a power-of-two size.
  The collections \<open>ring_simps\<close>, \<open>alist_simps\<close> and \<open>byte_simps\<close> gather the
  facts the component theories pass to the simplifier.
\<close>

unbundle bit_operations_syntax

named_theorems ring_simps "positions and slot indices of ring buffers"
named_theorems alist_simps "first-match association lists"
named_theorems byte_simps "byte strings and little-endian words"

section \<open>Machine types\<close>

type_synonym u8 = "8 word"
type_synonym u16 = "16 word"
type_synonym u32 = "32 word"
type_synonym u64 = "64 word"

text \<open>
  A byte string is a list of octets (\<^verbatim>\<open>std::vector<uint8_t>\<close>).  A \<^verbatim>\<open>std::string\<close> is
  a list of characters; \<open>str_bytes\<close> and \<open>bytes_str\<close> are the reinterpretations
  between the two that the sources perform when a string goes to the wire and back.
\<close>

type_synonym bytes = "u8 list"

text \<open>A 32-bit \<^verbatim>\<open>int\<close> is a 32-bit word read in two's complement by \<open>sint\<close>.\<close>

type_synonym i32 = "32 word"

text \<open>
  IEEE doubles and floats that are only stored, copied or sent are kept as their
  object representation, 64 and 32 bits wide.  Clock readings, which the engine
  subtracts and compares, are reals.
\<close>

type_synonym double_bits = u64
type_synonym float_bits = u32
type_synonym time = real

definition byte_of_char :: "char \<Rightarrow> u8" where
  "byte_of_char c = word_of_nat (of_char c)"

definition char_of_byte :: "u8 \<Rightarrow> char" where
  "char_of_byte b = char_of (unat b)"

definition str_bytes :: "string \<Rightarrow> bytes" where
  "str_bytes s = map byte_of_char s"

definition bytes_str :: "bytes \<Rightarrow> string" where
  "bytes_str bs = map char_of_byte bs"

lemma char_of_byte_of_char [simp, byte_simps]: "char_of_byte (byte_of_char c) = c"
proof -
  have "(of_char c :: nat) < 256"
    by simp
  then have "unat (word_of_nat (of_char c) :: u8) = of_char c"
    by (simp add: unat_of_nat)
  then show ?thesis
    by (simp add: char_of_byte_def byte_of_char_def)
qed

lemma byte_of_char_of_byte [simp, byte_simps]: "byte_of_char (char_of_byte b) = b"
proof -
  have "unat b < 256"
    using unsigned_less [of b] by simp
  then have "of_char (char_of (unat b)) = unat b"
    by simp
  then show ?thesis
    by (simp add: char_of_byte_def byte_of_char_def)
qed

lemma bytes_str_str_bytes [simp, byte_simps]: "bytes_str (str_bytes s) = s"
  by (simp add: bytes_str_def str_bytes_def map_idI)

lemma str_bytes_bytes_str [simp, byte_simps]: "str_bytes (bytes_str bs) = bs"
  by (simp add: bytes_str_def str_bytes_def map_idI)

lemma length_str_bytes [simp, byte_simps]: "length (str_bytes s) = length s"
  by (simp add: str_bytes_def)

lemma length_bytes_str [simp, byte_simps]: "length (bytes_str bs) = length bs"
  by (simp add: bytes_str_def)

section \<open>Little-endian words\<close>

text \<open>
  \<open>le_bytes n w\<close> is the \<open>n\<close>-byte little-endian object representation of an integer,
  what \<^verbatim>\<open>memcpy\<close> of an integer variable writes on the platforms the program builds for;
  \<open>le_nat\<close> reads one back.
\<close>

primrec le_bytes :: "nat \<Rightarrow> nat \<Rightarrow> bytes" where
  "le_bytes 0 v = []"
| "le_bytes (Suc n) v = word_of_nat (v mod 256) # le_bytes n (v div 256)"

primrec le_nat :: "bytes \<Rightarrow> nat" where
  "le_nat [] = 0"
| "le_nat (b # bs) = unat b + 256 * le_nat bs"

lemma length_le_bytes [simp, byte_simps]: "length (le_bytes n v) = n"
  by (induction n arbitrary: v) simp_all

lemma le_bytes_eq_Nil [simp, byte_simps]: "le_bytes n v = [] \<longleftrightarrow> n = 0"
  by (cases n) simp_all

lemma le_nat_le_bytes: "le_nat (le_bytes n v) = v mod 256 ^ n"
proof (induction n arbitrary: v)
  case (Suc n)
  have "unat (word_of_nat (v mod 256) :: u8) = v mod 256"
    by (simp add: unat_of_nat)
  with Suc show ?case
    by (simp add: mod_mult2_eq mult.commute)
qed simp

lemma le_nat_le_bytes_small [simp, byte_simps]: "v < 256 ^ n \<Longrightarrow> le_nat (le_bytes n v) = v"
  by (simp add: le_nat_le_bytes)

lemma le_nat_less: "le_nat bs < 256 ^ length bs"
proof (induction bs)
  case (Cons b bs)
  have "unat b < 256"
    using unsigned_less [of b] by simp
  with Cons show ?case by simp
qed simp

lemma le_bytes_le_nat: "le_bytes (length bs) (le_nat bs) = bs"
proof (induction bs)
  case (Cons b bs)
  have "unat b < 256"
    using unsigned_less [of b] by simp
  with Cons show ?case by simp
qed simp

section \<open>Association lists\<close>

text \<open>
  \<open>map_of\<close> is the first-match search the sources write as a loop over a vector of
  pairs, and the lookup of an unordered map whose iteration order is the list's order.
  \<open>assoc_put\<close> is \<^verbatim>\<open>m[k] = v\<close>: it overwrites the first entry with the key or appends
  one; \<open>assoc_del\<close> is \<^verbatim>\<open>erase\<close> by key.
\<close>

primrec assoc_put :: "'k \<Rightarrow> 'v \<Rightarrow> ('k \<times> 'v) list \<Rightarrow> ('k \<times> 'v) list" where
  "assoc_put k v [] = [(k, v)]"
| "assoc_put k v (p # ps) = (if fst p = k then (k, v) # ps else p # assoc_put k v ps)"

definition assoc_del :: "'k \<Rightarrow> ('k \<times> 'v) list \<Rightarrow> ('k \<times> 'v) list" where
  "assoc_del k ps = filter (\<lambda>p. fst p \<noteq> k) ps"

abbreviation keys :: "('k \<times> 'v) list \<Rightarrow> 'k set" where
  "keys ps \<equiv> fst ` set ps"

lemma map_of_assoc_put [simp, alist_simps]: "map_of (assoc_put k v ps) = (map_of ps)(k \<mapsto> v)"
  by (induction ps) (auto simp: fun_eq_iff)

lemma map_of_assoc_del [simp, alist_simps]: "map_of (assoc_del k ps) = (map_of ps)(k := None)"
  by (induction ps) (auto simp: fun_eq_iff assoc_del_def)

lemma keys_assoc_put [simp, alist_simps]: "keys (assoc_put k v ps) = insert k (keys ps)"
  by (induction ps) (auto simp: image_iff)

lemma keys_assoc_del [simp, alist_simps]: "keys (assoc_del k ps) = keys ps - {k}"
  by (auto simp: assoc_del_def)

lemma distinct_assoc_put [simp, alist_simps]:
  "distinct (map fst ps) \<Longrightarrow> distinct (map fst (assoc_put k v ps))"
  using keys_assoc_put [of k v] by (induction ps) (auto simp: image_iff)

lemma distinct_assoc_del [simp, alist_simps]:
  "distinct (map fst ps) \<Longrightarrow> distinct (map fst (assoc_del k ps))"
  by (simp add: assoc_del_def distinct_map_filter)

lemma map_fst_vals [simp, alist_simps]: "map (fst \<circ> (\<lambda>(k, v). (k, f v))) ps = map fst ps"
  by auto

section \<open>Positions in a ring\<close>

text \<open>
  Ring positions are counters of the machine's width that wrap; the slot of a position
  is its residue modulo the ring's size.  When the size divides \<open>2 ^ w\<close> the residues are
  consistent across the wrap, which is why the buffers round their size to a power of two.
\<close>

lemma unat_add_of_nat_mod [ring_simps]:
  fixes r :: "'a::len word"
  assumes "n dvd 2 ^ LENGTH('a)"
  shows "unat (r + word_of_nat j) mod n = (unat r + j) mod n"
proof -
  have "unat (r + word_of_nat j) = (unat r + j) mod 2 ^ LENGTH('a)"
    by (simp add: unat_word_ariths unat_of_nat mod_simps)
  with assms show ?thesis
    by (simp add: mod_mod_cancel)
qed

lemma ring_inj:
  fixes a i j n :: nat
  assumes "(a + i) mod n = (a + j) mod n" and "i < n" and "j < n"
  shows "i = j"
  using assms
proof (induction i j rule: linorder_wlog)
  case (le i j)
  then have "n dvd (a + j) - (a + i)"
    by (metis mod_eq_dvd_iff_nat add_le_cancel_left)
  with le show ?case
    by (auto dest: dvd_imp_le)
qed simp

lemma ring_inj_iff [ring_simps]:
  "i < n \<Longrightarrow> j < n \<Longrightarrow> (a + i) mod n = (a + j) mod n \<longleftrightarrow> i = (j :: nat)"
  by (blast intro: ring_inj)

lemma ring_onto:
  fixes a n m :: nat
  assumes "m < n"
  shows "\<exists>j < n. (a + j) mod n = m"
proof (intro exI conjI)
  let ?j = "(m + (n - a mod n)) mod n"
  show "?j < n" using assms by simp
  have "(a + ?j) mod n = (a mod n + (m + (n - a mod n))) mod n"
    by (simp add: mod_simps)
  also have "a mod n + (m + (n - a mod n)) = m + n"
    using mod_less_divisor [of n a] assms by linarith
  finally show "(a + ?j) mod n = m" using assms by simp
qed

lemma unat_word_of_nat_small [simp, ring_simps]:
  "n < 2 ^ LENGTH('a::len) \<Longrightarrow> unat (word_of_nat n :: 'a word) = n"
  by (simp add: unat_of_nat)

lemma unat_u32_less: "unat (x :: u32) < 2 ^ 32"
  by (rule order_less_le_trans [OF unsigned_less]) simp

lemma unat_and_mask_mod [ring_simps]: "unat (p AND mask k) = unat p mod 2 ^ k"
  for p :: "'a::len word"
  by (metis take_bit_eq_mask take_bit_eq_mod unsigned_take_bit_eq)

section \<open>Numbers as text\<close>

text \<open>\<^verbatim>\<open>std::to_string\<close> on integers, and hexadecimal output padded with zeros.\<close>

definition digit_char :: "nat \<Rightarrow> char" where
  "digit_char d = char_of (if d < 10 then 48 + d else 87 + d)"

fun show_base :: "nat \<Rightarrow> nat \<Rightarrow> string" where
  "show_base b n =
     (if n < b \<or> b < 2 then [digit_char n] else show_base b (n div b) @ [digit_char (n mod b)])"

declare show_base.simps [simp del]

definition show_nat :: "nat \<Rightarrow> string" where
  "show_nat n = show_base 10 n"

definition show_int :: "int \<Rightarrow> string" where
  "show_int i = (if i < 0 then CHR ''-'' # show_nat (nat (- i)) else show_nat (nat i))"

definition pad_left :: "nat \<Rightarrow> string \<Rightarrow> string" where
  "pad_left w s = replicate (w - length s) (CHR ''0'') @ s"

definition digit_val :: "char \<Rightarrow> nat" where
  "digit_val c = (let v = of_char c in if v < 58 then v - 48 else v - 87)"

definition read_base :: "nat \<Rightarrow> string \<Rightarrow> nat" where
  "read_base b s = fold (\<lambda>c acc. acc * b + digit_val c) s 0"

lemma digit_val_char [simp]: "d < 16 \<Longrightarrow> digit_val (digit_char d) = d"
  by (simp add: digit_char_def digit_val_def Let_def)

lemma digit_val_zero [simp]: "digit_val (CHR ''0'') = 0"
  by (simp add: digit_val_def)

lemma read_base_append: "read_base b (s @ [c]) = read_base b s * b + digit_val c"
  by (simp add: read_base_def)

lemma read_show_base:
  assumes "2 \<le> b" and "b \<le> 16"
  shows "read_base b (show_base b n) = n"
  using assms
proof (induction b n rule: show_base.induct)
  case (1 b n)
  show ?case
  proof (cases "n < b")
    case True
    with 1 show ?thesis by (subst show_base.simps) (simp add: read_base_def)
  next
    case False
    with 1 have "read_base b (show_base b (n div b)) = n div b" by simp
    moreover have "n mod b < 16" using 1 by (simp add: order_less_le_trans [OF mod_less_divisor])
    ultimately show ?thesis
      using False 1 by (subst show_base.simps) (simp add: read_base_append)
  qed
qed

lemma read_base_zeros: "read_base b (replicate k (CHR ''0'') @ s) = read_base b s"
  by (induction k) (simp_all add: read_base_def)

lemma length_show_base:
  assumes "2 \<le> b" and "n < b ^ Suc k"
  shows "length (show_base b n) \<le> Suc k"
  using assms
proof (induction k arbitrary: n)
  case 0
  then show ?case by (subst show_base.simps) simp
next
  case (Suc k)
  show ?case
  proof (cases "n < b")
    case True
    then show ?thesis by (subst show_base.simps) simp
  next
    case False
    have "n div b < b ^ Suc k"
      using Suc.prems by (simp add: less_mult_imp_div_less mult.commute)
    with Suc have "length (show_base b (n div b)) \<le> Suc k" by blast
    with False Suc.prems show ?thesis by (subst show_base.simps) simp
  qed
qed

end
