(* ===== verification/Core_Types.thy ===== *)
theory Core_Types
  imports Tyche_Prelude
begin

text \<open>
  The shared types of \<^verbatim>\<open>src/tyche/cpp/types.h\<close>: the enumerations with their string forms,
  endpoints, interfaces and module identifiers.  An enumeration whose value is produced by
  a cast from an integer can hold a number that names no enumerator; \<open>MT_Other\<close> is that
  value for \<^verbatim>\<open>MessageType\<close>, and \<^verbatim>\<open>DurabilityLevel\<close>, an \<^verbatim>\<open>int\<close>-based enumeration, is kept
  as its integer.
\<close>

datatype event_type_enum = ET_REQUEST | ET_RESPONSE | ET_EVENT | ET_HEARTBEAT | ET_REGISTER | ET_ACK

datatype interface_pattern = ON | SEND | HANDLE | IP_REQUEST

datatype backpressure_strategy = DROP_OLDEST | DROP_NEWEST | BLOCK_PRODUCER

type_synonym durability_level = i32

definition BEST_EFFORT :: durability_level where
  "BEST_EFFORT = 0"

definition ASYNC_FLUSH :: durability_level where
  "ASYNC_FLUSH = 1"

definition SYNC_FLUSH :: durability_level where
  "SYNC_FLUSH = 2"

datatype message_type =
  COMMAND | EVENT | HEARTBEAT | REGISTER | ACK | RESPONSE | REQUEST | MT_Other u8

fun message_type_to_str :: "message_type \<Rightarrow> string" where
  "message_type_to_str COMMAND = ''cmd''"
| "message_type_to_str EVENT = ''evt''"
| "message_type_to_str HEARTBEAT = ''hbt''"
| "message_type_to_str REGISTER = ''reg''"
| "message_type_to_str ACK = ''ack''"
| "message_type_to_str RESPONSE = ''resp''"
| "message_type_to_str REQUEST = ''req''"
| "message_type_to_str (MT_Other _) = ''evt''"

definition message_type_from_str :: "string \<Rightarrow> message_type" where
  "message_type_from_str s =
     (if s = ''cmd'' then COMMAND else if s = ''evt'' then EVENT else if s = ''hbt'' then HEARTBEAT
      else if s = ''reg'' then REGISTER else if s = ''ack'' then ACK
      else if s = ''resp'' then RESPONSE else if s = ''req'' then REQUEST else EVENT)"

text \<open>The integer behind an enumerator and the cast from an integer.\<close>

fun message_type_code :: "message_type \<Rightarrow> u8" where
  "message_type_code COMMAND = 0"
| "message_type_code EVENT = 1"
| "message_type_code HEARTBEAT = 2"
| "message_type_code REGISTER = 3"
| "message_type_code ACK = 4"
| "message_type_code RESPONSE = 5"
| "message_type_code REQUEST = 6"
| "message_type_code (MT_Other c) = c"

definition message_type_of_code :: "u8 \<Rightarrow> message_type" where
  "message_type_of_code c =
     (if c = 0 then COMMAND else if c = 1 then EVENT else if c = 2 then HEARTBEAT
      else if c = 3 then REGISTER else if c = 4 then ACK else if c = 5 then RESPONSE
      else if c = 6 then REQUEST else MT_Other c)"

fun interface_pattern_to_str :: "interface_pattern \<Rightarrow> string" where
  "interface_pattern_to_str ON = ''on''"
| "interface_pattern_to_str SEND = ''send''"
| "interface_pattern_to_str HANDLE = ''handle''"
| "interface_pattern_to_str IP_REQUEST = ''request''"

definition interface_pattern_from_str :: "string \<Rightarrow> interface_pattern" where
  "interface_pattern_from_str s =
     (if s = ''on'' then ON else if s = ''send'' then SEND else if s = ''handle'' then HANDLE
      else if s = ''request'' then IP_REQUEST else ON)"

record endpoint =
  host :: string
  port :: int

definition endpoint_to_string :: "endpoint \<Rightarrow> string" where
  "endpoint_to_string e = ''tcp://'' @ host e @ '':'' @ show_int (port e)"

record interface =
  if_name :: string
  if_pattern :: interface_pattern
  if_event_type :: string
  if_durability :: durability_level
  if_backpressure :: backpressure_strategy
  if_max_queue_depth :: int

definition default_interface :: interface where
  "default_interface = \<lparr>if_name = [], if_pattern = ON, if_event_type = [],
     if_durability = ASYNC_FLUSH, if_backpressure = DROP_OLDEST, if_max_queue_depth = 10000\<rparr>"

text \<open>
  \<^verbatim>\<open>ModuleId::generate\<close>: the random suffix, drawn from \<^verbatim>\<open>0 .. 0xFFFFFF\<close>, is an argument.
\<close>

definition module_id_generate :: "string \<Rightarrow> nat \<Rightarrow> string" where
  "module_id_generate family suffix = family @ ''_'' @ pad_left 6 (show_base 16 suffix)"

section \<open>Lemmas\<close>

lemma message_type_roundtrip:
  "(\<forall>c. mt \<noteq> MT_Other c) \<Longrightarrow> message_type_from_str (message_type_to_str mt) = mt"
  by (cases mt) (simp_all add: message_type_from_str_def)

lemma message_type_code_roundtrip:
  "(\<forall>c. mt \<noteq> MT_Other c) \<Longrightarrow> message_type_of_code (message_type_code mt) = mt"
  by (cases mt) (simp_all add: message_type_of_code_def)

lemma message_type_code_of_code: "message_type_code (message_type_of_code c) = c"
  by (simp add: message_type_of_code_def)

lemma interface_pattern_roundtrip:
  "interface_pattern_from_str (interface_pattern_to_str p) = p"
  by (cases p) (simp_all add: interface_pattern_from_str_def)

lemma pad6_length: "n < 16 ^ 6 \<Longrightarrow> length (pad_left 6 (show_base 16 n)) = 6"
  using length_show_base [of 16 n 5] by (simp add: pad_left_def)

lemma pad6_read: "read_base 16 (pad_left 6 (show_base 16 n)) = n"
  by (simp add: pad_left_def read_base_zeros read_show_base)

text \<open>Equal identifiers come from the same family and the same suffix.\<close>

lemma module_id_inj:
  assumes "m < 16 ^ 6" and "n < 16 ^ 6" and "module_id_generate f m = module_id_generate g n"
  shows "f = g \<and> m = n"
proof -
  have "f @ ''_'' = g @ ''_'' \<and> pad_left 6 (show_base 16 m) = pad_left 6 (show_base 16 n)"
    using assms pad6_length [OF assms(1)] pad6_length [OF assms(2)]
    by (simp add: module_id_generate_def append_eq_append_conv flip: append_assoc)
  then show ?thesis using pad6_read by (metis append_same_eq)
qed

end
