(* ===== verification/Message.thy ===== *)
theory Message
  imports Core_Types
begin

text \<open>
  Messages and their msgpack form: \<^verbatim>\<open>src/tyche/cpp/message.h\<close> and \<^verbatim>\<open>message.cpp\<close>.
  \<open>any_val\<close> is \<^verbatim>\<open>std::any\<close> restricted to the types the program stores in it (\<open>AOther\<close> stands
  for every other one); a \<^verbatim>\<open>Payload\<close> is an association list with distinct keys whose order is
  the iteration order of the hash map and carries no meaning.

  The msgpack library is a parameter.  A \<open>codec\<close> holds the bytes its packer writes for a
  sequence of packer calls, its \<^verbatim>\<open>unpack\<close> function (\<open>None\<close> when it throws), the object that a
  packed double reads back as, and the floating point conversions of the platform.  What the
  program relies on is \<open>codec_ok\<close>: the bytes of a packed document unpack to the object the
  document denotes.
\<close>

section \<open>Dynamic values and messages\<close>

datatype any_val =
    ANone
  | ADouble double_bits
  | AString string
  | AInt i32
  | AInt64 u64
  | AUInt64 u64
  | AFloat float_bits
  | ABool bool
  | ACStr string
  | APayload "(string \<times> any_val) list"
  | AVecStr "string list"
  | AVecAny "any_val list"
  | AUInt u32
  | ABytes bytes
  | AOther

type_synonym payload = "(string \<times> any_val) list"

record message =
  msg_type :: message_type
  sender :: string
  event :: string
  msg_payload :: payload
  recipient :: "string option"
  durability :: durability_level
  timestamp :: "double_bits option"
  correlation_id :: "string option"
  wait_timeout :: "float_bits option"
  run_timeout :: "float_bits option"

definition default_message :: message where
  "default_message = \<lparr>msg_type = EVENT, sender = [], event = [], msg_payload = [],
     recipient = None, durability = ASYNC_FLUSH, timestamp = None, correlation_id = None,
     wait_timeout = None, run_timeout = None\<rparr>"

section \<open>The msgpack library as a parameter\<close>

text \<open>The calls made on a packer.\<close>

datatype tok = PNil | PBool bool | PInt int | PDouble double_bits | PStr string | PMap u32 | PArray u32

text \<open>The objects the library's unpacker produces (\<^verbatim>\<open>msgpack::object\<close>).\<close>

datatype mobj =
    MNil
  | MBool bool
  | MPos u64
  | MNeg u64
  | MFloat32 double_bits
  | MFloat64 double_bits
  | MStr string
  | MBin bytes
  | MExt
  | MMap "(mobj \<times> mobj) list"
  | MArr "mobj list"

record codec =
  cx_wire :: "tok list \<Rightarrow> bytes"
  cx_unpack :: "bytes \<Rightarrow> mobj option"
  cx_double :: "double_bits \<Rightarrow> mobj"
  cx_widen :: "float_bits \<Rightarrow> double_bits"
  cx_narrow :: "double_bits \<Rightarrow> float_bits"
  cx_u64_double :: "u64 \<Rightarrow> double_bits"
  cx_u64_float :: "u64 \<Rightarrow> float_bits"
  cx_i32_float :: "i32 \<Rightarrow> float_bits"

text \<open>
  The failures: \<^verbatim>\<open>msgpack::unpack\<close> throws, and \<^verbatim>\<open>unpack_object\<close> reads the string members of a
  map key that is no string, which is undefined.
\<close>

datatype codec_error = UnpackThrows | UndefinedKeyRead

section \<open>Packing\<close>

fun pack_any :: "codec \<Rightarrow> any_val \<Rightarrow> tok list"
  and pack_entries :: "codec \<Rightarrow> (string \<times> any_val) list \<Rightarrow> tok list"
  and pack_items :: "codec \<Rightarrow> any_val list \<Rightarrow> tok list" where
  "pack_any cx ANone = [PNil]"
| "pack_any cx (ADouble d) = [PDouble d]"
| "pack_any cx (AString s) = [PStr s]"
| "pack_any cx (AInt i) = [PInt (sint i)]"
| "pack_any cx (AInt64 i) = [PInt (sint i)]"
| "pack_any cx (AUInt64 u) = [PInt (uint u)]"
| "pack_any cx (AFloat f) = [PDouble (cx_widen cx f)]"
| "pack_any cx (ABool b) = [PBool b]"
| "pack_any cx (ACStr s) = [PStr s]"
| "pack_any cx (APayload kvs) = PMap (word_of_nat (length kvs)) # pack_entries cx kvs"
| "pack_any cx (AVecStr ss) = PArray (word_of_nat (length ss)) # map PStr ss"
| "pack_any cx (AVecAny vs) = PArray (word_of_nat (length vs)) # pack_items cx vs"
| "pack_any cx (AUInt _) = [PNil]"
| "pack_any cx (ABytes _) = [PNil]"
| "pack_any cx AOther = [PNil]"
| "pack_entries cx [] = []"
| "pack_entries cx ((k, v) # kvs) = PStr k # pack_any cx v @ pack_entries cx kvs"
| "pack_items cx [] = []"
| "pack_items cx (v # vs) = pack_any cx v @ pack_items cx vs"

section \<open>Unpacking\<close>

fun is_mstr :: "mobj \<Rightarrow> bool" where
  "is_mstr (MStr _) = True"
| "is_mstr _ = False"

fun mstr :: "mobj \<Rightarrow> string" where
  "mstr (MStr s) = s"
| "mstr _ = []"

fun unpack_object :: "mobj \<Rightarrow> codec_error + any_val"
  and unpack_map :: "(mobj \<times> mobj) list \<Rightarrow> payload \<Rightarrow> codec_error + payload"
  and unpack_array :: "mobj list \<Rightarrow> codec_error + any_val list" where
  "unpack_object MNil = Inr ANone"
| "unpack_object (MBool b) = Inr (ABool b)"
| "unpack_object (MPos u) = Inr (AInt (ucast u))"
| "unpack_object (MNeg i) = Inr (AInt (ucast i))"
| "unpack_object (MFloat32 d) = Inr (ADouble d)"
| "unpack_object (MFloat64 d) = Inr (ADouble d)"
| "unpack_object (MStr s) = Inr (AString s)"
| "unpack_object (MMap kvs) =
     (case unpack_map kvs [] of Inl e \<Rightarrow> Inl e | Inr m \<Rightarrow> Inr (APayload m))"
| "unpack_object (MArr os) =
     (if os \<noteq> [] \<and> list_all is_mstr os then Inr (AVecStr (map mstr os))
      else case unpack_array os of Inl e \<Rightarrow> Inl e | Inr vs \<Rightarrow> Inr (AVecAny vs))"
| "unpack_object (MBin _) = Inr ANone"
| "unpack_object MExt = Inr ANone"
| "unpack_map [] acc = Inr acc"
| "unpack_map ((k, v) # kvs) acc =
     (if \<not> is_mstr k then Inl UndefinedKeyRead
      else case unpack_object v of Inl e \<Rightarrow> Inl e
        | Inr a \<Rightarrow> unpack_map kvs (assoc_put (mstr k) a acc))"
| "unpack_array [] = Inr []"
| "unpack_array (v # vs) =
     (case unpack_object v of Inl e \<Rightarrow> Inl e
      | Inr a \<Rightarrow> (case unpack_array vs of Inl e \<Rightarrow> Inl e | Inr as \<Rightarrow> Inr (a # as)))"

section \<open>Serialisation\<close>

text \<open>\<open>pack_key\<close> writes the given number of leading characters of a key literal.\<close>

definition pack_key :: "string \<Rightarrow> nat \<Rightarrow> tok" where
  "pack_key key len = PStr (take len key)"

definition opt_tok :: "('a \<Rightarrow> tok) \<Rightarrow> 'a option \<Rightarrow> tok" where
  "opt_tok f x = (case x of Some v \<Rightarrow> f v | None \<Rightarrow> PNil)"

definition serialize :: "codec \<Rightarrow> message \<Rightarrow> bytes" where
  "serialize cx msg = cx_wire cx (
     [PMap 10,
      pack_key ''msg_type'' 8, PStr (message_type_to_str (msg_type msg)),
      pack_key ''sender'' 6, PStr (sender msg),
      pack_key ''event'' 5, PStr (event msg),
      pack_key ''payload'' 7, PMap (word_of_nat (length (msg_payload msg)))]
     @ pack_entries cx (msg_payload msg) @
     [pack_key ''recipient'' 9, opt_tok PStr (recipient msg),
      pack_key ''durability'' 10, PInt (sint (durability msg)),
      pack_key ''timestamp'' 9, opt_tok PDouble (timestamp msg),
      pack_key ''correlation_id'' 14, opt_tok PStr (correlation_id msg),
      pack_key ''wait_timeout'' 12, opt_tok (PDouble \<circ> cx_widen cx) (wait_timeout msg),
      pack_key ''run_timeout'' 11, opt_tok (PDouble \<circ> cx_widen cx) (run_timeout msg)])"

text \<open>
  \<^verbatim>\<open>serialize_tls\<close> packs whole key strings into a thread-local buffer it clears first; the
  buffer is the state, the returned view its contents.
\<close>

definition message_toks :: "codec \<Rightarrow> message \<Rightarrow> tok list" where
  "message_toks cx msg =
     [PMap 10,
      PStr ''msg_type'', PStr (message_type_to_str (msg_type msg)),
      PStr ''sender'', PStr (sender msg),
      PStr ''event'', PStr (event msg),
      PStr ''payload'', PMap (word_of_nat (length (msg_payload msg)))]
     @ pack_entries cx (msg_payload msg) @
     [PStr ''recipient'', opt_tok PStr (recipient msg),
      PStr ''durability'', PInt (sint (durability msg)),
      PStr ''timestamp'', opt_tok PDouble (timestamp msg),
      PStr ''correlation_id'', opt_tok PStr (correlation_id msg),
      PStr ''wait_timeout'', opt_tok (PDouble \<circ> cx_widen cx) (wait_timeout msg),
      PStr ''run_timeout'', opt_tok (PDouble \<circ> cx_widen cx) (run_timeout msg)]"

definition serialize_tls :: "codec \<Rightarrow> message \<Rightarrow> tok list \<Rightarrow> tok list \<times> bytes" where
  "serialize_tls cx msg tls_buffer = (message_toks cx msg, cx_wire cx (message_toks cx msg))"

text \<open>
  \<^verbatim>\<open>serialize_into\<close> on a caller's buffer (\<open>None\<close> is the null pointer): the bytes written, and
  the buffer with them in front.  \<open>capacity\<close> is the size the caller passes.
\<close>

definition serialize_into :: "codec \<Rightarrow> message \<Rightarrow> bytes option \<Rightarrow> nat \<Rightarrow> nat \<times> bytes option" where
  "serialize_into cx msg buffer capacity =
     (case buffer of None \<Rightarrow> (0, None)
      | Some buf \<Rightarrow>
          if capacity = 0 then (0, Some buf)
          else let sbuf = cx_wire cx (message_toks cx msg) in
            if length sbuf > capacity then (0, Some buf)
            else (length sbuf, Some (sbuf @ drop (length sbuf) buf)))"

section \<open>Deserialisation\<close>

fun read_payload :: "(mobj \<times> mobj) list \<Rightarrow> payload \<Rightarrow> codec_error + payload" where
  "read_payload [] acc = Inr acc"
| "read_payload ((k, v) # kvs) acc =
     (case k of MStr s \<Rightarrow>
        (case unpack_object v of Inl e \<Rightarrow> Inl e
         | Inr a \<Rightarrow> read_payload kvs (assoc_put s a acc))
      | _ \<Rightarrow> read_payload kvs acc)"

fun read_timeout :: "codec \<Rightarrow> mobj \<Rightarrow> float_bits option \<Rightarrow> float_bits option" where
  "read_timeout cx (MFloat32 d) old = Some (cx_narrow cx d)"
| "read_timeout cx (MFloat64 d) old = Some (cx_narrow cx d)"
| "read_timeout cx (MPos u) old = Some (cx_u64_float cx u)"
| "read_timeout cx _ old = old"

fun read_timestamp :: "codec \<Rightarrow> mobj \<Rightarrow> double_bits option \<Rightarrow> double_bits option" where
  "read_timestamp cx (MFloat32 d) old = Some d"
| "read_timestamp cx (MFloat64 d) old = Some d"
| "read_timestamp cx (MPos u) old = Some (cx_u64_double cx u)"
| "read_timestamp cx _ old = old"

fun read_durability :: "mobj \<Rightarrow> durability_level \<Rightarrow> durability_level" where
  "read_durability (MPos u) old = ucast u"
| "read_durability (MNeg i) old = ucast i"
| "read_durability _ old = old"

fun read_str_opt :: "mobj \<Rightarrow> string option \<Rightarrow> string option" where
  "read_str_opt (MStr s) old = Some s"
| "read_str_opt _ old = old"

text \<open>One entry of the top-level map: dispatch on the first character of the key.\<close>

definition read_field :: "codec \<Rightarrow> string \<Rightarrow> mobj \<Rightarrow> message \<Rightarrow> codec_error + message" where
  "read_field cx key v msg =
     (if key = [] then Inr msg
      else if hd key = CHR ''m'' then
        Inr (if key = ''msg_type'' \<and> is_mstr v
             then msg\<lparr>msg_type := message_type_from_str (mstr v)\<rparr> else msg)
      else if hd key = CHR ''s'' then
        Inr (if key = ''sender'' \<and> is_mstr v then msg\<lparr>sender := mstr v\<rparr> else msg)
      else if hd key = CHR ''e'' then
        Inr (if key = ''event'' \<and> is_mstr v then msg\<lparr>event := mstr v\<rparr> else msg)
      else if hd key = CHR ''p'' then
        (if key = ''payload'' then
           (case v of MMap kvs \<Rightarrow>
              (case read_payload kvs (msg_payload msg) of Inl e \<Rightarrow> Inl e
               | Inr p \<Rightarrow> Inr (msg\<lparr>msg_payload := p\<rparr>))
            | _ \<Rightarrow> Inr msg)
         else Inr msg)
      else if hd key = CHR ''r'' then
        Inr (if key = ''recipient'' then msg\<lparr>recipient := read_str_opt v (recipient msg)\<rparr>
             else if key = ''run_timeout''
             then msg\<lparr>run_timeout := read_timeout cx v (run_timeout msg)\<rparr> else msg)
      else if hd key = CHR ''d'' then
        Inr (if key = ''durability''
             then msg\<lparr>durability := read_durability v (durability msg)\<rparr> else msg)
      else if hd key = CHR ''c'' then
        Inr (if key = ''correlation_id''
             then msg\<lparr>correlation_id := read_str_opt v (correlation_id msg)\<rparr> else msg)
      else if hd key = CHR ''t'' then
        Inr (if key = ''timestamp''
             then msg\<lparr>timestamp := read_timestamp cx v (timestamp msg)\<rparr> else msg)
      else if hd key = CHR ''w'' then
        Inr (if key = ''wait_timeout''
             then msg\<lparr>wait_timeout := read_timeout cx v (wait_timeout msg)\<rparr> else msg)
      else Inr msg)"

fun read_fields :: "codec \<Rightarrow> (mobj \<times> mobj) list \<Rightarrow> message \<Rightarrow> codec_error + message" where
  "read_fields cx [] msg = Inr msg"
| "read_fields cx ((k, v) # kvs) msg =
     (case k of MStr key \<Rightarrow>
        (case read_field cx key v msg of Inl e \<Rightarrow> Inl e | Inr msg' \<Rightarrow> read_fields cx kvs msg')
      | _ \<Rightarrow> read_fields cx kvs msg)"

definition deserialize :: "codec \<Rightarrow> bytes \<Rightarrow> codec_error + message" where
  "deserialize cx data =
     (case cx_unpack cx data of None \<Rightarrow> Inl UnpackThrows
      | Some (MMap kvs) \<Rightarrow> read_fields cx kvs default_message
      | Some _ \<Rightarrow> Inr default_message)"

section \<open>Packed documents\<close>

text \<open>
  The reference view of a packed document: a tree, the packer calls that write it and the
  object the library reads it back as.
\<close>

datatype pdoc =
    DNil
  | DBool bool
  | DInt int
  | DDouble double_bits
  | DStr string
  | DMap "(string \<times> pdoc) list"
  | DArr "pdoc list"

fun doc_toks :: "pdoc \<Rightarrow> tok list"
  and doc_entry_toks :: "(string \<times> pdoc) list \<Rightarrow> tok list"
  and doc_item_toks :: "pdoc list \<Rightarrow> tok list" where
  "doc_toks DNil = [PNil]"
| "doc_toks (DBool b) = [PBool b]"
| "doc_toks (DInt i) = [PInt i]"
| "doc_toks (DDouble d) = [PDouble d]"
| "doc_toks (DStr s) = [PStr s]"
| "doc_toks (DMap kvs) = PMap (word_of_nat (length kvs)) # doc_entry_toks kvs"
| "doc_toks (DArr ds) = PArray (word_of_nat (length ds)) # doc_item_toks ds"
| "doc_entry_toks [] = []"
| "doc_entry_toks ((k, d) # kvs) = PStr k # doc_toks d @ doc_entry_toks kvs"
| "doc_item_toks [] = []"
| "doc_item_toks (d # ds) = doc_toks d @ doc_item_toks ds"

fun doc_obj :: "codec \<Rightarrow> pdoc \<Rightarrow> mobj"
  and doc_entry_objs :: "codec \<Rightarrow> (string \<times> pdoc) list \<Rightarrow> (mobj \<times> mobj) list"
  and doc_item_objs :: "codec \<Rightarrow> pdoc list \<Rightarrow> mobj list" where
  "doc_obj cx DNil = MNil"
| "doc_obj cx (DBool b) = MBool b"
| "doc_obj cx (DInt i) = (if i < 0 then MNeg (word_of_int i) else MPos (word_of_int i))"
| "doc_obj cx (DDouble d) = cx_double cx d"
| "doc_obj cx (DStr s) = MStr s"
| "doc_obj cx (DMap kvs) = MMap (doc_entry_objs cx kvs)"
| "doc_obj cx (DArr ds) = MArr (doc_item_objs cx ds)"
| "doc_entry_objs cx [] = []"
| "doc_entry_objs cx ((k, d) # kvs) = (MStr k, doc_obj cx d) # doc_entry_objs cx kvs"
| "doc_item_objs cx [] = []"
| "doc_item_objs cx (d # ds) = doc_obj cx d # doc_item_objs cx ds"

text \<open>The library reads a packed document back, and a packed double as some number.\<close>

definition codec_ok :: "codec \<Rightarrow> pdoc \<Rightarrow> bool" where
  "codec_ok cx d \<longleftrightarrow> cx_unpack cx (cx_wire cx (doc_toks d)) = Some (doc_obj cx d)"

fun is_mnum :: "mobj \<Rightarrow> bool" where
  "is_mnum (MPos _) = True"
| "is_mnum (MNeg _) = True"
| "is_mnum (MFloat32 _) = True"
| "is_mnum (MFloat64 _) = True"
| "is_mnum _ = False"

definition codec_numbers :: "codec \<Rightarrow> bool" where
  "codec_numbers cx \<longleftrightarrow> (\<forall>d. is_mnum (cx_double cx d))"

text \<open>The document behind a value and behind a message.\<close>

fun any_doc :: "codec \<Rightarrow> any_val \<Rightarrow> pdoc"
  and entries_doc :: "codec \<Rightarrow> payload \<Rightarrow> (string \<times> pdoc) list"
  and items_doc :: "codec \<Rightarrow> any_val list \<Rightarrow> pdoc list" where
  "any_doc cx ANone = DNil"
| "any_doc cx (ADouble d) = DDouble d"
| "any_doc cx (AString s) = DStr s"
| "any_doc cx (AInt i) = DInt (sint i)"
| "any_doc cx (AInt64 i) = DInt (sint i)"
| "any_doc cx (AUInt64 u) = DInt (uint u)"
| "any_doc cx (AFloat f) = DDouble (cx_widen cx f)"
| "any_doc cx (ABool b) = DBool b"
| "any_doc cx (ACStr s) = DStr s"
| "any_doc cx (APayload kvs) = DMap (entries_doc cx kvs)"
| "any_doc cx (AVecStr ss) = DArr (map DStr ss)"
| "any_doc cx (AVecAny vs) = DArr (items_doc cx vs)"
| "any_doc cx (AUInt _) = DNil"
| "any_doc cx (ABytes _) = DNil"
| "any_doc cx AOther = DNil"
| "entries_doc cx [] = []"
| "entries_doc cx ((k, v) # kvs) = (k, any_doc cx v) # entries_doc cx kvs"
| "items_doc cx [] = []"
| "items_doc cx (v # vs) = any_doc cx v # items_doc cx vs"

definition opt_doc :: "('a \<Rightarrow> pdoc) \<Rightarrow> 'a option \<Rightarrow> pdoc" where
  "opt_doc f x = (case x of Some v \<Rightarrow> f v | None \<Rightarrow> DNil)"

definition message_doc :: "codec \<Rightarrow> message \<Rightarrow> pdoc" where
  "message_doc cx msg = DMap
     [(''msg_type'', DStr (message_type_to_str (msg_type msg))),
      (''sender'', DStr (sender msg)),
      (''event'', DStr (event msg)),
      (''payload'', DMap (entries_doc cx (msg_payload msg))),
      (''recipient'', opt_doc DStr (recipient msg)),
      (''durability'', DInt (sint (durability msg))),
      (''timestamp'', opt_doc DDouble (timestamp msg)),
      (''correlation_id'', opt_doc DStr (correlation_id msg)),
      (''wait_timeout'', opt_doc (DDouble \<circ> cx_widen cx) (wait_timeout msg)),
      (''run_timeout'', opt_doc (DDouble \<circ> cx_widen cx) (run_timeout msg))]"

text \<open>
  What a value comes back as: wider integers and floats lose their type, C strings become
  strings, a vector of string values becomes a vector of strings, an empty vector of strings a
  vector of values, and what cannot be packed becomes empty.
\<close>

fun any_is_str :: "any_val \<Rightarrow> bool" where
  "any_is_str (AString _) = True"
| "any_is_str (ACStr _) = True"
| "any_is_str _ = False"

fun any_str :: "any_val \<Rightarrow> string" where
  "any_str (AString s) = s"
| "any_str (ACStr s) = s"
| "any_str _ = []"

fun norm_num :: "mobj \<Rightarrow> any_val" where
  "norm_num (MPos u) = AInt (ucast u)"
| "norm_num (MNeg i) = AInt (ucast i)"
| "norm_num (MFloat32 d) = ADouble d"
| "norm_num (MFloat64 d) = ADouble d"
| "norm_num _ = ANone"

fun norm_any :: "codec \<Rightarrow> any_val \<Rightarrow> any_val"
  and norm_entries :: "codec \<Rightarrow> payload \<Rightarrow> payload"
  and norm_items :: "codec \<Rightarrow> any_val list \<Rightarrow> any_val list" where
  "norm_any cx ANone = ANone"
| "norm_any cx (ADouble d) = norm_num (cx_double cx d)"
| "norm_any cx (AString s) = AString s"
| "norm_any cx (AInt i) = AInt i"
| "norm_any cx (AInt64 i) = AInt (ucast i)"
| "norm_any cx (AUInt64 u) = AInt (ucast u)"
| "norm_any cx (AFloat f) = norm_num (cx_double cx (cx_widen cx f))"
| "norm_any cx (ABool b) = ABool b"
| "norm_any cx (ACStr s) = AString s"
| "norm_any cx (APayload kvs) = APayload (norm_entries cx kvs)"
| "norm_any cx (AVecStr ss) = (if ss = [] then AVecAny [] else AVecStr ss)"
| "norm_any cx (AVecAny vs) =
     (if vs \<noteq> [] \<and> list_all any_is_str vs then AVecStr (map any_str vs)
      else AVecAny (norm_items cx vs))"
| "norm_any cx (AUInt _) = ANone"
| "norm_any cx (ABytes _) = ANone"
| "norm_any cx AOther = ANone"
| "norm_entries cx [] = []"
| "norm_entries cx ((k, v) # kvs) = (k, norm_any cx v) # norm_entries cx kvs"
| "norm_items cx [] = []"
| "norm_items cx (v # vs) = norm_any cx v # norm_items cx vs"

text \<open>Keys are distinct in every nested map.\<close>

fun wf_any :: "any_val \<Rightarrow> bool"
  and wf_entries :: "payload \<Rightarrow> bool"
  and wf_items :: "any_val list \<Rightarrow> bool" where
  "wf_any (APayload kvs) \<longleftrightarrow> distinct (map fst kvs) \<and> wf_entries kvs"
| "wf_any (AVecAny vs) \<longleftrightarrow> wf_items vs"
| "wf_any _ \<longleftrightarrow> True"
| "wf_entries [] \<longleftrightarrow> True"
| "wf_entries ((k, v) # kvs) \<longleftrightarrow> wf_any v \<and> wf_entries kvs"
| "wf_items [] \<longleftrightarrow> True"
| "wf_items (v # vs) \<longleftrightarrow> wf_any v \<and> wf_items vs"

definition wf_message :: "message \<Rightarrow> bool" where
  "wf_message msg \<longleftrightarrow> distinct (map fst (msg_payload msg)) \<and> wf_entries (msg_payload msg) \<and>
     message_type_from_str (message_type_to_str (msg_type msg)) = msg_type msg"

text \<open>
  The library and the platform keep the floating point fields of a message: a packed double
  reads back as itself or as a natural number that converts to it.
\<close>

definition keeps_floats :: "codec \<Rightarrow> message \<Rightarrow> bool" where
  "keeps_floats cx msg \<longleftrightarrow>
     (\<forall>d \<in> set_option (timestamp msg). read_timestamp cx (cx_double cx d) None = Some d) \<and>
     (\<forall>f \<in> set_option (wait_timeout msg) \<union> set_option (run_timeout msg).
        read_timeout cx (cx_double cx (cx_widen cx f)) None = Some f)"

section \<open>Lemmas\<close>

lemma length_entries_doc [simp]: "length (entries_doc cx kvs) = length kvs"
  by (induction kvs) auto

lemma length_items_doc [simp]: "length (items_doc cx vs) = length vs"
  by (induction vs) simp_all

lemma doc_item_toks_strs [simp]: "doc_item_toks (map DStr ss) = map PStr ss"
  by (induction ss) simp_all

lemma doc_item_objs_strs [simp]: "doc_item_objs cx (map DStr ss) = map MStr ss"
  by (induction ss) simp_all

lemma pack_any_doc:
  "pack_any cx v = doc_toks (any_doc cx v)"
  "pack_entries cx kvs = doc_entry_toks (entries_doc cx kvs)"
  "pack_items cx vs = doc_item_toks (items_doc cx vs)"
  by (induction cx v and cx kvs and cx vs rule: pack_any_pack_entries_pack_items.induct) simp_all

lemma opt_doc_toks:
  assumes "\<And>x. doc_toks (f x) = [g x]"
  shows "doc_toks (opt_doc f x) = [opt_tok g x]"
  by (cases x) (simp_all add: opt_doc_def opt_tok_def assms)

lemma message_toks_doc: "message_toks cx msg = doc_toks (message_doc cx msg)"
  by (simp add: message_toks_def message_doc_def pack_any_doc opt_doc_toks [of DStr PStr]
      opt_doc_toks [of DDouble PDouble]
      opt_doc_toks [of "DDouble \<circ> cx_widen cx" "PDouble \<circ> cx_widen cx"])

lemma serialize_doc: "serialize cx msg = cx_wire cx (doc_toks (message_doc cx msg))"
  by (simp add: serialize_def pack_key_def flip: message_toks_doc) (simp add: message_toks_def)

text \<open>The library's number for a packed double is a number to \<^verbatim>\<open>unpack_object\<close> too.\<close>

lemma codec_number_obj:
  assumes "codec_numbers cx"
  shows "unpack_object (cx_double cx d) = Inr (norm_num (cx_double cx d))"
    and "\<not> is_mstr (cx_double cx d)"
proof -
  have "is_mnum (cx_double cx d)"
    using assms by (simp add: codec_numbers_def)
  then show "unpack_object (cx_double cx d) = Inr (norm_num (cx_double cx d))"
    and "\<not> is_mstr (cx_double cx d)"
    by (cases "cx_double cx d"; simp)+
qed

lemma ucast_of_int: "(ucast (word_of_int x :: u64) :: i32) = word_of_int x"
  by (rule ucast_down_wi) (simp add: is_down)

lemma word_of_int_wide [simp]:
  "(word_of_int (sint (j :: u64)) :: i32) = ucast j"
  "(word_of_int (uint (j :: u64)) :: i32) = ucast j"
  by (metis ucast_of_int scast_id scast_eq) (metis ucast_of_int word_of_int_uint)

lemma ucast_scast [simp]: "(ucast (scast (i :: i32) :: u64) :: i32) = i"
  by (metis scast_eq ucast_of_int scast_id scast_eq)

lemma any_is_str_obj:
  assumes "codec_numbers cx"
  shows "is_mstr (doc_obj cx (any_doc cx v)) \<longleftrightarrow> any_is_str v"
    and "any_is_str v \<Longrightarrow> mstr (doc_obj cx (any_doc cx v)) = any_str v"
  using codec_number_obj(2) [OF assms] by (cases v; simp)+

lemma strs_obj:
  assumes "codec_numbers cx"
  shows "list_all is_mstr (doc_item_objs cx (items_doc cx vs)) \<longleftrightarrow> list_all any_is_str vs"
    and "list_all any_is_str vs \<Longrightarrow> map mstr (doc_item_objs cx (items_doc cx vs)) = map any_str vs"
    and "doc_item_objs cx (items_doc cx vs) = [] \<longleftrightarrow> vs = []"
  using any_is_str_obj [OF assms] by (induction vs) simp_all

lemma assoc_put_fresh [alist_simps]: "k \<notin> fst ` set ps \<Longrightarrow> assoc_put k v ps = ps @ [(k, v)]"
  by (induction ps) auto

text \<open>Unpacking the object of a packed value gives the normal form of the value.\<close>

lemma unpack_packed:
  "codec_numbers cx \<Longrightarrow> wf_any v \<Longrightarrow>
     unpack_object (doc_obj cx (any_doc cx v)) = Inr (norm_any cx v)"
  "codec_numbers cx \<Longrightarrow> wf_entries kvs \<Longrightarrow> distinct (map fst acc @ map fst kvs) \<Longrightarrow>
     unpack_map (doc_entry_objs cx (entries_doc cx kvs)) acc = Inr (acc @ norm_entries cx kvs)"
  "codec_numbers cx \<Longrightarrow> wf_items vs \<Longrightarrow>
     unpack_array (doc_item_objs cx (items_doc cx vs)) = Inr (norm_items cx vs)"
proof (induction cx v and cx kvs and cx vs arbitrary: and acc and
    rule: norm_any_norm_entries_norm_items.induct)
  case (11 cx ss)
  then show ?case by (simp add: list_all_iff comp_def)
next
  case (12 cx vs)
  then show ?case by (simp add: strs_obj)
next
  case (17 cx k v kvs)
  then have "k \<notin> fst ` set acc" by auto
  with 17 show ?case by (simp add: assoc_put_fresh)
qed (simp_all add: codec_number_obj ucast_of_int)

lemma read_payload_packed:
  "codec_numbers cx \<Longrightarrow> wf_entries kvs \<Longrightarrow> distinct (map fst acc @ map fst kvs) \<Longrightarrow>
     read_payload (doc_entry_objs cx (entries_doc cx kvs)) acc = Inr (acc @ norm_entries cx kvs)"
proof (induction kvs arbitrary: acc)
  case (Cons p kvs)
  obtain k v where "p = (k, v)" by force
  moreover from Cons.prems this have "k \<notin> fst ` set acc" by auto
  ultimately show ?case using Cons by (simp add: unpack_packed(1) assoc_put_fresh)
qed simp

lemma map_of_norm_entries: "map_of (norm_entries cx kvs) k = map_option (norm_any cx) (map_of kvs k)"
  by (induction kvs) auto

lemma read_opt_fields:
  "read_str_opt (doc_obj cx (opt_doc DStr x)) None = x"
  "(\<And>d. t = Some d \<Longrightarrow> read_timestamp cx (cx_double cx d) None = Some d) \<Longrightarrow>
     read_timestamp cx (doc_obj cx (opt_doc DDouble t)) None = t"
  "(\<And>f. w = Some f \<Longrightarrow> read_timeout cx (cx_double cx (cx_widen cx f)) None = Some f) \<Longrightarrow>
     read_timeout cx (doc_obj cx (opt_doc (DDouble \<circ> cx_widen cx) w)) None = w"
  by (cases x; cases t; cases w; simp add: opt_doc_def)+

lemma read_durability_packed: "read_durability (doc_obj cx (DInt (sint d))) old = d"
  by (simp add: ucast_of_int)

text \<open>What a well-formed message reads back as.\<close>

lemma deserialize_serialize:
  assumes "codec_ok cx (message_doc cx msg)" and "codec_numbers cx"
    and "wf_message msg" and "keeps_floats cx msg"
  shows "deserialize cx (serialize cx msg) = Inr (msg\<lparr>msg_payload := norm_entries cx (msg_payload msg)\<rparr>)"
proof -
  have pay: "read_payload (doc_entry_objs cx (entries_doc cx (msg_payload msg))) [] =
      Inr (norm_entries cx (msg_payload msg))"
    using read_payload_packed [OF assms(2), of "msg_payload msg" "[]"] assms(3)
    by (simp add: wf_message_def)
  have opts: "read_timestamp cx (doc_obj cx (opt_doc DDouble (timestamp msg))) None = timestamp msg"
    "read_timeout cx (doc_obj cx (opt_doc (DDouble \<circ> cx_widen cx) (wait_timeout msg))) None =
       wait_timeout msg"
    "read_timeout cx (doc_obj cx (opt_doc (DDouble \<circ> cx_widen cx) (run_timeout msg))) None =
       run_timeout msg"
    by (rule read_opt_fields, use assms(4) in \<open>simp add: keeps_floats_def\<close>)+
  have "cx_unpack cx (serialize cx msg) = Some (doc_obj cx (message_doc cx msg))"
    using assms(1) by (simp add: codec_ok_def serialize_doc)
  moreover have "message_type_from_str (message_type_to_str (msg_type msg)) = msg_type msg"
    using assms(3) by (simp add: wf_message_def)
  ultimately show ?thesis
    using pay opts read_opt_fields(1) read_durability_packed
    by (simp add: deserialize_def message_doc_def read_field_def default_message_def
        del: doc_obj.simps(3))
qed

section \<open>A concrete codec\<close>

text \<open>
  An instance of the parameter for concrete runs: the wire form uses the wide formats of
  msgpack, the unpacker knows the given documents, and floats embed into doubles bit by bit.
\<close>

fun sample_tok :: "tok \<Rightarrow> bytes" where
  "sample_tok PNil = [0xC0]"
| "sample_tok (PBool b) = [if b then 0xC3 else 0xC2]"
| "sample_tok (PInt i) = (if i < 0 then 0xD3 else 0xCF) # rev (le_bytes 8 (nat (i mod 2 ^ 64)))"
| "sample_tok (PDouble d) = 0xCB # rev (le_bytes 8 (unat d))"
| "sample_tok (PStr s) = 0xDB # rev (le_bytes 4 (length s)) @ str_bytes s"
| "sample_tok (PMap n) = 0xDF # rev (le_bytes 4 (unat n))"
| "sample_tok (PArray n) = 0xDD # rev (le_bytes 4 (unat n))"

definition sample_base :: codec where
  "sample_base = \<lparr>cx_wire = (\<lambda>ts. concat (map sample_tok ts)), cx_unpack = (\<lambda>_. None),
     cx_double = MFloat64, cx_widen = ucast, cx_narrow = ucast,
     cx_u64_double = (\<lambda>u. u), cx_u64_float = ucast, cx_i32_float = ucast\<rparr>"

definition sample_codec :: "pdoc list \<Rightarrow> codec" where
  "sample_codec ds = sample_base\<lparr>cx_unpack :=
     map_of (map (\<lambda>d. (cx_wire sample_base (doc_toks d), doc_obj sample_base d)) ds)\<rparr>"

lemma any_doc_cong:
  "cx_widen cx = cx_widen cx' \<Longrightarrow> any_doc cx v = any_doc cx' v"
  "cx_widen cx = cx_widen cx' \<Longrightarrow> entries_doc cx kvs = entries_doc cx' kvs"
  "cx_widen cx = cx_widen cx' \<Longrightarrow> items_doc cx vs = items_doc cx' vs"
  by (induction cx v and cx kvs and cx vs rule: any_doc_entries_doc_items_doc.induct) simp_all

lemma doc_obj_cong:
  "cx_double cx = cx_double cx' \<Longrightarrow> doc_obj cx d = doc_obj cx' d"
  "cx_double cx = cx_double cx' \<Longrightarrow> doc_entry_objs cx kvs = doc_entry_objs cx' kvs"
  "cx_double cx = cx_double cx' \<Longrightarrow> doc_item_objs cx ds = doc_item_objs cx' ds"
  by (induction cx d and cx kvs and cx ds rule: doc_obj_doc_entry_objs_doc_item_objs.induct) simp_all

lemma sample_message_doc [simp]: "message_doc (sample_codec ds) msg = message_doc sample_base msg"
  using any_doc_cong(2) [of "sample_codec ds" sample_base "msg_payload msg"]
  by (simp add: message_doc_def sample_codec_def)

lemma sample_codec_ok [simp]: "codec_ok (sample_codec (d # ds)) d"
  using doc_obj_cong(1) [of "sample_codec (d # ds)" sample_base d]
  by (simp add: codec_ok_def sample_codec_def)

lemma sample_codec_ok_distinct:
  assumes "cx_wire sample_base (doc_toks d) \<noteq> cx_wire sample_base (doc_toks d')"
  shows "codec_ok (sample_codec (d # d' # ds)) d'"
  using assms doc_obj_cong(1) [of "sample_codec (d # d' # ds)" sample_base d']
  by (simp add: codec_ok_def sample_codec_def)

text \<open>The 23rd byte of a message is the low byte of the length of its type's name.\<close>

lemma sample_wire_type:
  "cx_wire sample_base (doc_toks (message_doc cx msg)) ! 22 =
     word_of_nat (length (message_type_to_str (msg_type msg)) mod 256)"
proof -
  let ?s = "message_type_to_str (msg_type msg)"
  obtain rest where w: "cx_wire sample_base (doc_toks (message_doc cx msg)) =
      (sample_tok (PMap 10) @ sample_tok (PStr ''msg_type'')) @ sample_tok (PStr ?s) @ rest"
    by (simp add: message_doc_def sample_base_def del: sample_tok.simps)
  have "length (sample_tok (PMap 10) @ sample_tok (PStr ''msg_type'')) = 18"
    by (simp del: le_bytes.simps)
  then have "cx_wire sample_base (doc_toks (message_doc cx msg)) ! 22 = (sample_tok (PStr ?s) @ rest) ! 4"
    unfolding w by (subst nth_append) (simp del: sample_tok.simps)
  also have "\<dots> = rev (le_bytes 4 (length ?s)) ! 3"
    by (simp add: nth_append del: le_bytes.simps)
  also have "\<dots> = le_bytes 4 (length ?s) ! 0"
    by (subst rev_nth) (simp_all del: le_bytes.simps)
  also have "\<dots> = word_of_nat (length ?s mod 256)"
    using le_bytes.simps(2) [of 3 "length ?s"] by simp
  finally show ?thesis .
qed

lemma four_bytes: "(2 :: nat) ^ 32 = 256 ^ 4"
  by simp

lemma sample_codec_ok_second:
  assumes "length kvs < 2 ^ 32" and "length kvs' < 2 ^ 32" and "length kvs \<noteq> length kvs'"
  shows "codec_ok (sample_codec (DMap kvs # DMap kvs' # ds)) (DMap kvs')"
proof -
  let ?w = "\<lambda>kvs. cx_wire sample_base (doc_toks (DMap kvs))"
  have "take 4 (tl (?w ks)) = rev (le_bytes 4 (length ks))" if "length ks < 2 ^ 32" for ks
    using that by (simp add: sample_base_def del: le_bytes.simps)
  then have "?w kvs \<noteq> ?w kvs'"
    using assms le_nat_le_bytes_small [of "length kvs" 4] le_nat_le_bytes_small [of "length kvs'" 4]
    by (metis (no_types) rev_is_rev_conv four_bytes)
  then show ?thesis by (rule sample_codec_ok_distinct)
qed

lemma sample_codec_numbers [simp]: "codec_numbers (sample_codec ds)"
  by (simp add: codec_numbers_def sample_codec_def sample_base_def)

lemma sample_keeps_floats [simp]: "keeps_floats (sample_codec ds) msg"
proof -
  have "(ucast (ucast f :: u64) :: u32) = f" for f :: u32
    by (simp add: ucast_down_ucast_id is_down)
  then show ?thesis by (simp add: keeps_floats_def sample_codec_def sample_base_def)
qed

definition sample_message :: message where
  "sample_message = default_message\<lparr>sender := ''gw'', event := ''quote'',
     msg_payload := [(''qty'', AInt64 (2 ^ 32 + 7)), (''sym'', ACStr ''IF''),
                     (''legs'', AVecAny [AString ''a'', AString ''b''])],
     correlation_id := Some ''c1'', wait_timeout := Some 5\<rparr>"

lemma sample_message_fields [simp]:
  "sender sample_message = ''gw''" "event sample_message = ''quote''" "wait_timeout sample_message = Some 5"
  "msg_payload sample_message = [(''qty'', AInt64 (2 ^ 32 + 7)), (''sym'', ACStr ''IF''),
     (''legs'', AVecAny [AString ''a'', AString ''b''])]"
  by (simp_all add: sample_message_def default_message_def)

lemma sample_message_wf [simp]: "wf_message sample_message"
  by (simp add: wf_message_def sample_message_def default_message_def message_type_from_str_def)

section \<open>Properties\<close>



text \<open>A 64-bit integer in a payload comes back as a 32-bit \<^verbatim>\<open>int\<close>, and with the same value
  exactly when it fits in 32 bits: \<^verbatim>\<open>unpack_object\<close> casts every integer to \<^verbatim>\<open>int\<close>.\<close>

lemma payload_int64_truncated:
  assumes "codec_ok cx (message_doc cx msg)" and "codec_numbers cx"
    and "wf_message msg" and "keeps_floats cx msg"
    and "map_of (msg_payload msg) k = Some (AInt64 w)"
  shows "\<exists>m' i. deserialize cx (serialize cx msg) = Inr m' \<and>
    map_of (msg_payload m') k = Some (AInt i) \<and>
    (sint i = sint w \<longleftrightarrow> - (2 ^ 31) \<le> sint w \<and> sint w < 2 ^ 31)"
proof -
  have "sint (ucast w :: i32) = signed_take_bit 31 (sint w)"
    by transfer (simp add: signed_take_bit_take_bit)
  then have "sint (ucast w :: i32) = sint w \<longleftrightarrow> - (2 ^ 31) \<le> sint w \<and> sint w < 2 ^ 31"
    using signed_take_bit_int_eq_self_iff [of 31 "sint w"] by simp
  with deserialize_serialize [OF assms(1-4)] assms(5) show ?thesis
    by (auto simp: map_of_norm_entries)
qed

lemma payload_int64_truncated_witness:
  "\<exists>m' i. deserialize (sample_codec [message_doc sample_base sample_message])
      (serialize (sample_codec [message_doc sample_base sample_message]) sample_message) = Inr m' \<and>
    map_of (msg_payload m') ''qty'' = Some (AInt i) \<and> sint i \<noteq> 2 ^ 32 + 7"
  using payload_int64_truncated [of "sample_codec [message_doc sample_base sample_message]"
      sample_message "''qty''" "2 ^ 32 + 7"]
  by auto


end
