(* ===== verification/Keyed_Store.thy ===== *)
theory Keyed_Store
  imports Tyche_Prelude
begin

text \<open>
  The contract of a table that assigns a value to a key on first use: looking a key up,
  ensuring it has a value (the one it has, or a fresh one), and, in an extension, deleting it.
  String interning and the topic map are instances.  \<open>room s n\<close> says that \<open>n\<close> more keys can be
  assigned in state \<open>s\<close>.
\<close>

locale keyed_store =
  fixes wf :: "'s \<Rightarrow> bool"
    and room :: "'s \<Rightarrow> nat \<Rightarrow> bool"
    and look :: "'s \<Rightarrow> 'k \<Rightarrow> 'v option"
    and fresh :: "'s \<Rightarrow> 'v"
    and ensure :: "'k \<Rightarrow> 's \<Rightarrow> 'v \<times> 's"
  assumes ensure_hit: "wf s \<Longrightarrow> look s k = Some v \<Longrightarrow> ensure k s = (v, s)"
    and ensure_miss: "wf s \<Longrightarrow> room s (Suc n) \<Longrightarrow> look s k = None \<Longrightarrow>
      \<exists>s'. ensure k s = (fresh s, s') \<and> wf s' \<and> room s' n \<and> look s' = (look s)(k \<mapsto> fresh s)"
    and fresh_new: "wf s \<Longrightarrow> fresh s \<notin> ran (look s)"
    and room_less: "room s (Suc n) \<Longrightarrow> room s n"
begin

lemma ensure_step:
  assumes "wf s" and "room s (Suc n)" and "inj_on (look s) (dom (look s))"
  obtains v s' where "ensure k s = (v, s')" "wf s'" "room s' n" "look s' k = Some v"
    "look s \<subseteq>\<^sub>m look s'" "dom (look s') = insert k (dom (look s))"
    "inj_on (look s') (dom (look s'))"
proof (cases "look s k")
  case None
  from ensure_miss [OF assms(1,2) None] obtain s' where
    s': "ensure k s = (fresh s, s')" "wf s'" "room s' n" "look s' = (look s)(k \<mapsto> fresh s)"
    by blast
  have "look s x \<noteq> Some (fresh s)" for x
    using fresh_new [OF assms(1)] by (auto simp: ran_def)
  then have "inj_on (look s') (dom (look s'))"
    using assms(3) by (auto simp: s'(4) inj_on_def)
  moreover have "look s \<subseteq>\<^sub>m look s'"
    using None by (auto simp: s'(4) map_le_def)
  ultimately show thesis
    using that [of "fresh s" s'] s' by auto
next
  case (Some v)
  with that [of v s] assms room_less [OF assms(2)] ensure_hit [OF assms(1) Some]
  show thesis by (auto simp: insert_absorb)
qed

text \<open>Assigning a list of keys in turn: every key gets a value, values once assigned stay,
  and different keys have different values.\<close>

lemma ensure_all:
  assumes "wf s" and "room s (length ks)" and "inj_on (look s) (dom (look s))"
  shows "wf (fold (\<lambda>k s. snd (ensure k s)) ks s) \<and>
    look s \<subseteq>\<^sub>m look (fold (\<lambda>k s. snd (ensure k s)) ks s) \<and>
    dom (look (fold (\<lambda>k s. snd (ensure k s)) ks s)) = set ks \<union> dom (look s) \<and>
    inj_on (look (fold (\<lambda>k s. snd (ensure k s)) ks s)) (set ks \<union> dom (look s))"
  using assms
proof (induction ks arbitrary: s)
  case (Cons k ks)
  have "room s (Suc (length ks))" using Cons.prems(2) by simp
  from Cons.prems(1) this Cons.prems(3) obtain v s' where s': "ensure k s = (v, s')" "wf s'"
    "room s' (length ks)" "look s \<subseteq>\<^sub>m look s'" "dom (look s') = insert k (dom (look s))"
    "inj_on (look s') (dom (look s'))"
    by (rule ensure_step [where k = k])
  from Cons.IH [OF s'(2,3,6)] s'(1,4,5) show ?case
    by (auto intro: map_le_trans)
qed auto

end

locale keyed_store_del = keyed_store wf room look fresh ensure
  for wf :: "'s \<Rightarrow> bool" and room :: "'s \<Rightarrow> nat \<Rightarrow> bool" and look :: "'s \<Rightarrow> 'k \<Rightarrow> 'v option"
    and fresh :: "'s \<Rightarrow> 'v" and ensure :: "'k \<Rightarrow> 's \<Rightarrow> 'v \<times> 's" +
  fixes del :: "'k \<Rightarrow> 's \<Rightarrow> 's"
  assumes del_wf: "wf s \<Longrightarrow> wf (del k s)"
    and del_look: "wf s \<Longrightarrow> look (del k s) = (look s)(k := None)"
    and del_fresh: "wf s \<Longrightarrow> fresh (del k s) = fresh s"
    and del_room: "room s n \<Longrightarrow> room (del k s) n"
begin

text \<open>A key that was deleted is assigned anew, never with a value another key still has.\<close>

lemma reassign:
  assumes "wf s" and "room s (Suc n)"
  shows "\<exists>s'. ensure k (del k s) = (fresh s, s') \<and> wf s' \<and> look s' = (look s)(k \<mapsto> fresh s) \<and>
    fresh s \<notin> ran (look s)"
  using ensure_miss [OF del_wf [OF assms(1)] del_room [OF assms(2)], of k k] fresh_new [OF assms(1)]
  by (auto simp: del_look [OF assms(1)] del_fresh [OF assms(1)])

end

end
