(* ===== verification/Fifo_Spec.thy ===== *)
theory Fifo_Spec
  imports Tyche_Prelude "HOL-Library.Sublist"
begin

text \<open>
  The contract of a bounded queue, as a locale: an invariant, the list of elements in the
  queue, a capacity, an operation that offers an element and one that takes one.  A client
  of the contract drives the queue by a sequence of operations; the conservation law says
  that whatever the sequence, the elements that were there and the ones accepted come out
  in that order, none lost, none twice.
\<close>

datatype 'a qop = Offer 'a | Take

text \<open>
  A run collects the accepted and the delivered elements.  \<open>None\<close> is a run in which an
  offer never returns.
\<close>

fun qrun :: "('a \<Rightarrow> 'q \<Rightarrow> (bool \<times> 'q) option) \<Rightarrow> ('q \<Rightarrow> 'a option \<times> 'q) \<Rightarrow> 'a qop list \<Rightarrow> 'q \<Rightarrow>
    ('a list \<times> 'a list \<times> 'q) option" where
  "qrun offer tk [] q = Some ([], [], q)"
| "qrun offer tk (Offer x # ops) q =
     do { (ok, q1) \<leftarrow> offer x q;
          (acc, out, q2) \<leftarrow> qrun offer tk ops q1;
          Some (if ok then x # acc else acc, out, q2) }"
| "qrun offer tk (Take # ops) q =
     do { (acc, out, q2) \<leftarrow> qrun offer tk ops (snd (tk q));
          Some (acc, (case fst (tk q) of None \<Rightarrow> out | Some x \<Rightarrow> x # out), q2) }"

fun offered :: "'a qop list \<Rightarrow> 'a list" where
  "offered [] = []"
| "offered (Offer x # ops) = x # offered ops"
| "offered (Take # ops) = offered ops"

lemma qrun_append:
  "qrun offer tk (ops1 @ ops2) q =
     do { (acc1, out1, q1) \<leftarrow> qrun offer tk ops1 q;
          (acc2, out2, q2) \<leftarrow> qrun offer tk ops2 q1;
          Some (acc1 @ acc2, out1 @ out2, q2) }"
proof (induction ops1 arbitrary: q rule: offered.induct)
  case (2 x ops)
  then show ?case by (cases "offer x q") (auto split: bind_splits)
next
  case (3 ops)
  then show ?case by (auto split: bind_splits option.splits)
qed (auto split: bind_splits)

lemma offered_append [simp]: "offered (ops1 @ ops2) = offered ops1 @ offered ops2"
  by (induction ops1 rule: offered.induct) auto

lemma offered_offers [simp]: "offered (map Offer xs) = xs"
  by (induction xs) auto

locale bounded_fifo =
  fixes inv :: "'q \<Rightarrow> bool"
    and content :: "'q \<Rightarrow> 'a list"
    and cap :: "'q \<Rightarrow> nat"
    and offer :: "'a \<Rightarrow> 'q \<Rightarrow> (bool \<times> 'q) option"
    and tk :: "'q \<Rightarrow> 'a option \<times> 'q"
  assumes content_le: "inv q \<Longrightarrow> length (content q) \<le> cap q"
    and offer_room: "inv q \<Longrightarrow> length (content q) < cap q \<Longrightarrow>
      \<exists>q'. offer x q = Some (True, q') \<and> inv q' \<and> content q' = content q @ [x] \<and> cap q' = cap q"
    and offer_full: "inv q \<Longrightarrow> length (content q) = cap q \<Longrightarrow>
      \<exists>q'. offer x q = Some (False, q') \<and> inv q' \<and> content q' = content q \<and> cap q' = cap q"
    and take_some: "inv q \<Longrightarrow> content q = x # xs \<Longrightarrow>
      \<exists>q'. tk q = (Some x, q') \<and> inv q' \<and> content q' = xs \<and> cap q' = cap q"
    and take_none: "inv q \<Longrightarrow> content q = [] \<Longrightarrow> tk q = (None, q)"
begin

lemma offer_cases:
  assumes "inv q"
  obtains (room) q' where "length (content q) < cap q" "offer x q = Some (True, q')" "inv q'"
      "content q' = content q @ [x]" "cap q' = cap q"
    | (full) q' where "length (content q) = cap q" "offer x q = Some (False, q')" "inv q'"
      "content q' = content q" "cap q' = cap q"
  using content_le [OF assms] offer_room [OF assms] offer_full [OF assms]
  by (metis le_neq_implies_less)

lemma take_cases:
  assumes "inv q"
  obtains (some) x q' where "tk q = (Some x, q')" "content q = x # content q'" "inv q'"
      "cap q' = cap q"
    | (none) "tk q = (None, q)" "content q = []"
  using take_some [OF assms] take_none [OF assms] by (metis list.exhaust)

text \<open>Every run returns, keeps the invariant, and conserves the elements in order.\<close>

lemma conservation:
  assumes "inv q"
  shows "\<exists>acc out q'. qrun offer tk ops q = Some (acc, out, q') \<and> inv q' \<and> cap q' = cap q \<and>
    content q @ acc = out @ content q' \<and> subseq acc (offered ops)"
  using assms
proof (induction ops arbitrary: q rule: offered.induct)
  case (2 x ops)
  from "2.prems" show ?case
  proof (cases rule: offer_cases [where x = x])
    case (room q1)
    with "2.IH" [OF room(3)] show ?thesis by auto
  next
    case (full q1)
    with "2.IH" [OF full(3)] show ?thesis by auto
  qed
next
  case (3 ops)
  from "3.prems" show ?case
  proof (cases rule: take_cases)
    case (some x q1)
    with "3.IH" [OF some(3)] show ?thesis by auto
  next
    case none
    with "3.IH" [OF "3.prems"] show ?thesis by auto
  qed
qed auto

end

end
