(* ===== verification/Ring_Buffer.thy ===== *)
theory Ring_Buffer
  imports Fifo_Spec
begin

text \<open>
  The ring buffer of \<^verbatim>\<open>src/tyche/cpp/engine/ring_buffer.h\<close>: a record for the object, one
  definition per member function, the invariant that ties the sequence number of every
  slot to the two positions, and the refinement of the operations to a bounded FIFO
  list.  Each operation is run here without interference from another thread, so a
  compare-exchange succeeds exactly when the position it expects is the current one.
  A loop that would spin for ever has the value \<open>None\<close>.
\<close>

section \<open>State and operations\<close>

record 'a slot =
  sequence :: u64
  data :: 'a

record 'a ring_buffer =
  rb_mask :: u64
  write_pos :: u64
  read_pos :: u64
  slots :: "'a slot list"

text \<open>Rounding up to a power of two by smearing the top bit downwards.\<close>

definition next_power_of_2 :: "u64 \<Rightarrow> u64" where
  "next_power_of_2 n =
     (if n \<le> 1 then 1
      else
        let n = n - 1;
            n = n OR drop_bit 1 n;
            n = n OR drop_bit 2 n;
            n = n OR drop_bit 4 n;
            n = n OR drop_bit 8 n;
            n = n OR drop_bit 16 n;
            n = n OR drop_bit 32 n
        in n + 1)"

text \<open>The constructor; \<open>dflt\<close> is the value-initialised element every slot starts with.\<close>

definition ring_new :: "'a \<Rightarrow> u64 \<Rightarrow> 'a ring_buffer" where
  "ring_new dflt requested_capacity =
     (let m = next_power_of_2 (if requested_capacity < 2 then 2 else requested_capacity) - 1
      in \<lparr>rb_mask = m, write_pos = 0, read_pos = 0,
          slots = map (\<lambda>i. \<lparr>sequence = word_of_nat i, data = dflt\<rparr>) [0..<unat (m + 1)]\<rparr>)"

definition slot_index :: "'a ring_buffer \<Rightarrow> u64 \<Rightarrow> nat" where
  "slot_index rb pos = unat (pos AND rb_mask rb)"

text \<open>
  The difference of two unsigned counters read as a signed machine integer:
  \<^verbatim>\<open>static_cast<intptr_t>(seq) - static_cast<intptr_t>(pos)\<close> in two's complement.
\<close>

definition seq_diff :: "u64 \<Rightarrow> u64 \<Rightarrow> int" where
  "seq_diff s p = sint (s - p)"

text \<open>
  \<^verbatim>\<open>try_push\<close> from the position last read.  On success the slot's data is stored, then its
  sequence number is published.  When the sequence number is ahead of the position the
  code reloads the position and tries again.
\<close>

partial_function (option) try_push_loop ::
    "'a \<Rightarrow> u64 \<Rightarrow> 'a ring_buffer \<Rightarrow> (bool \<times> 'a ring_buffer) option" where
  "try_push_loop item pos rb =
     (let i = slot_index rb pos; diff = seq_diff (sequence (slots rb ! i)) pos
      in if diff = 0 then
           (if write_pos rb = pos
            then Some (True, rb\<lparr>write_pos := pos + 1,
                                slots := (slots rb)[i := \<lparr>sequence = pos + 1, data = item\<rparr>]\<rparr>)
            else try_push_loop item (write_pos rb) rb)
         else if diff < 0 then Some (False, rb)
         else try_push_loop item (write_pos rb) rb)"

definition try_push :: "'a \<Rightarrow> 'a ring_buffer \<Rightarrow> (bool \<times> 'a ring_buffer) option" where
  "try_push item rb = try_push_loop item (write_pos rb) rb"

text \<open>
  One round of the discarding loop of \<^verbatim>\<open>push_overwrite\<close>: when the oldest slot is ready,
  advance the read position past it and hand the slot back to the writers.
\<close>

definition discard_oldest :: "'a ring_buffer \<Rightarrow> 'a ring_buffer" where
  "discard_oldest rb =
     (let rpos = read_pos rb; i = slot_index rb rpos
      in if seq_diff (sequence (slots rb ! i)) (rpos + 1) = 0
         then rb\<lparr>read_pos := rpos + 1,
                 slots := (slots rb)[i := (slots rb ! i)\<lparr>sequence := rpos + rb_mask rb + 1\<rparr>]\<rparr>
         else rb)"

partial_function (option) push_overwrite ::
    "'a \<Rightarrow> 'a ring_buffer \<Rightarrow> 'a ring_buffer option" where
  "push_overwrite item rb =
     do { r \<leftarrow> try_push item rb;
          if fst r then Some (snd r) else push_overwrite item (discard_oldest (snd r)) }"

text \<open>\<^verbatim>\<open>push_blocking\<close> yields and retries until there is room.\<close>

partial_function (option) push_blocking ::
    "'a \<Rightarrow> 'a ring_buffer \<Rightarrow> 'a ring_buffer option" where
  "push_blocking item rb =
     do { r \<leftarrow> try_push item rb;
          if fst r then Some (snd r) else push_blocking item (snd r) }"

definition pop :: "'a ring_buffer \<Rightarrow> 'a option \<times> 'a ring_buffer" where
  "pop rb =
     (let pos = read_pos rb; i = slot_index rb pos; sl = slots rb ! i
      in if seq_diff (sequence sl) (pos + 1) = 0
         then (Some (data sl),
               rb\<lparr>read_pos := pos + 1,
                  slots := (slots rb)[i := sl\<lparr>sequence := pos + rb_mask rb + 1\<rparr>]\<rparr>)
         else (None, rb))"

definition ring_size :: "'a ring_buffer \<Rightarrow> u64" where
  "ring_size rb = (if write_pos rb \<ge> read_pos rb then write_pos rb - read_pos rb else 0)"

definition ring_empty :: "'a ring_buffer \<Rightarrow> bool" where
  "ring_empty rb \<longleftrightarrow> ring_size rb = 0"

definition ring_full :: "'a ring_buffer \<Rightarrow> bool" where
  "ring_full rb \<longleftrightarrow> ring_size rb \<ge> rb_mask rb + 1"

definition ring_capacity :: "'a ring_buffer \<Rightarrow> u64" where
  "ring_capacity rb = rb_mask rb + 1"

section \<open>Rounding to a power of two\<close>

text \<open>
  \<open>smeared w m x\<close>: bit \<open>i\<close> of \<open>x\<close> is set when one of the \<open>w\<close> bits of \<open>m\<close> from \<open>i\<close> upwards
  is.  Every or-shift step doubles the window.
\<close>

definition smeared :: "nat \<Rightarrow> u64 \<Rightarrow> u64 \<Rightarrow> bool" where
  "smeared w m x \<longleftrightarrow> (\<forall>i. bit x i \<longleftrightarrow> (\<exists>d < w. bit m (i + d)))"

lemma smeared_step:
  assumes "smeared w m x"
  shows "smeared (w + w) m (x OR drop_bit w x)"
proof -
  have "bit (x OR drop_bit w x) i \<longleftrightarrow> (\<exists>d < w + w. bit m (i + d))" for i
  proof -
    have "bit (x OR drop_bit w x) i \<longleftrightarrow>
        (\<exists>d < w. bit m (i + d)) \<or> (\<exists>d < w. bit m (w + i + d))"
      using assms by (simp add: smeared_def bit_or_iff bit_drop_bit_eq)
    also have "(\<exists>d < w. bit m (w + i + d)) \<longleftrightarrow> (\<exists>d. w \<le> d \<and> d < w + w \<and> bit m (i + d))"
    proof
      assume "\<exists>d < w. bit m (w + i + d)"
      then obtain d where "d < w" "bit m (w + i + d)" by blast
      then show "\<exists>d. w \<le> d \<and> d < w + w \<and> bit m (i + d)"
        by (intro exI [of _ "w + d"]) (simp add: algebra_simps)
    next
      assume "\<exists>d. w \<le> d \<and> d < w + w \<and> bit m (i + d)"
      then obtain d where "w \<le> d" "d < w + w" "bit m (i + d)" by blast
      then show "\<exists>d < w. bit m (w + i + d)"
        by (intro exI [of _ "d - w"]) (simp add: algebra_simps)
    qed
    finally show ?thesis
      by (metis add_lessD1 linorder_not_less trans_less_add1)
  qed
  then show ?thesis by (simp add: smeared_def)
qed

text \<open>The six or-shift steps of the source, as one function of the decremented argument.\<close>

definition smear64 :: "u64 \<Rightarrow> u64" where
  "smear64 n =
     (let n = n OR drop_bit 1 n; n = n OR drop_bit 2 n; n = n OR drop_bit 4 n;
          n = n OR drop_bit 8 n; n = n OR drop_bit 16 n
      in n OR drop_bit 32 n)"

lemma next_power_of_2_smear: "1 < n \<Longrightarrow> next_power_of_2 n = smear64 (n - 1) + 1"
  by (auto simp: next_power_of_2_def smear64_def Let_def)

lemma smeared_smear64: "smeared 64 m (smear64 m)"
proof -
  have "smeared 1 m m" by (simp add: smeared_def)
  from smeared_step [OF this] have "smeared 2 m (m OR drop_bit 1 m)"
    by (simp add: numeral_2_eq_2)
  note smeared_step [OF this, simplified]
  note smeared_step [OF this, simplified]
  note smeared_step [OF this, simplified]
  note smeared_step [OF this, simplified]
  note smeared_step [OF this, simplified]
  then show ?thesis by (simp add: smear64_def Let_def)
qed

lemma top_bit:
  fixes m :: u64
  assumes "m \<noteq> 0"
  obtains h where "bit m h" and "\<And>j. bit m j \<Longrightarrow> j \<le> h" and "h < 64"
proof -
  let ?B = "{i. bit m i}"
  have bound: "i < 64" if "bit m i" for i
    using bit_imp_le_length [OF that] by simp
  then have fin: "finite ?B"
    by (auto intro: finite_subset [of _ "{..<64}"])
  from assms have ne: "?B \<noteq> {}"
    using bit_eqI [of m 0] by auto
  from Max_in [OF fin ne] have "bit m (Max ?B)" by simp
  then show thesis
    using that bound Max_ge [OF fin] by blast
qed

lemma smear64_mask:
  assumes "bit m h" and top: "\<And>j. bit m j \<Longrightarrow> j \<le> h" and "h < 64"
  shows "smear64 m = mask (Suc h)"
proof (rule bit_word_eqI)
  fix i assume "i < LENGTH(64)"
  then have i: "i < 64" by simp
  have "bit (smear64 m) i \<longleftrightarrow> (\<exists>d < 64. bit m (i + d))"
    using smeared_smear64 [of m] by (simp add: smeared_def)
  also have "\<dots> \<longleftrightarrow> i \<le> h"
  proof
    assume "\<exists>d < 64. bit m (i + d)"
    then show "i \<le> h" using top by (metis add_leD1)
  next
    assume "i \<le> h"
    with assms have "h - i < 64 \<and> bit m (i + (h - i))" by simp
    then show "\<exists>d < 64. bit m (i + d)" by blast
  qed
  also have "\<dots> \<longleftrightarrow> bit (mask (Suc h) :: u64) i"
    using i by (simp add: bit_mask_iff less_Suc_eq_le)
  finally show "bit (smear64 m) i \<longleftrightarrow> bit (mask (Suc h) :: u64) i" .
qed

lemma top_bit_bounds:
  fixes m :: u64
  assumes "bit m h" and top: "\<And>j. bit m j \<Longrightarrow> j \<le> h"
  shows "2 ^ h \<le> unat m" and "unat m < 2 ^ Suc h"
proof -
  from assms(1) have "bit (unat m) h"
    by (simp add: bit_unsigned_iff)
  then have "odd (unat m div 2 ^ h)"
    by (simp add: bit_iff_odd)
  then have "unat m div 2 ^ h \<noteq> 0"
    by (metis even_zero)
  then show "2 ^ h \<le> unat m"
    by (simp add: div_eq_0_iff)
  have "take_bit (Suc h) (unat m) = unat m"
    by (rule bit_eqI) (use top in \<open>auto simp: bit_take_bit_iff bit_unsigned_iff less_Suc_eq_le\<close>)
  then show "unat m < 2 ^ Suc h"
    by (metis take_bit_nat_less_exp)
qed

lemma next_power_of_2_exp:
  assumes "2 \<le> unat n" and "unat n \<le> 2 ^ 63"
  obtains k where "1 \<le> k" and "k \<le> 63" and "next_power_of_2 n = 2 ^ k"
    and "unat n \<le> 2 ^ k" and "2 ^ k < 2 * unat n"
proof -
  let ?m = "n - 1"
  have n1: "1 < n"
    using assms(1) by (simp add: word_less_nat_alt)
  have m: "unat ?m = unat n - 1"
    using n1 by (intro unat_minus_one) auto
  have "?m \<noteq> 0" using n1 by auto
  then obtain h where h: "bit ?m h" "\<And>j. bit ?m j \<Longrightarrow> j \<le> h" "h < 64"
    using top_bit by metis
  note b = top_bit_bounds [OF h(1,2)]
  have "(2::nat) ^ h < 2 ^ 63"
    using b(1) m assms by linarith
  then have h63: "Suc h \<le> 63"
    using power_less_imp_less_exp [of "2::nat" h 63] by simp
  have "next_power_of_2 n = mask (Suc h) + 1"
    using n1 smear64_mask [OF h] by (simp add: next_power_of_2_smear)
  then have "next_power_of_2 n = 2 ^ Suc h"
    by (simp add: mask_eq_exp_minus_1)
  moreover have "unat n \<le> 2 ^ Suc h" "2 ^ Suc h < 2 * unat n"
    using b m assms(1) by simp_all
  ultimately show thesis
    using that [of "Suc h"] h63 by simp
qed

section \<open>The invariant\<close>

text \<open>
  \<open>ring_count\<close> is the number of elements between the two positions.  In a ring of \<open>2 ^ k\<close>
  slots the slot \<open>j\<close> places after the read position carries the sequence number of its
  position, plus one when it holds an element.
\<close>

definition ring_count :: "'a ring_buffer \<Rightarrow> nat" where
  "ring_count rb = unat (write_pos rb - read_pos rb)"

definition nth_slot :: "'a ring_buffer \<Rightarrow> nat \<Rightarrow> 'a slot" where
  "nth_slot rb j = slots rb ! ((unat (read_pos rb) + j) mod length (slots rb))"

definition ring_wf :: "nat \<Rightarrow> 'a ring_buffer \<Rightarrow> bool" where
  "ring_wf k rb \<longleftrightarrow> 1 \<le> k \<and> k \<le> 63 \<and> rb_mask rb = mask k \<and> length (slots rb) = 2 ^ k \<and>
     ring_count rb \<le> 2 ^ k \<and>
     (\<forall>j < 2 ^ k. sequence (nth_slot rb j) =
        read_pos rb + word_of_nat (if j < ring_count rb then Suc j else j))"

definition ring_inv :: "'a ring_buffer \<Rightarrow> bool" where
  "ring_inv rb \<longleftrightarrow> (\<exists>k. ring_wf k rb)"

text \<open>The elements in the buffer, oldest first.\<close>

definition ring_list :: "'a ring_buffer \<Rightarrow> 'a list" where
  "ring_list rb = map (\<lambda>j. data (nth_slot rb j)) [0..<ring_count rb]"

lemma length_ring_list [simp]: "length (ring_list rb) = ring_count rb"
  by (simp add: ring_list_def)

lemma write_pos_count: "write_pos rb = read_pos rb + word_of_nat (ring_count rb)"
  by (simp add: ring_count_def)

lemma pow2_63_less: "k \<le> 63 \<Longrightarrow> (2::nat) ^ k < 2 ^ 64"
  by (rule power_strict_increasing) simp_all

lemma pow2_dvd_64: "k \<le> 63 \<Longrightarrow> (2::nat) ^ k dvd 2 ^ LENGTH(64)"
  by (rule le_imp_power_dvd) simp

lemma ring_wfD:
  assumes "ring_wf k rb"
  shows "1 \<le> k" "k \<le> 63" "rb_mask rb = mask k" "length (slots rb) = 2 ^ k"
    "ring_count rb \<le> 2 ^ k" "(2::nat) ^ k \<le> 2 ^ 63"
  using assms power_increasing [of k 63 "2::nat"] by (auto simp: ring_wf_def)

lemma ring_wf_sequence:
  "ring_wf k rb \<Longrightarrow> j < 2 ^ k \<Longrightarrow> sequence (nth_slot rb j) =
     read_pos rb + word_of_nat (if j < ring_count rb then Suc j else j)"
  by (simp add: ring_wf_def)

lemma slot_index_offset:
  assumes "ring_wf k rb"
  shows "slot_index rb (read_pos rb + word_of_nat j) = (unat (read_pos rb) + j) mod 2 ^ k"
  using ring_wfD [OF assms] pow2_dvd_64 [of k]
  by (simp add: slot_index_def unat_and_mask_mod unat_add_of_nat_mod)

lemma slot_index_read:
  "ring_wf k rb \<Longrightarrow> slot_index rb (read_pos rb) = unat (read_pos rb) mod 2 ^ k"
  using slot_index_offset [of k rb 0] by simp

lemma slot_at_offset:
  "ring_wf k rb \<Longrightarrow> slots rb ! slot_index rb (read_pos rb + word_of_nat j) = nth_slot rb j"
  using ring_wfD(4) [of k rb] by (simp add: slot_index_offset nth_slot_def)

lemma slot_at_read: "ring_wf k rb \<Longrightarrow> slots rb ! slot_index rb (read_pos rb) = nth_slot rb 0"
  using slot_at_offset [of k rb 0] by simp

lemma nth_slot_wrap: "ring_wf k rb \<Longrightarrow> nth_slot rb (2 ^ k) = nth_slot rb 0"
  using ring_wfD(4) [of k rb] by (simp add: nth_slot_def)

section \<open>Behaviour of each operation\<close>

lemma seq_diff_self [simp]: "seq_diff p p = 0"
  by (simp add: seq_diff_def)

lemma seq_diff_0_iff [simp]: "seq_diff s p = 0 \<longleftrightarrow> s = p"
  using signed_eq_0_iff [of "s - p"] by (simp add: seq_diff_def)

lemma seq_diff_full:
  assumes "1 \<le> k" and "k \<le> 63"
  shows "seq_diff (p + 1) (p + word_of_nat (2 ^ k)) < 0"
proof -
  have "(2::int) ^ 1 \<le> 2 ^ k" "(2::int) ^ k \<le> 2 ^ 63"
    using assms by (intro power_increasing; simp)+
  then have "sint (word_of_int (1 - 2 ^ k) :: u64) = 1 - 2 ^ k"
    by (subst sint_sbintrunc') (simp add: signed_take_bit_int_eq_self)
  moreover have "p + 1 - (p + word_of_nat (2 ^ k)) = word_of_int (1 - 2 ^ k)"
    by (simp add: of_int_diff)
  ultimately show ?thesis
    unfolding seq_diff_def using \<open>2 ^ 1 \<le> 2 ^ k\<close> by simp
qed

text \<open>The state after a successful push.\<close>

definition pushed :: "'a \<Rightarrow> 'a ring_buffer \<Rightarrow> 'a ring_buffer" where
  "pushed x rb =
     rb\<lparr>write_pos := write_pos rb + 1,
        slots := (slots rb)[slot_index rb (write_pos rb) :=
                   \<lparr>sequence = write_pos rb + 1, data = x\<rparr>]\<rparr>"

lemma try_push_room:
  assumes "ring_wf k rb" and "ring_count rb < 2 ^ k"
  shows "try_push x rb = Some (True, pushed x rb)"
proof -
  have "sequence (slots rb ! slot_index rb (write_pos rb)) = write_pos rb"
    using assms by (simp add: write_pos_count slot_at_offset ring_wf_sequence)
  then show ?thesis
    by (simp add: try_push_def try_push_loop.simps pushed_def Let_def)
qed

lemma try_push_full:
  assumes "ring_wf k rb" and "ring_count rb = 2 ^ k"
  shows "try_push x rb = Some (False, rb)"
proof -
  have w: "write_pos rb = read_pos rb + word_of_nat (2 ^ k)"
    using assms(2) write_pos_count [of rb] by simp
  then have "slots rb ! slot_index rb (write_pos rb) = nth_slot rb 0"
    using slot_at_offset [OF assms(1), of "2 ^ k"] nth_slot_wrap [OF assms(1)] by simp
  then have "sequence (slots rb ! slot_index rb (write_pos rb)) = read_pos rb + 1"
    using ring_wf_sequence [OF assms(1), of 0] assms(2) by simp
  with w have "seq_diff (sequence (slots rb ! slot_index rb (write_pos rb))) (write_pos rb) < 0"
    using seq_diff_full ring_wfD(1,2) [OF assms(1)] by metis
  then show ?thesis
    by (subst try_push_def, subst try_push_loop.simps) (auto simp: Let_def)
qed

lemma nth_slot_update:
  assumes "length (slots rb) = n" and "i < n" and "j < n"
  shows "nth_slot (rb\<lparr>write_pos := w, slots := (slots rb)[(unat (read_pos rb) + i) mod n := s]\<rparr>) j
    = (if j = i then s else nth_slot rb j)"
proof -
  have "(unat (read_pos rb) + i) mod n < length (slots rb)"
    using assms by simp
  with assms show ?thesis
    by (auto simp: nth_slot_def nth_list_update ring_inj_iff)
qed

lemma count_pushed:
  assumes "ring_wf k rb" and "ring_count rb < 2 ^ k"
  shows "ring_count (pushed x rb) = Suc (ring_count rb)"
proof -
  have eq: "write_pos rb + 1 - read_pos rb = word_of_nat (Suc (ring_count rb))"
    by (simp add: write_pos_count)
  have "Suc (ring_count rb) < 2 ^ 64"
    using assms ring_wfD(2) pow2_63_less [of k] by fastforce
  then have "unat (write_pos rb + 1 - read_pos rb) = Suc (ring_count rb)"
    unfolding eq by (intro unat_word_of_nat_small) simp
  then show ?thesis
    by (simp add: ring_count_def [of "pushed x rb"]) (simp add: pushed_def)
qed

lemma nth_slot_pushed:
  assumes "ring_wf k rb" and "ring_count rb < 2 ^ k" and "j < 2 ^ k"
  shows "nth_slot (pushed x rb) j =
    (if j = ring_count rb then \<lparr>sequence = write_pos rb + 1, data = x\<rparr> else nth_slot rb j)"
proof -
  have "slot_index rb (write_pos rb) = (unat (read_pos rb) + ring_count rb) mod 2 ^ k"
    using slot_index_offset [OF assms(1)] write_pos_count [of rb] by metis
  then show ?thesis
    using nth_slot_update [OF ring_wfD(4) [OF assms(1)] assms(2,3)] by (simp add: pushed_def)
qed

lemma ring_wf_pushed:
  assumes "ring_wf k rb" and "ring_count rb < 2 ^ k"
  shows "ring_wf k (pushed x rb)"
proof -
  have "sequence (nth_slot (pushed x rb) j) = read_pos rb +
      word_of_nat (if j < Suc (ring_count rb) then Suc j else j)" if "j < 2 ^ k" for j
    using that assms by (simp add: nth_slot_pushed ring_wf_sequence write_pos_count)
  moreover have "read_pos (pushed x rb) = read_pos rb"
    by (simp add: pushed_def)
  ultimately show ?thesis
    using ring_wfD [OF assms(1)] assms count_pushed [OF assms, of x]
    by (auto simp: ring_wf_def pushed_def)
qed

lemma ring_list_pushed:
  assumes "ring_wf k rb" and "ring_count rb < 2 ^ k"
  shows "ring_list (pushed x rb) = ring_list rb @ [x]"
  using assms by (auto simp: ring_list_def count_pushed nth_slot_pushed)

text \<open>The state after the oldest element has left, by \<^verbatim>\<open>pop\<close> or by a discard.\<close>

definition popped :: "'a ring_buffer \<Rightarrow> 'a ring_buffer" where
  "popped rb =
     rb\<lparr>read_pos := read_pos rb + 1,
        slots := (slots rb)[slot_index rb (read_pos rb) :=
          (slots rb ! slot_index rb (read_pos rb))\<lparr>sequence := read_pos rb + rb_mask rb + 1\<rparr>]\<rparr>"

lemma read_ready_iff:
  assumes "ring_wf k rb"
  shows "sequence (slots rb ! slot_index rb (read_pos rb)) = read_pos rb + 1 \<longleftrightarrow>
    0 < ring_count rb"
  using assms by (simp add: slot_at_read ring_wf_sequence)

lemma pop_some:
  assumes "ring_wf k rb" and "0 < ring_count rb"
  shows "pop rb = (Some (hd (ring_list rb)), popped rb)"
proof -
  have "data (slots rb ! slot_index rb (read_pos rb)) = hd (ring_list rb)"
    using assms by (simp add: slot_at_read ring_list_def upt_conv_Cons)
  then show ?thesis
    using assms by (simp add: pop_def read_ready_iff popped_def Let_def)
qed

lemma pop_none: "ring_wf k rb \<Longrightarrow> ring_count rb = 0 \<Longrightarrow> pop rb = (None, rb)"
  using read_ready_iff [of k rb] by (simp add: pop_def Let_def)

lemma discard_some: "ring_wf k rb \<Longrightarrow> 0 < ring_count rb \<Longrightarrow> discard_oldest rb = popped rb"
  by (simp add: discard_oldest_def read_ready_iff popped_def Let_def)

lemma count_popped:
  assumes "0 < ring_count rb"
  shows "ring_count (popped rb) = ring_count rb - 1"
proof -
  have "write_pos rb - read_pos rb \<noteq> 0"
    using assms by (metis ring_count_def unat_0 less_irrefl)
  then have "unat (write_pos rb - read_pos rb - 1) = ring_count rb - 1"
    by (simp add: ring_count_def unat_minus_one)
  then show ?thesis
    by (simp add: ring_count_def popped_def diff_diff_eq)
qed

lemma nth_slot_popped:
  assumes "ring_wf k rb" and "j < 2 ^ k"
  shows "nth_slot (popped rb) j =
    (if Suc j = 2 ^ k then (nth_slot rb 0)\<lparr>sequence := read_pos rb + 2 ^ k\<rparr>
     else nth_slot rb (Suc j))"
proof -
  let ?r = "unat (read_pos rb)" and ?n = "(2::nat) ^ k"
  have len: "length (slots rb) = ?n" and m: "rb_mask rb = mask k" and k: "k \<le> 63"
    using ring_wfD [OF assms(1)] by auto
  have rel: "read_pos rb + rb_mask rb + 1 = read_pos rb + 2 ^ k"
    by (simp add: m mask_eq_exp_minus_1)
  have "unat (read_pos rb + 1) mod ?n = (?r + 1) mod ?n"
    using unat_add_of_nat_mod [OF pow2_dvd_64 [OF k], of "read_pos rb" 1] by simp
  then have ix: "(unat (read_pos rb + 1) + j) mod ?n = (?r + Suc j) mod ?n"
    by (metis mod_add_left_eq add.assoc plus_1_eq_Suc)
  have "?r mod ?n = (?r + Suc j) mod ?n \<longleftrightarrow> Suc j = ?n"
  proof (cases "Suc j = ?n")
    case False
    with assms(2) have "Suc j < ?n" by simp
    then show ?thesis using ring_inj_iff [of 0 ?n "Suc j" ?r] by simp
  qed (metis mod_add_self2)
  then show ?thesis
    using assms len ix rel
    by (auto simp: nth_slot_def popped_def slot_index_read nth_list_update)
qed

lemma ring_wf_popped:
  assumes "ring_wf k rb" and "0 < ring_count rb"
  shows "ring_wf k (popped rb)"
proof -
  have "sequence (nth_slot (popped rb) j) = read_pos rb + 1 +
      word_of_nat (if j < ring_count rb - 1 then Suc j else j)" if j: "j < 2 ^ k" for j
  proof (cases "Suc j = 2 ^ k")
    case True
    then have "(2::u64) ^ k = 1 + word_of_nat j"
      by (metis of_nat_Suc of_nat_numeral of_nat_power)
    with True j assms ring_wfD(5) [OF assms(1)] show ?thesis
      by (simp add: nth_slot_popped)
  next
    case False
    with j assms show ?thesis
      by (auto simp: nth_slot_popped ring_wf_sequence)
  qed
  moreover have "read_pos (popped rb) = read_pos rb + 1"
    by (simp add: popped_def)
  ultimately show ?thesis
    using ring_wfD [OF assms(1)] assms count_popped [OF assms(2)]
    by (auto simp: ring_wf_def popped_def)
qed

lemma ring_list_popped:
  assumes "ring_wf k rb" and "0 < ring_count rb"
  shows "ring_list (popped rb) = tl (ring_list rb)"
proof (rule nth_equalityI)
  show "length (ring_list (popped rb)) = length (tl (ring_list rb))"
    using assms by (simp add: count_popped)
next
  fix i assume "i < length (ring_list (popped rb))"
  then have i: "Suc i < ring_count rb"
    using assms by (simp add: count_popped)
  moreover have "Suc i < 2 ^ k"
    using i ring_wfD(5) [OF assms(1)] by linarith
  ultimately show "ring_list (popped rb) ! i = tl (ring_list rb) ! i"
    using assms by (simp add: ring_list_def count_popped nth_tl nth_slot_popped)
qed

section \<open>The ring buffer is a bounded FIFO\<close>

lemma ring_invE:
  assumes "ring_inv rb"
  obtains k where "ring_wf k rb" and "length (slots rb) = 2 ^ k"
  using assms ring_wfD(4) by (auto simp: ring_inv_def)

lemma slots_pushed [simp]: "length (slots (pushed x rb)) = length (slots rb)"
  by (simp add: pushed_def)

lemma slots_popped [simp]: "length (slots (popped rb)) = length (slots rb)"
  by (simp add: popped_def)

lemma ring_offer_room:
  assumes "ring_inv rb" and "length (ring_list rb) < length (slots rb)"
  shows "try_push x rb = Some (True, pushed x rb)" and "ring_inv (pushed x rb)"
    and "ring_list (pushed x rb) = ring_list rb @ [x]"
proof -
  obtain k where k: "ring_wf k rb" and "length (slots rb) = 2 ^ k"
    using assms(1) by (rule ring_invE)
  with assms(2) have c: "ring_count rb < 2 ^ k" by simp
  from k c show "try_push x rb = Some (True, pushed x rb)" by (rule try_push_room)
  from k c show "ring_list (pushed x rb) = ring_list rb @ [x]" by (rule ring_list_pushed)
  from ring_wf_pushed [OF k c] show "ring_inv (pushed x rb)" by (auto simp: ring_inv_def)
qed

lemma ring_offer_full:
  "ring_inv rb \<Longrightarrow> length (ring_list rb) = length (slots rb) \<Longrightarrow> try_push x rb = Some (False, rb)"
  by (auto elim!: ring_invE intro: try_push_full)

lemma ring_take_some:
  assumes "ring_inv rb" and "ring_list rb = x # xs"
  shows "pop rb = (Some x, popped rb)" and "ring_inv (popped rb)" and "ring_list (popped rb) = xs"
proof -
  obtain k where k: "ring_wf k rb" using assms(1) by (rule ring_invE)
  have c: "0 < ring_count rb"
    using assms(2) length_ring_list [of rb] by simp
  show "pop rb = (Some x, popped rb)"
    using pop_some [OF k c] assms(2) by simp
  show "ring_inv (popped rb)"
    using ring_wf_popped [OF k c] by (auto simp: ring_inv_def)
  show "ring_list (popped rb) = xs"
    using ring_list_popped [OF k c] assms(2) by simp
qed

lemma ring_take_none: "ring_inv rb \<Longrightarrow> ring_list rb = [] \<Longrightarrow> pop rb = (None, rb)"
  using length_ring_list [of rb] by (auto elim!: ring_invE intro: pop_none)

interpretation rb: bounded_fifo ring_inv ring_list "\<lambda>rb. length (slots rb)" try_push pop
proof (unfold_locales, goal_cases)
  case (1 q)
  then show ?case using ring_wfD(5) by (auto elim!: ring_invE)
next
  case (2 q x)
  then show ?case using ring_offer_room [OF 2] by auto
next
  case (3 q x)
  then show ?case using ring_offer_full [OF 3] by auto
next
  case (4 q x xs)
  then show ?case using ring_take_some [OF 4] by auto
next
  case (5 q)
  then show ?case by (rule ring_take_none)
qed

section \<open>The constructor and the overwriting and blocking pushes\<close>

lemma ring_new_shape:
  assumes "unat c \<le> 2 ^ 63"
  obtains k where "1 \<le> k" "k \<le> 63" "unat c \<le> 2 ^ k" "2 ^ k < 2 * max 2 (unat c)"
    "ring_new d c = \<lparr>rb_mask = mask k, write_pos = 0, read_pos = 0,
       slots = map (\<lambda>i. \<lparr>sequence = word_of_nat i, data = d\<rparr>) [0..<2 ^ k]\<rparr>"
proof -
  let ?n = "if c < 2 then 2 else c"
  have n: "2 \<le> unat ?n" "unat ?n \<le> 2 ^ 63" "unat ?n = max 2 (unat c)"
    using assms by (auto simp: word_less_nat_alt not_less)
  from n(1,2) obtain k where k: "1 \<le> k" "k \<le> 63" "next_power_of_2 ?n = 2 ^ k"
      "unat ?n \<le> 2 ^ k" "2 ^ k < 2 * unat ?n"
    by (rule next_power_of_2_exp)
  have "unat (mask k + 1 :: u64) = 2 ^ k"
    using k(2) pow2_63_less [of k] unat_word_of_nat_small [where 'a = 64, of "2 ^ k"]
    by (simp add: mask_eq_exp_minus_1)
  with k n(3) show thesis
    using that [of k] by (simp add: ring_new_def Let_def mask_eq_exp_minus_1)
qed

lemma ring_inv_new:
  assumes "unat c \<le> 2 ^ 63"
  shows "ring_inv (ring_new d c)" and "ring_list (ring_new d c) = []"
    and "unat c \<le> length (slots (ring_new d c))"
    and "length (slots (ring_new d c)) < 2 * max 2 (unat c)"
proof -
  obtain k where k: "1 \<le> k" "k \<le> 63" "unat c \<le> 2 ^ k" "2 ^ k < 2 * max 2 (unat c)"
    "ring_new d c = \<lparr>rb_mask = mask k, write_pos = 0, read_pos = 0,
       slots = map (\<lambda>i. \<lparr>sequence = word_of_nat i, data = d\<rparr>) [0..<2 ^ k]\<rparr>"
    by (rule ring_new_shape [OF assms])
  then have "ring_wf k (ring_new d c)"
    by (simp add: ring_wf_def ring_count_def nth_slot_def)
  then show "ring_inv (ring_new d c)"
    by (auto simp: ring_inv_def)
  show "ring_list (ring_new d c) = []"
    by (simp add: k(5) ring_list_def ring_count_def)
  show "unat c \<le> length (slots (ring_new d c))"
    and "length (slots (ring_new d c)) < 2 * max 2 (unat c)"
    using k by simp_all
qed

text \<open>
  \<^verbatim>\<open>push_overwrite\<close> always returns: when the buffer is full it discards the oldest element
  once and the retry finds room.  So it appends the element and drops at most one, from
  the front.
\<close>

lemma push_overwrite_room:
  assumes "ring_inv rb" and "length (ring_list rb) < length (slots rb)"
  shows "push_overwrite x rb = Some (pushed x rb)"
  using ring_offer_room(1) [OF assms] by (subst push_overwrite.simps) simp

lemma push_overwrite_full:
  assumes "ring_inv rb" and "length (ring_list rb) = length (slots rb)"
  shows "push_overwrite x rb = Some (pushed x (popped rb))"
proof -
  obtain k where k: "ring_wf k rb" "length (slots rb) = 2 ^ k"
    using assms(1) by (rule ring_invE)
  then have c: "0 < ring_count rb" using assms(2) by simp
  have inv: "ring_inv (popped rb)"
    using ring_wf_popped [OF k(1) c] by (auto simp: ring_inv_def)
  have "length (ring_list (popped rb)) < length (slots (popped rb))"
    using count_popped [OF c] c assms(2) by simp
  from push_overwrite_room [OF inv this]
  have "push_overwrite x (discard_oldest rb) = Some (pushed x (popped rb))"
    using discard_some [OF k(1) c] by simp
  then show ?thesis
    using ring_offer_full [OF assms] by (subst push_overwrite.simps) simp
qed

lemma push_overwrite_spec:
  assumes "ring_inv rb"
  shows "\<exists>rb'. push_overwrite x rb = Some rb' \<and> ring_inv rb' \<and>
    length (slots rb') = length (slots rb) \<and>
    ring_list rb' = (if length (ring_list rb) < length (slots rb) then ring_list rb
                     else tl (ring_list rb)) @ [x]"
proof (cases "length (ring_list rb) < length (slots rb)")
  case True
  then show ?thesis
    using push_overwrite_room [OF assms] ring_offer_room [OF assms] by simp
next
  case False
  then have full: "length (ring_list rb) = length (slots rb)"
    using rb.content_le [OF assms] by simp
  obtain k where k: "ring_wf k rb" "length (slots rb) = 2 ^ k"
    using assms by (rule ring_invE)
  then have "ring_list rb \<noteq> []" using full by (metis length_greater_0_conv zero_less_power zero_less_numeral)
  then obtain y ys where ys: "ring_list rb = y # ys" by (cases "ring_list rb") auto
  note tk = ring_take_some [OF assms ys]
  have "length (ring_list (popped rb)) < length (slots (popped rb))"
    using tk(3) ys full by simp
  note ps = ring_offer_room [OF tk(2) this]
  show ?thesis
    using push_overwrite_full [OF assms full] ps tk(3) ys full by simp
qed

text \<open>\<^verbatim>\<open>push_blocking\<close> never returns on a full buffer nobody drains.\<close>

lemma push_blocking_room:
  "ring_inv rb \<Longrightarrow> length (ring_list rb) < length (slots rb) \<Longrightarrow>
     push_blocking x rb = Some (pushed x rb)"
  by (subst push_blocking.simps) (simp add: ring_offer_room(1))

lemma push_blocking_full:
  assumes full: "try_push x rb = Some (False, rb)"
  shows "push_blocking x rb = None"
proof (rule ccontr)
  assume "push_blocking x rb \<noteq> None"
  then obtain r where ret: "push_blocking x rb = Some r" by auto
  have "try_push x rb \<noteq> Some (False, rb)"
  proof (rule push_blocking.raw_induct [where P = "\<lambda>x rb r. try_push x rb \<noteq> Some (False, rb)",
        OF _ ret])
    fix f x rb r
    assume IH: "\<And>x rb r. f x rb = Some r \<Longrightarrow> try_push x rb \<noteq> Some (False, rb)"
      and eq: "(do { s \<leftarrow> try_push x rb; if fst s then Some (snd s) else f x (snd s) }) = Some r"
    show "try_push x rb \<noteq> Some (False, rb)"
    proof
      assume "try_push x rb = Some (False, rb)"
      with eq IH [of x rb r] show False by simp
    qed
  qed
  with full show False by contradiction
qed

text \<open>The reported size is exact as long as the write position has not wrapped past zero.\<close>

lemma ring_size_exact:
  "read_pos rb \<le> write_pos rb \<Longrightarrow> unat (ring_size rb) = length (ring_list rb)"
  by (simp add: ring_size_def ring_count_def)

lemma ring_capacity_exact:
  assumes "ring_inv rb"
  shows "unat (ring_capacity rb) = length (slots rb)"
proof -
  obtain k where k: "ring_wf k rb" and len: "length (slots rb) = 2 ^ k"
    using assms by (rule ring_invE)
  have "unat (2 ^ k :: u64) = 2 ^ k"
    using ring_wfD(2) [OF k] pow2_63_less [of k] unat_word_of_nat_small [where 'a = 64, of "2 ^ k"]
    by simp
  then show ?thesis
    using ring_wfD(3) [OF k] len by (simp add: ring_capacity_def mask_eq_exp_minus_1)
qed

section \<open>Properties\<close>

text \<open>C8: On a freshly constructed ring buffer every sequence of pushes and pops returns, and
  the popped elements followed by the ones still in the buffer are exactly the accepted
  elements in the order they were pushed: nothing is lost, duplicated or reordered.\<close>

theorem ring_fifo:
  assumes "unat c \<le> 2 ^ 63"
  shows "\<exists>acc out rb'. qrun try_push pop ops (ring_new d c) = Some (acc, out, rb') \<and>
    acc = out @ ring_list rb' \<and> subseq acc (offered ops) \<and> ring_inv rb' \<and>
    length (ring_list rb') \<le> length (slots (ring_new d c))"
proof -
  note inv = ring_inv_new(1) [OF assms, of d] and nil = ring_inv_new(2) [OF assms, of d]
  from rb.conservation [OF inv, of ops] obtain acc out rb' where
    "qrun try_push pop ops (ring_new d c) = Some (acc, out, rb')" "ring_inv rb'"
    "length (slots rb') = length (slots (ring_new d c))"
    "acc = out @ ring_list rb'" "subseq acc (offered ops)"
    using nil by auto
  then show ?thesis
    using rb.content_le by (metis (no_types, lifting))
qed

theorem ring_fifo_witness:
  "\<exists>acc out rb'. qrun try_push pop [Offer (7::nat), Take, Take, Offer 8, Offer 9, Offer 10]
      (ring_new 0 2) = Some (acc, out, rb') \<and>
    acc = out @ ring_list rb' \<and> subseq acc (offered [Offer 7, Take, Take, Offer 8, Offer 9, Offer 10]) \<and>
    ring_inv rb' \<and> length (ring_list rb') \<le> length (slots (ring_new (0::nat) 2))"
  by (rule ring_fifo) simp

text \<open>A push is accepted exactly when fewer elements than slots are in the buffer, and then
  the element joins at the back; a rejected push leaves the contents as they were.\<close>

lemma try_push_exact:
  assumes "ring_inv rb"
  shows "\<exists>rb'. try_push x rb = Some (length (ring_list rb) < length (slots rb), rb') \<and> ring_inv rb' \<and>
    ring_list rb' = (if length (ring_list rb) < length (slots rb) then ring_list rb @ [x]
                     else ring_list rb)"
  using assms by (cases rule: rb.offer_cases [where x = x]) auto

lemma try_push_exact_witness:
  "\<exists>rb'. try_push (5::nat) (ring_new 0 4) =
      Some (length (ring_list (ring_new (0::nat) 4)) < length (slots (ring_new (0::nat) 4)), rb') \<and>
    ring_inv rb' \<and>
    ring_list rb' = (if length (ring_list (ring_new (0::nat) 4)) < length (slots (ring_new (0::nat) 4))
      then ring_list (ring_new 0 4) @ [5] else ring_list (ring_new 0 4))"
  by (rule try_push_exact) (rule ring_inv_new, simp)

text \<open>The overwriting push always returns and always stores its element; when the buffer was
  full it drops the oldest element and no other.\<close>

lemma push_overwrite_drops_oldest:
  assumes "ring_inv rb"
  shows "\<exists>rb'. push_overwrite x rb = Some rb' \<and> ring_inv rb' \<and>
    ring_list rb' = (if length (ring_list rb) < length (slots rb) then ring_list rb
                     else tl (ring_list rb)) @ [x]"
  using push_overwrite_spec [OF assms] by blast

lemma push_overwrite_drops_oldest_witness:
  "\<exists>rb'. push_overwrite (5::nat) (ring_new 0 4) = Some rb' \<and> ring_inv rb' \<and>
    ring_list rb' = (if length (ring_list (ring_new (0::nat) 4)) < length (slots (ring_new (0::nat) 4))
      then ring_list (ring_new 0 4) else tl (ring_list (ring_new 0 4))) @ [5]"
  by (rule push_overwrite_drops_oldest) (rule ring_inv_new, simp)

text \<open>Run alone, the blocking push returns exactly when there is room; on a full buffer that
  nobody drains it spins for ever.\<close>

lemma push_blocking_returns_iff:
  assumes "ring_inv rb"
  shows "(\<exists>rb'. push_blocking x rb = Some rb' \<and> ring_list rb' = ring_list rb @ [x]) \<longleftrightarrow>
    length (ring_list rb) < length (slots rb)"
proof (cases "length (ring_list rb) < length (slots rb)")
  case True
  then show ?thesis
    using push_blocking_room [OF assms True, of x] ring_offer_room(3) [OF assms True, of x] by simp
next
  case False
  then have "push_blocking x rb = None"
    using rb.content_le [OF assms] by (intro push_blocking_full ring_offer_full [OF assms]) simp
  with False show ?thesis by simp
qed

lemma push_blocking_returns_iff_witness:
  "(\<exists>rb'. push_blocking (5::nat) (ring_new 0 4) = Some rb' \<and>
      ring_list rb' = ring_list (ring_new 0 4) @ [5]) \<longleftrightarrow>
    length (ring_list (ring_new (0::nat) 4)) < length (slots (ring_new (0::nat) 4))"
  by (rule push_blocking_returns_iff) (rule ring_inv_new, simp)

text \<open>For every request from 2 up to half the address range the rounding returns the least
  power of two that is not below it.\<close>

lemma next_power_of_2_least:
  assumes "2 \<le> unat n" and "unat n \<le> 2 ^ 63"
  shows "\<exists>k. 1 \<le> k \<and> k \<le> 63 \<and> next_power_of_2 n = 2 ^ k \<and> unat n \<le> 2 ^ k \<and> 2 ^ k < 2 * unat n"
  using next_power_of_2_exp [OF assms] by metis

lemma next_power_of_2_least_witness:
  "\<exists>k. 1 \<le> k \<and> k \<le> 63 \<and> next_power_of_2 10000 = 2 ^ k \<and> unat (10000 :: u64) \<le> 2 ^ k \<and>
    2 ^ k < 2 * unat (10000 :: u64)"
  by (rule next_power_of_2_least) simp_all

end
