(* ===== verification/Topic_Queue.thy ===== *)
theory Topic_Queue
  imports Core_Types Fifo_Spec Ring_Buffer
begin

text \<open>
  Frames and topic queues: \<^verbatim>\<open>src/tyche/cpp/engine/topic_queue.h\<close> and \<^verbatim>\<open>topic_queue.cpp\<close>.  A
  frame keeps up to 64 bytes inline and larger contents on the heap; moving from a frame
  changes it, so the move operations return both frames.  A topic queue is a ring buffer of
  items with a back-pressure strategy and two counters.
\<close>

section \<open>Frames\<close>

record frame =
  fr_size :: u8
  sso_buf :: bytes
  heap_ptr :: "bytes option"
  heap_len :: nat

definition SSO_SIZE :: nat where
  "SSO_SIZE = 64"

definition frame_default :: frame where
  "frame_default = \<lparr>fr_size = 0, sso_buf = replicate SSO_SIZE 0, heap_ptr = None, heap_len = 0\<rparr>"

definition memcpy_front :: "bytes \<Rightarrow> nat \<Rightarrow> bytes \<Rightarrow> bytes" where
  "memcpy_front dst n src = take n src @ drop n dst"

definition frame_new :: "bytes \<Rightarrow> frame" where
  "frame_new bs =
     (if length bs \<le> SSO_SIZE
      then frame_default\<lparr>fr_size := word_of_nat (length bs),
             sso_buf := memcpy_front (sso_buf frame_default) (length bs) bs\<rparr>
      else frame_default\<lparr>fr_size := 0xFF, heap_len := length bs, heap_ptr := Some bs\<rparr>)"

definition frame_assign :: "frame \<Rightarrow> frame \<Rightarrow> frame" where
  "frame_assign this other =
     (let f = this\<lparr>fr_size := fr_size other, heap_len := heap_len other\<rparr>
      in if fr_size other = 0xFF then f\<lparr>heap_ptr := heap_ptr other\<rparr>
         else f\<lparr>sso_buf := memcpy_front (sso_buf f) (unat (fr_size other)) (sso_buf other)\<rparr>)"

definition frame_copy :: "frame \<Rightarrow> frame" where
  "frame_copy other = frame_assign frame_default other"

text \<open>The results of a move: the target and the frame moved from.\<close>

definition frame_move_assign :: "frame \<Rightarrow> frame \<Rightarrow> frame \<times> frame" where
  "frame_move_assign this other =
     (let f = this\<lparr>fr_size := fr_size other, heap_len := heap_len other\<rparr>
      in if fr_size other = 0xFF
         then (f\<lparr>heap_ptr := heap_ptr other\<rparr>, other\<lparr>heap_ptr := None, fr_size := 0, heap_len := 0\<rparr>)
         else (f\<lparr>sso_buf := memcpy_front (sso_buf f) (unat (fr_size other)) (sso_buf other)\<rparr>,
               other\<lparr>fr_size := 0, heap_len := 0\<rparr>))"

definition frame_move :: "frame \<Rightarrow> frame \<times> frame" where
  "frame_move other = frame_move_assign frame_default other"

definition frame_data :: "frame \<Rightarrow> bytes" where
  "frame_data f = (if fr_size f = 0xFF then (case heap_ptr f of Some h \<Rightarrow> h | None \<Rightarrow> []) else sso_buf f)"

definition frame_size :: "frame \<Rightarrow> nat" where
  "frame_size f = (if fr_size f = 0xFF then heap_len f else unat (fr_size f))"

definition frame_empty :: "frame \<Rightarrow> bool" where
  "frame_empty f \<longleftrightarrow> frame_size f = 0"

definition to_vector :: "frame \<Rightarrow> bytes" where
  "to_vector f = take (frame_size f) (frame_data f)"

definition frame_eq :: "frame \<Rightarrow> frame \<Rightarrow> bool" where
  "frame_eq f g \<longleftrightarrow> frame_size f = frame_size g \<and>
     take (frame_size f) (frame_data f) = take (frame_size f) (frame_data g)"

section \<open>Queue items and queues\<close>

record queue_item =
  enqueue_time :: time
  frames :: "frame list"

definition queue_item_default :: queue_item where
  "queue_item_default = \<lparr>enqueue_time = 0, frames = []\<rparr>"

definition queue_item_of_vectors :: "time \<Rightarrow> bytes list \<Rightarrow> queue_item" where
  "queue_item_of_vectors t f = \<lparr>enqueue_time = t, frames = map frame_new f\<rparr>"

record topic_queue =
  tq_buffer :: "queue_item ring_buffer"
  tq_strategy :: backpressure_strategy
  tq_processed :: u64
  tq_dropped :: u64

definition topic_queue_new :: "u64 \<Rightarrow> backpressure_strategy \<Rightarrow> topic_queue" where
  "topic_queue_new capacity strat =
     \<lparr>tq_buffer = ring_new queue_item_default capacity, tq_strategy = strat,
      tq_processed = 0, tq_dropped = 0\<rparr>"

definition tq_put :: "queue_item \<Rightarrow> topic_queue \<Rightarrow> (bool \<times> topic_queue) option" where
  "tq_put item q =
     (case tq_strategy q of
        DROP_OLDEST \<Rightarrow> do { b \<leftarrow> push_overwrite item (tq_buffer q); Some (True, q\<lparr>tq_buffer := b\<rparr>) }
      | DROP_NEWEST \<Rightarrow> do { r \<leftarrow> try_push item (tq_buffer q);
           if fst r then Some (True, q\<lparr>tq_buffer := snd r\<rparr>)
           else Some (False, q\<lparr>tq_buffer := snd r, tq_dropped := tq_dropped q + 1\<rparr>) }
      | BLOCK_PRODUCER \<Rightarrow>
          do { b \<leftarrow> push_blocking item (tq_buffer q); Some (True, q\<lparr>tq_buffer := b\<rparr>) })"

definition tq_get :: "topic_queue \<Rightarrow> queue_item option \<times> topic_queue" where
  "tq_get q =
     (let r = pop (tq_buffer q); q' = q\<lparr>tq_buffer := snd r\<rparr>
      in case fst r of None \<Rightarrow> (None, q')
         | Some item \<Rightarrow> (Some item, q'\<lparr>tq_processed := tq_processed q + 1\<rparr>))"

definition tq_size :: "topic_queue \<Rightarrow> u64" where
  "tq_size q = ring_size (tq_buffer q)"

definition tq_empty :: "topic_queue \<Rightarrow> bool" where
  "tq_empty q \<longleftrightarrow> ring_empty (tq_buffer q)"

definition tq_capacity :: "topic_queue \<Rightarrow> u64" where
  "tq_capacity q = ring_capacity (tq_buffer q)"

section \<open>Frames keep their bytes\<close>

definition frame_wf :: "frame \<Rightarrow> bool" where
  "frame_wf f \<longleftrightarrow> length (sso_buf f) = SSO_SIZE \<and>
     (if fr_size f = 0xFF then (\<exists>h. heap_ptr f = Some h \<and> length h = heap_len f)
      else unat (fr_size f) \<le> SSO_SIZE)"

lemma frame_default_wf [simp]: "frame_wf frame_default" "to_vector frame_default = []"
  by (simp_all add: frame_wf_def frame_default_def SSO_SIZE_def to_vector_def frame_size_def)

lemma unat_0xFF: "unat (0xFF :: u8) = 255"
  by simp

lemma size_inline [simp]:
  assumes "n \<le> SSO_SIZE"
  shows "unat (word_of_nat n :: u8) = n" "(word_of_nat n :: u8) \<noteq> 0xFF"
proof -
  show *: "unat (word_of_nat n :: u8) = n"
    using assms by (simp add: SSO_SIZE_def)
  show "(word_of_nat n :: u8) \<noteq> 0xFF"
  proof
    assume "(word_of_nat n :: u8) = 0xFF"
    then have "n = 255" using * unat_0xFF by metis
    then show False using assms by (simp add: SSO_SIZE_def)
  qed
qed

lemma frame_new_wf [simp]: "frame_wf (frame_new bs)"
  by (simp add: frame_wf_def frame_new_def frame_default_def memcpy_front_def SSO_SIZE_def)

lemma to_vector_new [simp]: "to_vector (frame_new bs) = bs"
  by (simp add: to_vector_def frame_new_def frame_default_def frame_size_def frame_data_def memcpy_front_def)

lemma frame_assign_wf:
  assumes "frame_wf f" and "frame_wf g"
  shows "frame_wf (frame_assign f g)" and "to_vector (frame_assign f g) = to_vector g"
  using assms by (auto simp: frame_wf_def frame_assign_def to_vector_def frame_size_def frame_data_def
      memcpy_front_def Let_def min_def)

lemma frame_move_wf:
  assumes "frame_wf f" and "frame_wf g" and "frame_move_assign f g = (f', g')"
  shows "frame_wf f'" and "to_vector f' = to_vector g" and "frame_wf g'" and "to_vector g' = []"
  using assms by (auto simp: frame_wf_def frame_move_assign_def to_vector_def frame_size_def
      frame_data_def memcpy_front_def Let_def min_def split: if_splits)

lemma frame_eq_vector:
  assumes "frame_wf f" and "frame_wf g"
  shows "frame_eq f g \<longleftrightarrow> to_vector f = to_vector g"
proof -
  have len: "length (to_vector h) = frame_size h" if "frame_wf h" for h
    using that by (auto simp: frame_wf_def to_vector_def frame_size_def frame_data_def)
  show ?thesis
    using len [OF assms(1)] len [OF assms(2)] by (metis frame_eq_def to_vector_def)
qed

section \<open>Queues\<close>

definition tq_inv :: "topic_queue \<Rightarrow> bool" where
  "tq_inv q \<longleftrightarrow> ring_inv (tq_buffer q)"

definition tq_list :: "topic_queue \<Rightarrow> queue_item list" where
  "tq_list q = ring_list (tq_buffer q)"

definition tq_slots :: "topic_queue \<Rightarrow> nat" where
  "tq_slots q = length (slots (tq_buffer q))"

lemma tq_new_inv:
  assumes "unat c \<le> 2 ^ 63"
  shows "tq_inv (topic_queue_new c st)" and "tq_list (topic_queue_new c st) = []"
    and "unat c \<le> tq_slots (topic_queue_new c st)"
  using ring_inv_new [OF assms, of queue_item_default]
  by (simp_all add: tq_inv_def tq_list_def tq_slots_def topic_queue_new_def)

text \<open>A queue that drops the newest item satisfies the contract of a bounded queue.\<close>

interpretation dn: bounded_fifo "\<lambda>q. tq_inv q \<and> tq_strategy q = DROP_NEWEST" tq_list tq_slots tq_put tq_get
proof (unfold_locales, goal_cases)
  case (1 q)
  then show ?case using rb.content_le by (auto simp: tq_inv_def tq_list_def tq_slots_def)
next
  case (2 q x)
  then show ?case using rb.offer_room [of "tq_buffer q" x]
    by (auto simp: tq_inv_def tq_list_def tq_slots_def tq_put_def)
next
  case (3 q x)
  then show ?case using rb.offer_full [of "tq_buffer q" x]
    by (auto simp: tq_inv_def tq_list_def tq_slots_def tq_put_def)
next
  case (4 q x xs)
  then show ?case using rb.take_some [of "tq_buffer q" x xs]
    by (auto simp: tq_inv_def tq_list_def tq_slots_def tq_get_def)
next
  case (5 q)
  then show ?case using rb.take_none [of "tq_buffer q"]
    by (auto simp: tq_inv_def tq_list_def tq_get_def)
qed

lemma dn_counters_put:
  "tq_strategy q = DROP_NEWEST \<Longrightarrow> tq_put x q = Some (ok, q') \<Longrightarrow>
     tq_processed q' = tq_processed q \<and> tq_dropped q' = tq_dropped q + (if ok then 0 else 1)"
  by (auto simp: tq_put_def split: bind_splits if_splits)

lemma tq_get_counters:
  "tq_get q = (r, q') \<Longrightarrow> tq_dropped q' = tq_dropped q \<and>
     tq_processed q' = tq_processed q + (case r of None \<Rightarrow> 0 | Some _ \<Rightarrow> 1)"
  by (auto simp: tq_get_def Let_def split: option.splits)

text \<open>The counters over a run: what was taken, and what was offered but not accepted.\<close>

lemma dn_run_counters:
  assumes "tq_inv q" and "tq_strategy q = DROP_NEWEST" and "qrun tq_put tq_get ops q = Some (acc, out, q')"
  shows "tq_processed q' = tq_processed q + word_of_nat (length out) \<and>
    tq_dropped q' + word_of_nat (length acc) = tq_dropped q + word_of_nat (length (offered ops))"
  using assms
proof (induction ops arbitrary: q acc out rule: offered.induct)
  case (2 x ops)
  from "2.prems"(3) obtain ok q1 acc1 where
    put: "tq_put x q = Some (ok, q1)" "qrun tq_put tq_get ops q1 = Some (acc1, out, q')"
    "acc = (if ok then x # acc1 else acc1)"
    by (auto split: bind_splits)
  then have "tq_inv q1 \<and> tq_strategy q1 = DROP_NEWEST"
    using dn.offer_cases [of q x] "2.prems"(1,2) by (metis option.inject prod.inject)
  from "2.IH" [OF conjunct1 [OF this] conjunct2 [OF this] put(2)] put(3)
    dn_counters_put [OF "2.prems"(2) put(1)]
  show ?case by (auto simp: algebra_simps)
next
  case (3 ops)
  from "3.prems"(3) obtain out1 where
    run: "qrun tq_put tq_get ops (snd (tq_get q)) = Some (acc, out1, q')"
    "out = (case fst (tq_get q) of None \<Rightarrow> out1 | Some x \<Rightarrow> x # out1)"
    by (auto split: bind_splits)
  have "tq_inv (snd (tq_get q)) \<and> tq_strategy (snd (tq_get q)) = DROP_NEWEST"
    using dn.take_cases [of q] "3.prems"(1,2) by (metis snd_conv)
  from "3.IH" [OF conjunct1 [OF this] conjunct2 [OF this] run(1)] run(2)
    tq_get_counters [of q "fst (tq_get q)" "snd (tq_get q)"]
  show ?case by (auto split: option.splits simp: algebra_simps)
qed auto

section \<open>Properties\<close>

text \<open>A frame gives back exactly the bytes it was built from, inline or on the heap; copies
  and moves carry them over, a moved-from frame is empty, and equality of frames is equality of
  their bytes.\<close>

lemma frame_keeps_bytes:
  "to_vector (frame_new bs) = bs \<and> to_vector (frame_copy (frame_new bs)) = bs \<and>
   to_vector (frame_assign (frame_new cs) (frame_new bs)) = bs \<and>
   (\<exists>g h. frame_move_assign (frame_new cs) (frame_new bs) = (g, h) \<and>
      to_vector g = bs \<and> frame_empty h) \<and>
   (frame_eq (frame_new bs) (frame_new cs) \<longleftrightarrow> bs = cs)"
proof -
  obtain g h where mv: "frame_move_assign (frame_new cs) (frame_new bs) = (g, h)"
    by force
  have "frame_empty h"
    using mv by (auto simp: frame_move_assign_def frame_empty_def frame_size_def Let_def split: if_splits)
  then show ?thesis
    using mv frame_move_wf [OF _ _ mv] frame_assign_wf [of frame_default "frame_new bs"]
      frame_assign_wf [of "frame_new cs" "frame_new bs"] frame_eq_vector [of "frame_new bs" "frame_new cs"]
    by (simp add: frame_copy_def)
qed

text \<open>What \<^verbatim>\<open>TopicQueue::put\<close> does under each strategy.  Dropping the oldest always
  accepts and, when full, loses the front item without counting it as dropped; dropping the
  newest accepts exactly when there is room and counts every rejection; blocking returns, run
  alone, exactly when there is room.\<close>

lemma tq_put_by_strategy:
  assumes "tq_inv q"
  shows "case tq_strategy q of
    DROP_OLDEST \<Rightarrow> \<exists>q'. tq_put x q = Some (True, q') \<and> tq_inv q' \<and> tq_dropped q' = tq_dropped q \<and>
      tq_list q' = (if length (tq_list q) < tq_slots q then tq_list q else tl (tq_list q)) @ [x]
  | DROP_NEWEST \<Rightarrow> \<exists>q'. tq_put x q = Some (length (tq_list q) < tq_slots q, q') \<and> tq_inv q' \<and>
      (if length (tq_list q) < tq_slots q
       then tq_list q' = tq_list q @ [x] \<and> tq_dropped q' = tq_dropped q
       else tq_list q' = tq_list q \<and> tq_dropped q' = tq_dropped q + 1)
  | BLOCK_PRODUCER \<Rightarrow>
      if length (tq_list q) < tq_slots q
      then \<exists>q'. tq_put x q = Some (True, q') \<and> tq_inv q' \<and> tq_list q' = tq_list q @ [x]
      else tq_put x q = None"
proof (cases "tq_strategy q")
  case DROP_OLDEST
  with push_overwrite_spec [of "tq_buffer q" x] assms show ?thesis
    by (auto simp: tq_put_def tq_inv_def tq_list_def tq_slots_def)
next
  case DROP_NEWEST
  with assms have "tq_inv q \<and> tq_strategy q = DROP_NEWEST" by simp
  from this show ?thesis
  proof (cases rule: dn.offer_cases [where x = x])
    case (room q')
    with DROP_NEWEST dn_counters_put [OF DROP_NEWEST room(2)] show ?thesis by simp
  next
    case (full q')
    with DROP_NEWEST dn_counters_put [OF DROP_NEWEST full(2)] show ?thesis by simp
  qed
next
  case BLOCK_PRODUCER
  note le = rb.content_le [of "tq_buffer q"]
  show ?thesis
  proof (cases "length (tq_list q) < tq_slots q")
    case True
    with BLOCK_PRODUCER assms ring_offer_room [of "tq_buffer q" x]
      push_blocking_room [of "tq_buffer q" x] show ?thesis
      by (simp add: tq_put_def tq_inv_def tq_list_def tq_slots_def)
  next
    case False
    with le assms have "length (ring_list (tq_buffer q)) = length (slots (tq_buffer q))"
      by (simp add: tq_inv_def tq_list_def tq_slots_def)
    with BLOCK_PRODUCER False assms ring_offer_full [of "tq_buffer q" x]
      push_blocking_full [of x "tq_buffer q"] show ?thesis
      by (simp add: tq_put_def tq_inv_def)
  qed
qed

lemma tq_put_by_strategy_witness:
  "\<exists>q'. tq_put \<lparr>enqueue_time = 1, frames = []\<rparr> (topic_queue_new 2 DROP_OLDEST) = Some (True, q') \<and>
     tq_list q' = [\<lparr>enqueue_time = 1, frames = []\<rparr>]"
  using tq_put_by_strategy [of "topic_queue_new 2 DROP_OLDEST" "\<lparr>enqueue_time = 1, frames = []\<rparr>"]
    tq_new_inv [of 2 DROP_OLDEST]
  by (auto simp: topic_queue_new_def)

text \<open>Over every sequence of puts and gets on a new queue that drops the newest item, the
  processed counter is the number of items taken, the dropped counter the number of items
  rejected, the items come out in order, and the capacity is never exceeded.\<close>

lemma drop_newest_accounting:
  assumes "unat c \<le> 2 ^ 63"
  shows "\<exists>acc out q'. qrun tq_put tq_get ops (topic_queue_new c DROP_NEWEST) = Some (acc, out, q') \<and>
    acc = out @ tq_list q' \<and> subseq acc (offered ops) \<and>
    tq_processed q' = word_of_nat (length out) \<and>
    tq_dropped q' = word_of_nat (length (offered ops) - length acc) \<and>
    length (tq_list q') \<le> tq_slots (topic_queue_new c DROP_NEWEST)"
proof -
  let ?q = "topic_queue_new c DROP_NEWEST"
  have st: "tq_strategy ?q = DROP_NEWEST" by (simp add: topic_queue_new_def)
  note new = tq_new_inv [OF assms, of DROP_NEWEST]
  obtain acc out q' where run: "qrun tq_put tq_get ops ?q = Some (acc, out, q')"
    "tq_inv q' \<and> tq_strategy q' = DROP_NEWEST" "tq_slots q' = tq_slots ?q"
    "tq_list ?q @ acc = out @ tq_list q'" "subseq acc (offered ops)"
    using dn.conservation [of ?q ops] new(1) st by auto
  have "length acc \<le> length (offered ops)"
    using run(5) by (rule list_emb_length)
  with dn_run_counters [OF new(1) st run(1)] run new(2) dn.content_le [OF run(2)]
  show ?thesis
    by (auto simp: topic_queue_new_def algebra_simps of_nat_diff)
qed

lemma drop_newest_accounting_witness:
  "\<exists>acc out q'. qrun tq_put tq_get
      [Offer \<lparr>enqueue_time = 1, frames = []\<rparr>, Take, Offer \<lparr>enqueue_time = 2, frames = []\<rparr>]
      (topic_queue_new 2 DROP_NEWEST) = Some (acc, out, q') \<and> acc = out @ tq_list q'"
  using drop_newest_accounting [of 2
      "[Offer \<lparr>enqueue_time = 1, frames = []\<rparr>, Take, Offer \<lparr>enqueue_time = 2, frames = []\<rparr>]"]
  by auto

end
