(* ===== verification/String_Intern.thy ===== *)
theory String_Intern
  imports Keyed_Store
begin

text \<open>
  String interning: \<^verbatim>\<open>src/tyche/cpp/string_intern.h\<close>.  The second lookup under the exclusive
  lock is the same lookup when no other thread intervenes.  Identifiers are 32-bit and the
  counter wraps, so the laws hold as long as the counter has not run out.
\<close>

type_synonym intern_id = u32

definition INVALID_INTERN_ID :: intern_id where
  "INVALID_INTERN_ID = 0"

record string_intern =
  string_to_id :: "(string \<times> intern_id) list"
  id_to_string :: "string list"
  next_id :: intern_id

definition string_intern_new :: string_intern where
  "string_intern_new = \<lparr>string_to_id = [], id_to_string = [], next_id = 1\<rparr>"

definition resize_strings :: "nat \<Rightarrow> string list \<Rightarrow> string list" where
  "resize_strings n xs = take n xs @ replicate (n - length xs) []"

definition intern :: "string \<Rightarrow> string_intern \<Rightarrow> intern_id \<times> string_intern" where
  "intern sv s =
     (case map_of (string_to_id s) sv of
        Some i \<Rightarrow> (i, s)
      | None \<Rightarrow>
          let i = next_id s;
              strs = (if unat i \<ge> length (id_to_string s)
                      then resize_strings (unat (i + 1)) (id_to_string s) else id_to_string s)
          in (i, \<lparr>string_to_id = assoc_put sv i (string_to_id s),
                  id_to_string = strs[unat i := sv], next_id = i + 1\<rparr>))"

definition lookup_id :: "string \<Rightarrow> string_intern \<Rightarrow> intern_id" where
  "lookup_id sv s = (case map_of (string_to_id s) sv of Some i \<Rightarrow> i | None \<Rightarrow> INVALID_INTERN_ID)"

definition resolve_id :: "intern_id \<Rightarrow> string_intern \<Rightarrow> string" where
  "resolve_id i s = (if unat i < length (id_to_string s) then id_to_string s ! unat i else [])"

definition intern_size :: "string_intern \<Rightarrow> nat" where
  "intern_size s = length (string_to_id s)"

section \<open>Invariant\<close>

definition intern_wf :: "string_intern \<Rightarrow> bool" where
  "intern_wf s \<longleftrightarrow> 0 < unat (next_id s) \<and> length (id_to_string s) \<le> unat (next_id s) \<and>
     (\<forall>k i. map_of (string_to_id s) k = Some i \<longrightarrow>
        0 < unat i \<and> unat i < length (id_to_string s) \<and> id_to_string s ! unat i = k)"

definition intern_room :: "string_intern \<Rightarrow> nat \<Rightarrow> bool" where
  "intern_room s n \<longleftrightarrow> unat (next_id s) + n < 2 ^ 32"

lemma unat_succ_u32: "unat (i :: u32) + 1 < 2 ^ 32 \<Longrightarrow> unat (i + 1) = unat i + 1"
  by (simp add: unat_word_ariths)

lemma intern_new_wf [simp]: "intern_wf string_intern_new"
  by (simp add: intern_wf_def string_intern_new_def)

lemma intern_miss:
  assumes wf: "intern_wf s" and room: "intern_room s (Suc n)" and miss: "map_of (string_to_id s) k = None"
  shows "\<exists>s'. intern k s = (next_id s, s') \<and> intern_wf s' \<and> intern_room s' n \<and>
    map_of (string_to_id s') = (map_of (string_to_id s))(k \<mapsto> next_id s)"
proof -
  let ?i = "next_id s"
  have i: "unat (?i + 1) = unat ?i + 1"
    using room by (intro unat_succ_u32) (simp add: intern_room_def)
  define strs where "strs = (if unat ?i \<ge> length (id_to_string s)
    then resize_strings (unat (?i + 1)) (id_to_string s) else id_to_string s)"
  define s' where "s' = \<lparr>string_to_id = assoc_put k ?i (string_to_id s),
    id_to_string = strs[unat ?i := k], next_id = ?i + 1\<rparr>"
  have len: "length (id_to_string s) \<le> unat ?i" and pos: "0 < unat ?i"
    using wf by (auto simp: intern_wf_def)
  have strs: "length strs = unat ?i + 1"
    using len i by (simp add: strs_def resize_strings_def)
  have same: "strs[unat ?i := k] ! j = id_to_string s ! j" if "j < length (id_to_string s)" for j
    using that len i by (simp add: strs_def resize_strings_def nth_append)
  have "intern_wf s'"
    unfolding intern_wf_def
  proof (intro conjI allI impI)
    fix x j assume "map_of (string_to_id s') x = Some j"
    then consider "x = k" "j = ?i" | "x \<noteq> k" "map_of (string_to_id s) x = Some j"
      by (auto simp: s'_def split: if_splits)
    then have "0 < unat j \<and> unat j < length (id_to_string s') \<and> id_to_string s' ! unat j = x"
    proof cases
      case 1
      then show ?thesis using strs pos by (simp add: s'_def)
    next
      case 2
      then have "0 < unat j" "unat j < length (id_to_string s)" "id_to_string s ! unat j = x"
        using wf by (auto simp: intern_wf_def)
      then show ?thesis using same len strs by (simp add: s'_def)
    qed
    then show "0 < unat j" "unat j < length (id_to_string s')" "id_to_string s' ! unat j = x"
      by simp_all
  qed (use i strs in \<open>simp_all add: s'_def\<close>)
  moreover have "intern_room s' n"
    using room i by (simp add: intern_room_def s'_def)
  ultimately show ?thesis
    using miss by (auto simp: intern_def Let_def s'_def strs_def)
qed

interpretation si: keyed_store intern_wf intern_room "\<lambda>s. map_of (string_to_id s)" next_id intern
proof (unfold_locales, goal_cases)
  case (1 s k v)
  then show ?case by (simp add: intern_def)
next
  case (2 s n k)
  then show ?case by (rule intern_miss)
next
  case (3 s)
  then show ?case by (fastforce simp: intern_wf_def ran_def)
next
  case (4 s n)
  then show ?case by (simp add: intern_room_def)
qed

section \<open>Properties\<close>

text \<open>C34: Interning a list of strings in a fresh table: every string gets an identifier, it is
  never the invalid one, resolving it gives the string back, looking the string up gives the
  identifier, and different strings have different identifiers.\<close>

theorem intern_bijective:
  assumes "length ks < 2 ^ 32 - 1" and "k \<in> set ks"
    and "s = fold (\<lambda>k s. snd (intern k s)) ks string_intern_new"
  shows "lookup_id k s \<noteq> INVALID_INTERN_ID \<and> resolve_id (lookup_id k s) s = k \<and>
    intern k s = (lookup_id k s, s) \<and>
    (\<forall>k' \<in> set ks. lookup_id k' s = lookup_id k s \<longrightarrow> k' = k)"
proof -
  have "intern_room string_intern_new (length ks)"
    using assms(1) by (simp add: intern_room_def string_intern_new_def)
  from si.ensure_all [OF intern_new_wf this]
  have s: "intern_wf s" "dom (map_of (string_to_id s)) = set ks"
    "inj_on (map_of (string_to_id s)) (set ks)"
    by (simp_all add: assms(3) string_intern_new_def)
  from s(2) assms(2) obtain i where i: "map_of (string_to_id s) k = Some i"
    by blast
  with s(1) have wf: "0 < unat i" "unat i < length (id_to_string s)" "id_to_string s ! unat i = k"
    by (auto simp: intern_wf_def)
  have "k' = k" if "k' \<in> set ks" "lookup_id k' s = lookup_id k s" for k'
  proof -
    from s(2) that(1) obtain j where "map_of (string_to_id s) k' = Some j" by blast
    with that i s(3) assms(2) show ?thesis by (auto simp: lookup_id_def inj_on_def)
  qed
  moreover have "i \<noteq> 0" using wf(1) by auto
  ultimately show ?thesis
    using i wf si.ensure_hit [OF s(1) i]
    by (auto simp: lookup_id_def resolve_id_def INVALID_INTERN_ID_def)
qed

theorem intern_bijective_witness:
  "resolve_id (lookup_id ''tick'' (fold (\<lambda>k s. snd (intern k s)) [''quote'', ''tick'', ''quote'']
     string_intern_new)) (fold (\<lambda>k s. snd (intern k s)) [''quote'', ''tick'', ''quote'']
     string_intern_new) = ''tick''"
  using intern_bijective [of "[''quote'', ''tick'', ''quote'']" "''tick''", OF _ _ refl] by simp

end
