(* ===== verification/Topic_Map.thy ===== *)
theory Topic_Map
  imports Keyed_Store Topic_Queue String_Intern
begin

text \<open>
  The maps from topics to queues: \<^verbatim>\<open>sharded_topic_map.h\<close>, \<^verbatim>\<open>sharded_topic_map.cpp\<close> and
  \<^verbatim>\<open>topic_queue_index.h\<close> under \<^verbatim>\<open>src/tyche/cpp/engine\<close>.  The queues live on the heap and are
  shared by pointer: \<open>sm_heap\<close> holds every queue ever created and a pointer is an index into
  it.  Each operation holds the spinlock of one bucket from its first to its last access, so
  its body is one step; the lock itself is not part of the state.
\<close>

type_synonym queue_ref = nat

record bucket =
  entries :: "(string \<times> queue_ref) list"
  last_access_times :: "(string \<times> time) list"

record sharded_map =
  bucket_count :: u64
  bucket_mask :: u64
  buckets :: "bucket list"
  sm_heap :: "topic_queue list"

definition fnv1a_64 :: "string \<Rightarrow> u64" where
  "fnv1a_64 s = fold (\<lambda>c h. (h XOR word_of_nat (of_char c)) * 0x100000001b3) s 0xcbf29ce484222325"

partial_function (option) round_up_pow2 :: "u64 \<Rightarrow> u64 \<Rightarrow> u64 option" where
  "round_up_pow2 n pow2 = (if pow2 < n then round_up_pow2 n (push_bit 1 pow2) else Some pow2)"

definition sharded_map_new :: "u64 \<Rightarrow> sharded_map option" where
  "sharded_map_new n =
     do { (count, msk) \<leftarrow> (if n AND (n - 1) \<noteq> 0
            then do { p \<leftarrow> round_up_pow2 n 1; Some (p, p - 1) } else Some (n, n - 1));
          Some \<lparr>bucket_count = count, bucket_mask = msk,
                buckets = replicate (unat count) \<lparr>entries = [], last_access_times = []\<rparr>,
                sm_heap = []\<rparr> }"

definition bucket_index :: "sharded_map \<Rightarrow> string \<Rightarrow> nat" where
  "bucket_index m topic = unat (fnv1a_64 topic AND bucket_mask m)"

abbreviation bucket_of :: "sharded_map \<Rightarrow> string \<Rightarrow> bucket" where
  "bucket_of m topic \<equiv> buckets m ! bucket_index m topic"

text \<open>
  \<open>out\<close> is the value behind the optional output pointer \<^verbatim>\<open>out_last_access\<close>.
\<close>

definition get_or_create ::
    "string \<Rightarrow> u64 \<Rightarrow> time option \<Rightarrow> sharded_map \<Rightarrow> queue_ref \<times> time option \<times> sharded_map" where
  "get_or_create topic queue_capacity out m =
     (let b = bucket_of m topic in
      case map_of (entries b) topic of
        Some q \<Rightarrow>
          (q, (case out of None \<Rightarrow> None
               | Some old \<Rightarrow> (case map_of (last_access_times b) topic of
                   Some la \<Rightarrow> Some la | None \<Rightarrow> Some old)), m)
      | None \<Rightarrow>
          let q = length (sm_heap m);
              b' = b\<lparr>entries := entries b @ [(topic, q)],
                     last_access_times := last_access_times b @ [(topic, 0)]\<rparr>
          in (q, map_option (\<lambda>_. 0) out,
              m\<lparr>buckets := (buckets m)[bucket_index m topic := b'],
                sm_heap := sm_heap m @ [topic_queue_new queue_capacity DROP_OLDEST]\<rparr>))"

definition find_queue :: "string \<Rightarrow> sharded_map \<Rightarrow> queue_ref option" where
  "find_queue topic m = map_of (entries (bucket_of m topic)) topic"

definition get_raw :: "string \<Rightarrow> sharded_map \<Rightarrow> queue_ref option" where
  "get_raw topic m = map_of (entries (bucket_of m topic)) topic"

definition erase_topic :: "string \<Rightarrow> sharded_map \<Rightarrow> sharded_map" where
  "erase_topic topic m =
     (let b = bucket_of m topic;
          b' = b\<lparr>entries := filter (\<lambda>p. fst p \<noteq> topic) (entries b),
                 last_access_times := filter (\<lambda>p. fst p \<noteq> topic) (last_access_times b)\<rparr>
      in m\<lparr>buckets := (buckets m)[bucket_index m topic := b']\<rparr>)"

definition snapshot :: "sharded_map \<Rightarrow> (string \<times> queue_ref) list" where
  "snapshot m = concat (map entries (buckets m))"

definition touch :: "string \<Rightarrow> time \<Rightarrow> sharded_map \<Rightarrow> sharded_map" where
  "touch topic tnow m =
     (let b = bucket_of m topic
      in m\<lparr>buckets := (buckets m)[bucket_index m topic :=
             b\<lparr>last_access_times := assoc_put topic tnow (last_access_times b)\<rparr>]\<rparr>)"

definition last_access :: "string \<Rightarrow> sharded_map \<Rightarrow> time" where
  "last_access topic m =
     (case map_of (last_access_times (bucket_of m topic)) topic of Some la \<Rightarrow> la | None \<Rightarrow> 0)"

definition map_size :: "sharded_map \<Rightarrow> nat" where
  "map_size m = sum_list (map (\<lambda>b. length (entries b)) (buckets m))"

section \<open>The queue index\<close>

text \<open>\<open>None\<close> for the whole index is the null vector, \<open>None\<close> inside it the null queue pointer.\<close>

type_synonym queue_index = "queue_ref option list option"

definition index_get :: "intern_id \<Rightarrow> queue_index \<Rightarrow> queue_ref option" where
  "index_get i qs =
     (case qs of None \<Rightarrow> None
      | Some v \<Rightarrow> if unat i \<ge> length v then None else v ! unat i)"

definition index_set :: "intern_id \<Rightarrow> queue_ref option \<Rightarrow> queue_index \<Rightarrow> queue_index" where
  "index_set i q qs =
     (let needed_size = unat i + 1;
          v = (case qs of
                 Some old \<Rightarrow>
                   if length old \<ge> needed_size then old
                   else let new_size = max (length old * 2) needed_size
                        in old @ replicate (new_size - length old) None
               | None \<Rightarrow> replicate (max 64 needed_size) None)
      in Some (v[unat i := q]))"

definition index_snapshot :: "queue_index \<Rightarrow> (intern_id \<times> queue_ref) list" where
  "index_snapshot qs =
     (case qs of None \<Rightarrow> []
      | Some v \<Rightarrow> concat (map (\<lambda>i. case v ! i of None \<Rightarrow> [] | Some q \<Rightarrow> [(word_of_nat i, q)]) [0..<length v]))"

section \<open>Invariant\<close>

definition sm_wf :: "sharded_map \<Rightarrow> bool" where
  "sm_wf m \<longleftrightarrow>
     (\<exists>k < 64. bucket_mask m = mask k \<and> length (buckets m) = 2 ^ k) \<and>
     (\<forall>i < length (buckets m). distinct (map fst (entries (buckets m ! i))) \<and>
        (\<forall>(t, q) \<in> set (entries (buckets m ! i)). bucket_index m t = i \<and> q < length (sm_heap m)))"

lemma sm_wfD:
  assumes "sm_wf m"
  shows "bucket_index m t < length (buckets m)"
    and "i < length (buckets m) \<Longrightarrow> distinct (map fst (entries (buckets m ! i)))"
    and "i < length (buckets m) \<Longrightarrow> (t, q) \<in> set (entries (buckets m ! i)) \<Longrightarrow>
      bucket_index m t = i \<and> q < length (sm_heap m)"
proof -
  obtain k where k: "k < 64" "bucket_mask m = mask k" "length (buckets m) = 2 ^ k"
    using assms by (auto simp: sm_wf_def)
  have "unat (fnv1a_64 t AND mask k) = unat (fnv1a_64 t) mod 2 ^ k"
    by (rule unat_and_mask_mod)
  with k show "bucket_index m t < length (buckets m)"
    by (simp add: bucket_index_def)
  show "i < length (buckets m) \<Longrightarrow> distinct (map fst (entries (buckets m ! i)))"
    using assms by (simp add: sm_wf_def)
  show "i < length (buckets m) \<Longrightarrow> (t, q) \<in> set (entries (buckets m ! i)) \<Longrightarrow>
      bucket_index m t = i \<and> q < length (sm_heap m)"
    using assms by (auto simp: sm_wf_def)
qed

lemma bucket_index_upd [simp]:
  "bucket_index (m\<lparr>buckets := bs\<rparr>) t = bucket_index m t"
  "bucket_index (m\<lparr>sm_heap := hs\<rparr>) t = bucket_index m t"
  by (simp_all add: bucket_index_def)

text \<open>Updating one bucket keeps the invariant when the new bucket is fine in its place.\<close>

lemma sm_wf_update:
  assumes "sm_wf m" and "length (sm_heap m) \<le> length hs"
    and "distinct (map fst (entries b))"
    and "\<And>t q. (t, q) \<in> set (entries b) \<Longrightarrow> bucket_index m t = i \<and> q < length hs"
  shows "sm_wf (m\<lparr>buckets := (buckets m)[i := b], sm_heap := hs\<rparr>)"
proof -
  obtain k where "k < 64" "bucket_mask m = mask k" "length (buckets m) = 2 ^ k"
    using assms(1) by (auto simp: sm_wf_def)
  moreover have "distinct (map fst (entries ((buckets m)[i := b] ! j))) \<and>
      (\<forall>(t, q) \<in> set (entries ((buckets m)[i := b] ! j)). bucket_index m t = j \<and> q < length hs)"
    if "j < length (buckets m)" for j
  proof (cases "j = i")
    case True
    with that assms(3,4) show ?thesis by auto
  next
    case False
    with that assms(1,2) show ?thesis by (fastforce simp: sm_wf_def)
  qed
  ultimately show ?thesis by (auto simp: sm_wf_def)
qed

section \<open>The constructor\<close>

lemma pow2_test:
  fixes n :: nat
  assumes "0 < n" and "n AND (n - 1) = 0"
  shows "\<exists>k. n = 2 ^ k"
  using assms
proof (induction n rule: less_induct)
  case (less n)
  show ?case
  proof (cases "even n")
    case True
    then obtain m where m: "n = 2 * m" by blast
    with less.prems(1) have "0 < m" and odd: "odd (n - 1)" and half: "(n - 1) div 2 = m - 1" by auto
    have "n AND (n - 1) = 2 * (m AND (m - 1))"
      using True m half by (subst and_rec) simp
    with less.prems(2) have "m AND (m - 1) = 0" by simp
    with less.IH [of m] \<open>0 < m\<close> m obtain k where "m = 2 ^ k" by auto
    with m have "n = 2 ^ Suc k" by simp
    then show ?thesis by blast
  next
    case False
    then have "n AND (n - 1) = 2 * ((n div 2) AND (n div 2))"
      by (subst and_rec) (auto elim!: oddE)
    with less.prems(2) False have "n = 1" by (auto elim!: oddE)
    then show ?thesis by (metis power_0)
  qed
qed

lemma round_up_pow2_returns:
  assumes "unat n \<le> 2 ^ 63" and "j \<le> 63"
  shows "\<exists>k. j \<le> k \<and> k \<le> 63 \<and> round_up_pow2 n (2 ^ j) = Some (2 ^ k) \<and> unat n \<le> 2 ^ k \<and>
    (2 ^ k < 2 * unat n \<or> k = j)"
  using assms(2)
proof (induction "63 - j" arbitrary: j)
  case 0
  then have "j = 63" by simp
  moreover have "\<not> (2 ^ 63 :: u64) < n"
    using assms(1) by (simp add: word_less_nat_alt)
  ultimately show ?case
    using assms(1) by (subst round_up_pow2.simps) auto
next
  case (Suc d)
  have p: "unat (2 ^ j :: u64) = 2 ^ j"
    using Suc.prems pow2_63_less [of j] unat_word_of_nat_small [where 'a = 64, of "2 ^ j"] by simp
  show ?case
  proof (cases "(2 ^ j :: u64) < n")
    case True
    then have less: "2 ^ j < unat n" by (simp add: word_less_nat_alt p)
    have "push_bit 1 (2 ^ j :: u64) = 2 ^ Suc j" by (simp add: push_bit_eq_mult)
    moreover have "d = 63 - Suc j" "Suc j \<le> 63" using Suc.hyps(2) by simp_all
    from Suc.hyps(1) [OF this] obtain k where "Suc j \<le> k" "k \<le> 63" "round_up_pow2 n (2 ^ Suc j) = Some (2 ^ k)"
      "unat n \<le> 2 ^ k" "2 ^ k < 2 * unat n \<or> k = Suc j"
      by blast
    ultimately show ?thesis
      using True less by (subst round_up_pow2.simps) (auto simp: mult.commute intro!: exI [of _ k])
  next
    case False
    then have "unat n \<le> 2 ^ j" by (simp add: word_less_nat_alt p not_less)
    with False Suc.prems show ?thesis by (subst round_up_pow2.simps) auto
  qed
qed

lemma sharded_map_new_shape:
  assumes "1 \<le> unat n" and "unat n \<le> 2 ^ 63"
  obtains k where "k \<le> 63" "unat n \<le> 2 ^ k" "2 ^ k < 2 * unat n"
    "sharded_map_new n = Some \<lparr>bucket_count = 2 ^ k, bucket_mask = mask k,
       buckets = replicate (2 ^ k) \<lparr>entries = [], last_access_times = []\<rparr>, sm_heap = []\<rparr>"
proof -
  have u: "unat (2 ^ k :: u64) = 2 ^ k" if "k \<le> 63" for k
    using that pow2_63_less [of k] unat_word_of_nat_small [where 'a = 64, of "2 ^ k"] by simp
  show thesis
  proof (cases "n AND (n - 1) = 0")
    case True
    have "unat n AND (unat n - 1) = 0"
      using True assms(1) by (metis unat_0 unsigned_and_eq unat_sub word_le_nat_alt unat_1)
    with assms(1) obtain k where k: "unat n = 2 ^ k"
      using pow2_test [of "unat n"] by auto
    then have "k \<le> 63"
      using assms(2) power_increasing_iff [of "2 :: nat" k 63] by simp
    moreover have "n = 2 ^ k"
      using k u [OF calculation] by (metis word_unat_eq_iff)
    ultimately show thesis
      using that [of k] k True u by (simp add: sharded_map_new_def mask_eq_exp_minus_1)
  next
    case False
    from round_up_pow2_returns [OF assms(2), of 0] obtain k where
      k: "k \<le> 63" "round_up_pow2 n 1 = Some (2 ^ k)" "unat n \<le> 2 ^ k" "2 ^ k < 2 * unat n \<or> k = 0"
      by auto
    moreover have "2 ^ k < 2 * unat n" using k assms(1) by auto
    ultimately show thesis
      using that [of k] False u by (simp add: sharded_map_new_def mask_eq_exp_minus_1)
  qed
qed

lemma sharded_map_new_wf:
  assumes "1 \<le> unat n" and "unat n \<le> 2 ^ 63"
  obtains m where "sharded_map_new n = Some m" "sm_wf m" "\<And>t. find_queue t m = None" "sm_heap m = []"
    "unat n \<le> length (buckets m)" "length (buckets m) < 2 * unat n"
proof -
  obtain k where k: "k \<le> 63" "unat n \<le> 2 ^ k" "2 ^ k < 2 * unat n"
    "sharded_map_new n = Some \<lparr>bucket_count = 2 ^ k, bucket_mask = mask k,
       buckets = replicate (2 ^ k) \<lparr>entries = [], last_access_times = []\<rparr>, sm_heap = []\<rparr>"
      (is "_ = Some ?m")
    using assms by (rule sharded_map_new_shape)
  have wf: "sm_wf ?m"
    using k(1) by (auto simp: sm_wf_def intro!: exI [of _ k])
  moreover have "find_queue t ?m = None" for t
    using sm_wfD(1) [OF wf, of t] by (simp add: find_queue_def)
  ultimately show thesis
    using that [of ?m] k by simp
qed

section \<open>The map refines a partial function\<close>

lemma find_queue_heap: "sm_wf m \<Longrightarrow> find_queue t m = Some q \<Longrightarrow> q < length (sm_heap m)"
  using sm_wfD(1,3) by (fastforce simp: find_queue_def dest: map_of_SomeD)

lemma get_or_create_hit:
  "find_queue t m = Some q \<Longrightarrow> \<exists>out'. get_or_create t cap out m = (q, out', m)"
  by (auto simp: get_or_create_def find_queue_def)

lemma get_or_create_miss:
  assumes wf: "sm_wf m" and miss: "find_queue t m = None"
  shows "\<exists>m' out'. get_or_create t cap out m = (length (sm_heap m), out', m') \<and> sm_wf m' \<and>
    (\<forall>x. find_queue x m' = (if x = t then Some (length (sm_heap m)) else find_queue x m)) \<and>
    sm_heap m' = sm_heap m @ [topic_queue_new cap DROP_OLDEST]"
proof -
  let ?b = "bucket_of m t" and ?i = "bucket_index m t" and ?q = "length (sm_heap m)"
  let ?b' = "?b\<lparr>entries := entries ?b @ [(t, ?q)],
    last_access_times := last_access_times ?b @ [(t, 0)]\<rparr>"
  let ?m = "m\<lparr>buckets := (buckets m)[?i := ?b'],
    sm_heap := sm_heap m @ [topic_queue_new cap DROP_OLDEST]\<rparr>"
  have i: "?i < length (buckets m)" by (rule sm_wfD(1) [OF wf])
  have new: "t \<notin> fst ` set (entries ?b)"
    using miss by (simp add: find_queue_def map_of_eq_None_iff)
  have "sm_wf ?m"
  proof (rule sm_wf_update [OF wf])
    show "distinct (map fst (entries ?b'))" using sm_wfD(2) [OF wf i] new by simp
    show "bucket_index m x = ?i \<and> q < length (sm_heap m @ [topic_queue_new cap DROP_OLDEST])"
      if "(x, q) \<in> set (entries ?b')" for x q
      using that sm_wfD(3) [OF wf i] by fastforce
  qed simp
  moreover have "find_queue x ?m = (if x = t then Some ?q else find_queue x m)" for x
    using miss sm_wfD(1) [OF wf]
    by (auto simp: find_queue_def nth_list_update map_add_def split: option.splits)
  moreover have "get_or_create t cap out m = (?q, map_option (\<lambda>_. 0) out, ?m)"
    using miss by (simp add: get_or_create_def find_queue_def Let_def)
  ultimately show ?thesis by auto
qed

lemma map_of_filter_key: "map_of (filter (\<lambda>p. fst p \<noteq> t) ps) = (map_of ps)(t := None)"
  by (induction ps) auto

lemma erase_topic_spec:
  assumes wf: "sm_wf m"
  shows "sm_wf (erase_topic t m)"
    and "find_queue x (erase_topic t m) = (if x = t then None else find_queue x m)"
    and "sm_heap (erase_topic t m) = sm_heap m"
    and "last_access t (erase_topic t m) = 0"
proof -
  let ?b = "bucket_of m t" and ?i = "bucket_index m t"
  let ?b' = "?b\<lparr>entries := filter (\<lambda>p. fst p \<noteq> t) (entries ?b),
    last_access_times := filter (\<lambda>p. fst p \<noteq> t) (last_access_times ?b)\<rparr>"
  have i: "?i < length (buckets m)" by (rule sm_wfD(1) [OF wf])
  have e: "erase_topic t m = m\<lparr>buckets := (buckets m)[?i := ?b'], sm_heap := sm_heap m\<rparr>"
    by (simp add: erase_topic_def Let_def)
  show "sm_wf (erase_topic t m)"
    unfolding e
  proof (rule sm_wf_update [OF wf])
    show "distinct (map fst (entries ?b'))" using sm_wfD(2) [OF wf i] by (simp add: distinct_map_filter)
    show "bucket_index m x = ?i \<and> q < length (sm_heap m)" if "(x, q) \<in> set (entries ?b')" for x q
      using that sm_wfD(3) [OF wf i] by auto
  qed simp
  show "find_queue x (erase_topic t m) = (if x = t then None else find_queue x m)"
    using sm_wfD(1) [OF wf] by (auto simp: e find_queue_def nth_list_update map_of_filter_key)
  show "sm_heap (erase_topic t m) = sm_heap m" by (simp add: e)
  show "last_access t (erase_topic t m) = 0"
    using i by (simp add: last_access_def e map_of_filter_key)
qed

lemma touch_spec:
  assumes wf: "sm_wf m"
  shows "sm_wf (touch t now m)" and "find_queue x (touch t now m) = find_queue x m"
    and "sm_heap (touch t now m) = sm_heap m"
    and "last_access x (touch t now m) = (if x = t then now else last_access x m)"
proof -
  let ?b = "bucket_of m t" and ?i = "bucket_index m t"
  let ?b' = "?b\<lparr>last_access_times := assoc_put t now (last_access_times ?b)\<rparr>"
  have i: "?i < length (buckets m)" by (rule sm_wfD(1) [OF wf])
  have e: "touch t now m = m\<lparr>buckets := (buckets m)[?i := ?b'], sm_heap := sm_heap m\<rparr>"
    by (simp add: touch_def Let_def)
  show "sm_wf (touch t now m)"
    unfolding e
  proof (rule sm_wf_update [OF wf])
    show "distinct (map fst (entries ?b'))" using sm_wfD(2) [OF wf i] by simp
    show "bucket_index m y = ?i \<and> q < length (sm_heap m)" if "(y, q) \<in> set (entries ?b')" for y q
      using that sm_wfD(3) [OF wf i] by auto
  qed simp
  show "find_queue x (touch t now m) = find_queue x m"
    using sm_wfD(1) [OF wf] by (auto simp: e find_queue_def nth_list_update)
  show "sm_heap (touch t now m) = sm_heap m" by (simp add: e)
  show "last_access x (touch t now m) = (if x = t then now else last_access x m)"
    using i sm_wfD(1) [OF wf, of x] by (auto simp: last_access_def e nth_list_update)
qed

text \<open>The topic map is a keyed store with deletion, for every queue capacity.\<close>

interpretation sm: keyed_store_del sm_wf "\<lambda>_ _. True" "\<lambda>m t. find_queue t m" "\<lambda>m. length (sm_heap m)"
  "\<lambda>t m. (fst (get_or_create t cap None m), snd (snd (get_or_create t cap None m)))" erase_topic
  for cap :: u64
proof (unfold_locales, goal_cases)
  case (1 s k v)
  then show ?case using get_or_create_hit [of k s v cap None] by auto
next
  case (2 s n k)
  then show ?case using get_or_create_miss [of s k cap None] by auto
next
  case (3 s)
  then show ?case using find_queue_heap by (fastforce simp: ran_def)
next
  case (5 s k)
  then show ?case by (rule erase_topic_spec)
next
  case (6 s k)
  then show ?case by (auto simp: erase_topic_spec)
next
  case (7 s k)
  then show ?case by (simp add: erase_topic_spec)
qed simp_all

lemma distinct_concat_keys:
  assumes "\<And>i. i < length xss \<Longrightarrow> distinct (map fst (xss ! i)) \<and> (\<forall>p \<in> set (xss ! i). h (fst p) = i + off)"
  shows "distinct (map fst (concat xss)) \<and> (\<forall>p \<in> set (concat xss). off \<le> h (fst p))"
  using assms
proof (induction xss arbitrary: off)
  case (Cons xs xss)
  have "distinct (map fst (concat xss)) \<and> (\<forall>p \<in> set (concat xss). Suc off \<le> h (fst p))"
    using Cons.prems [of "Suc i" for i] by (intro Cons.IH) auto
  moreover have "distinct (map fst xs)" "\<forall>p \<in> set xs. h (fst p) = off"
    using Cons.prems [of 0] by auto
  ultimately show ?case by (fastforce simp: image_iff)
qed simp

lemma snapshot_distinct:
  assumes "sm_wf m"
  shows "distinct (map fst (snapshot m))"
proof -
  have "distinct (map fst (concat (map entries (buckets m)))) \<and>
      (\<forall>p \<in> set (concat (map entries (buckets m))). 0 \<le> bucket_index m (fst p))"
    using sm_wfD(2,3) [OF assms] by (intro distinct_concat_keys) auto
  then show ?thesis by (simp add: snapshot_def)
qed

lemma snapshot_iff:
  assumes wf: "sm_wf m"
  shows "(t, q) \<in> set (snapshot m) \<longleftrightarrow> find_queue t m = Some q"
proof
  assume "(t, q) \<in> set (snapshot m)"
  then obtain i where i: "i < length (buckets m)" "(t, q) \<in> set (entries (buckets m ! i))"
    by (auto simp: snapshot_def) (metis in_set_conv_nth)
  then show "find_queue t m = Some q"
    using sm_wfD(2) [OF wf i(1)] sm_wfD(3) [OF wf i] by (simp add: find_queue_def)
next
  assume "find_queue t m = Some q"
  then show "(t, q) \<in> set (snapshot m)"
    using sm_wfD(1) [OF wf, of t] by (auto simp: find_queue_def snapshot_def dest!: map_of_SomeD intro: nth_mem)
qed

lemma map_size_snapshot: "map_size m = length (snapshot m)"
  by (simp add: map_size_def snapshot_def length_concat comp_def)

section \<open>The index\<close>

lemma index_get_upd:
  "unat i < length v \<Longrightarrow> index_get j (Some (v[unat i := q])) = (if j = i then q else index_get j (Some v))"
  by (auto simp: index_get_def nth_list_update word_unat_eq_iff)

lemma index_get_grow:
  "index_get j (Some (old @ replicate n None)) = index_get j (Some old)"
  "index_get j (Some (replicate n None)) = index_get j None"
  by (auto simp: index_get_def nth_append)

lemma index_get_set:
  "index_get j (index_set i q qs) = (if j = i then q else index_get j qs)"
proof (cases qs)
  case None
  then show ?thesis
    using index_get_upd [of i "replicate (max 64 (unat i + 1)) None" j q]
    by (simp add: index_set_def index_get_grow del: replicate.simps)
next
  case (Some v)
  then show ?thesis by (simp add: index_set_def Let_def index_get_upd index_get_grow)
qed

section \<open>Properties\<close>

text \<open>C13: The sharded topic map behaves as a partial function from topics to queues.  From a
  new map of any admissible bucket count, creating the queues of a list of topics gives every
  topic its own queue and keeps it; \<^verbatim>\<open>get_raw\<close> finds what \<^verbatim>\<open>find\<close> finds; the snapshot lists
  exactly the stored pairs, no topic twice, and \<^verbatim>\<open>size\<close> counts them; erasing a topic removes it
  and nothing else.\<close>

theorem sharded_map_refines_map:
  assumes "1 \<le> unat n" and "unat n \<le> 2 ^ 63"
  shows "\<exists>m0 m. sharded_map_new n = Some m0 \<and>
    m = fold (\<lambda>t m. snd (snd (get_or_create t cap None m))) ts m0 \<and>
    dom (\<lambda>t. find_queue t m) = set ts \<and> inj_on (\<lambda>t. find_queue t m) (set ts) \<and>
    (\<forall>t q. ((t, q) \<in> set (snapshot m) \<longleftrightarrow> find_queue t m = Some q) \<and> get_raw t m = find_queue t m) \<and>
    distinct (map fst (snapshot m)) \<and> map_size m = card (set ts) \<and>
    (\<forall>t x. find_queue x (erase_topic t m) = (if x = t then None else find_queue x m))"
proof -
  obtain m0 where m0: "sharded_map_new n = Some m0" "sm_wf m0" "\<And>t. find_queue t m0 = None"
    using assms by (rule sharded_map_new_wf) blast
  let ?m = "fold (\<lambda>t m. snd (snd (get_or_create t cap None m))) ts m0"
  have m: "sm_wf ?m" "dom (\<lambda>t. find_queue t ?m) = set ts" "inj_on (\<lambda>t. find_queue t ?m) (set ts)"
    using sm.ensure_all [OF m0(2), of cap ts] m0(3) by (simp_all add: dom_def)
  have "fst ` set (snapshot ?m) = set ts"
    using snapshot_iff [OF m(1)] m(2) by (force simp: dom_def)
  then have "map_size ?m = card (set ts)"
    using distinct_card [OF snapshot_distinct [OF m(1)]] by (simp add: map_size_snapshot)
  with m0(1) m snapshot_iff [OF m(1)] snapshot_distinct [OF m(1)] erase_topic_spec(2) [OF m(1)]
  show ?thesis by (auto simp: get_raw_def find_queue_def)
qed

theorem sharded_map_refines_map_witness:
  "\<exists>m0 m. sharded_map_new 3 = Some m0 \<and>
    m = fold (\<lambda>t m. snd (snd (get_or_create t 8 None m))) [''tick'', ''quote'', ''tick''] m0 \<and>
    map_size m = 2"
proof -
  have c: "card (set [''tick'', ''quote'', ''tick'']) = 2" by (simp add: card_insert_if)
  have "1 \<le> unat (3 :: u64)" "unat (3 :: u64) \<le> 2 ^ 63" by simp_all
  from sharded_map_refines_map [OF this, of 8 "[''tick'', ''quote'', ''tick'']"]
  show ?thesis unfolding c by blast
qed

text \<open>Touching a topic sets its last access time and nothing else, also for a topic that has
  no queue; a topic whose queue was erased reads as never accessed.\<close>

lemma last_access_tracks_touch:
  assumes "sm_wf m"
  shows "last_access x (touch t tnow m) = (if x = t then tnow else last_access x m) \<and>
    find_queue x (touch t tnow m) = find_queue x m \<and> last_access t (erase_topic t m) = 0"
  using touch_spec [OF assms] erase_topic_spec [OF assms] by simp

lemma last_access_tracks_touch_witness:
  "\<exists>m. sharded_map_new 2 = Some m \<and> last_access ''tick'' (touch ''tick'' 5 m) = 5"
proof -
  obtain m where "sharded_map_new 2 = Some m" "sm_wf m"
    by (rule sharded_map_new_wf [of 2]) auto
  then show ?thesis using last_access_tracks_touch [of m "''tick''" "''tick''" 5] by simp
qed

text \<open>The queue index: after \<^verbatim>\<open>set\<close>, \<^verbatim>\<open>get\<close> gives the new pointer for that identifier and
  the old one for every other, however the vector had to grow.\<close>

lemma queue_index_get_set:
  "index_get j (index_set i q qs) = (if j = i then q else index_get j qs)"
  by (rule index_get_set)

end
