(* ===== verification/Heartbeat.thy ===== *)
theory Heartbeat
  imports Core_Types
begin

text \<open>
  Module liveness: \<^verbatim>\<open>src/tyche/cpp/engine/heartbeat_manager.h\<close> and \<^verbatim>\<open>heartbeat_manager.cpp\<close>.
  Every operation holds the manager's mutex; the clock reading is an argument.
\<close>

record heartbeat_monitor =
  hb_liveness :: int
  last_seen :: time
  hb_interval :: time

definition monitor_tick :: "heartbeat_monitor \<Rightarrow> heartbeat_monitor" where
  "monitor_tick m = m\<lparr>hb_liveness := hb_liveness m - 1\<rparr>"

definition monitor_update :: "time \<Rightarrow> int \<Rightarrow> heartbeat_monitor \<Rightarrow> heartbeat_monitor" where
  "monitor_update tnow reset_liveness m = m\<lparr>hb_liveness := reset_liveness, last_seen := tnow\<rparr>"

definition is_expired :: "heartbeat_monitor \<Rightarrow> bool" where
  "is_expired m \<longleftrightarrow> hb_liveness m \<le> 0"

record heartbeat_manager =
  hm_interval :: time
  hm_liveness :: int
  monitors :: "(string \<times> heartbeat_monitor) list"

definition heartbeat_manager_new :: "time \<Rightarrow> int \<Rightarrow> heartbeat_manager" where
  "heartbeat_manager_new ivl liv = \<lparr>hm_interval = ivl, hm_liveness = liv, monitors = []\<rparr>"

text \<open>\<^verbatim>\<open>emplace\<close> leaves an existing entry alone.\<close>

definition hb_register :: "time \<Rightarrow> string \<Rightarrow> heartbeat_manager \<Rightarrow> heartbeat_manager" where
  "hb_register tnow mid hm =
     (case map_of (monitors hm) mid of
        Some _ \<Rightarrow> hm
      | None \<Rightarrow> hm\<lparr>monitors := monitors hm @
          [(mid, \<lparr>hb_liveness = hm_liveness hm * 2, last_seen = tnow, hb_interval = hm_interval hm\<rparr>)]\<rparr>)"

definition hb_update :: "time \<Rightarrow> string \<Rightarrow> heartbeat_manager \<Rightarrow> heartbeat_manager" where
  "hb_update tnow mid hm =
     (case map_of (monitors hm) mid of
        Some m \<Rightarrow> hm\<lparr>monitors := assoc_put mid (monitor_update tnow (hm_liveness hm) m) (monitors hm)\<rparr>
      | None \<Rightarrow> hm)"

definition hb_tick_all :: "heartbeat_manager \<Rightarrow> string list \<times> heartbeat_manager" where
  "hb_tick_all hm =
     (let ticked = map (\<lambda>(mid, m). (mid, monitor_tick m)) (monitors hm);
          expired = map fst (filter (\<lambda>(mid, m). is_expired m) ticked)
      in (expired, hm\<lparr>monitors := fold assoc_del expired ticked\<rparr>))"

definition hb_unregister :: "string \<Rightarrow> heartbeat_manager \<Rightarrow> heartbeat_manager" where
  "hb_unregister mid hm = hm\<lparr>monitors := assoc_del mid (monitors hm)\<rparr>"

definition hb_is_registered :: "string \<Rightarrow> heartbeat_manager \<Rightarrow> bool" where
  "hb_is_registered mid hm \<longleftrightarrow> map_of (monitors hm) mid \<noteq> None"

definition hb_size :: "heartbeat_manager \<Rightarrow> nat" where
  "hb_size hm = length (monitors hm)"

definition hb_get_liveness :: "string \<Rightarrow> heartbeat_manager \<Rightarrow> int" where
  "hb_get_liveness mid hm =
     (case map_of (monitors hm) mid of Some m \<Rightarrow> hb_liveness m | None \<Rightarrow> - 1)"

section \<open>Invariant and ticks\<close>

definition hb_wf :: "heartbeat_manager \<Rightarrow> bool" where
  "hb_wf hm \<longleftrightarrow> distinct (map fst (monitors hm))"

definition live :: "heartbeat_manager \<Rightarrow> string \<Rightarrow> int option" where
  "live hm mid = map_option hb_liveness (map_of (monitors hm) mid)"

lemma fold_assoc_del: "fold assoc_del ks ps = filter (\<lambda>p. fst p \<notin> set ks) ps"
  by (induction ks arbitrary: ps) (auto simp: assoc_del_def intro: filter_cong)

lemma map_of_filter_keys: "map_of (filter (\<lambda>p. P (fst p)) ps) k = (if P k then map_of ps k else None)"
  by (induction ps) auto

lemma map_of_map_vals: "map_of (map (\<lambda>(k, v). (k, f v)) ps) k = map_option f (map_of ps k)"
  by (induction ps) auto

lemma hb_ops_wf [simp]:
  "hb_wf (heartbeat_manager_new ivl liv)"
  "hb_wf hm \<Longrightarrow> hb_wf (hb_register tnow mid hm)"
  "hb_wf hm \<Longrightarrow> hb_wf (hb_update tnow mid hm)"
  "hb_wf hm \<Longrightarrow> hb_wf (hb_unregister mid hm)"
  by (auto simp: hb_wf_def heartbeat_manager_new_def hb_register_def hb_update_def hb_unregister_def
      map_of_eq_None_iff split: option.splits)

lemma hb_tick_all_spec:
  assumes "hb_wf hm" and "hb_tick_all hm = (ex, hm')"
  shows "hb_wf hm'" and "distinct ex" and "set ex = {mid. \<exists>l. live hm mid = Some l \<and> l \<le> 1}"
    and "live hm' mid = (case live hm mid of Some l \<Rightarrow> if l \<le> 1 then None else Some (l - 1) | None \<Rightarrow> None)"
    and "hm_liveness hm' = hm_liveness hm"
proof -
  let ?tk = "map (\<lambda>(mid, m). (mid, monitor_tick m)) (monitors hm)"
  have ex: "ex = map fst (filter (\<lambda>(mid, m). is_expired m) ?tk)"
    and hm': "hm' = hm\<lparr>monitors := filter (\<lambda>p. fst p \<notin> set ex) ?tk\<rparr>"
    using assms(2) by (auto simp: hb_tick_all_def Let_def fold_assoc_del)
  have keys: "map fst ?tk = map fst (monitors hm)"
    by (simp add: comp_def case_prod_unfold)
  have dist: "distinct (map fst ?tk)"
    unfolding keys using assms(1) by (simp add: hb_wf_def)
  show "hb_wf hm'" using dist by (simp add: hb_wf_def hm' distinct_map_filter)
  show "distinct ex" using dist by (simp add: ex distinct_map_filter)
  have mem: "(mid, m) \<in> set ?tk \<longleftrightarrow> (\<exists>m0. map_of (monitors hm) mid = Some m0 \<and> m = monitor_tick m0)" for mid m
    using assms(1) by (force simp: hb_wf_def)
  have "set ex = {mid. \<exists>m. (mid, m) \<in> set ?tk \<and> is_expired m}"
    unfolding ex by force
  then show set: "set ex = {mid. \<exists>l. live hm mid = Some l \<and> l \<le> 1}"
    unfolding mem by (auto simp: live_def is_expired_def monitor_tick_def)
  show "live hm' mid = (case live hm mid of Some l \<Rightarrow> if l \<le> 1 then None else Some (l - 1) | None \<Rightarrow> None)"
    using map_of_filter_keys [of "\<lambda>k. k \<notin> set ex" ?tk mid]
    by (auto simp: live_def hm' map_of_map_vals set monitor_tick_def split: option.splits)
  show "hm_liveness hm' = hm_liveness hm" by (simp add: hm')
qed

definition hb_ticks :: "nat \<Rightarrow> heartbeat_manager \<Rightarrow> heartbeat_manager" where
  "hb_ticks n = (snd \<circ> hb_tick_all) ^^ n"

lemma hb_ticks_spec:
  assumes "hb_wf hm"
  shows "hb_wf (hb_ticks n hm) \<and> live (hb_ticks n hm) mid =
    (case live hm mid of Some l \<Rightarrow> if n = 0 \<or> int n < l then Some (l - int n) else None | None \<Rightarrow> None)"
proof (induction n)
  case 0
  then show ?case using assms by (simp add: hb_ticks_def split: option.splits)
next
  case (Suc n)
  have step: "hb_ticks (Suc n) hm = snd (hb_tick_all (hb_ticks n hm))"
    by (simp add: hb_ticks_def)
  show ?case
    using hb_tick_all_spec(1,4) [OF conjunct1 [OF Suc] prod.collapse [symmetric]] Suc
    by (auto simp: step split: option.splits)
qed

lemma expires_exactly:
  assumes "hb_wf hm" and "live hm mid = Some l" and "1 \<le> l"
  shows "hb_is_registered mid (hb_ticks n hm) \<longleftrightarrow> int n < l"
    and "mid \<in> set (fst (hb_tick_all (hb_ticks n hm))) \<longleftrightarrow> int n = l - 1"
proof -
  have t: "hb_wf (hb_ticks n hm)" "live (hb_ticks n hm) mid = (if int n < l then Some (l - int n) else None)"
    using hb_ticks_spec [OF assms(1), of n mid] assms(2,3) by auto
  then show "hb_is_registered mid (hb_ticks n hm) \<longleftrightarrow> int n < l"
    by (auto simp: hb_is_registered_def live_def split: if_splits)
  show "mid \<in> set (fst (hb_tick_all (hb_ticks n hm))) \<longleftrightarrow> int n = l - 1"
    using t hb_tick_all_spec(3) [OF t(1) prod.collapse [symmetric]] by auto
qed

section \<open>Properties\<close>

text \<open>A newly registered module that sends no heartbeat stays registered for twice the
  liveness minus one ticks and is reported as expired by exactly the tick after those; a
  heartbeat gives it the plain liveness again, counted from there.\<close>

lemma heartbeat_expiry:
  assumes "hb_wf hm" and "1 \<le> hm_liveness hm"
  shows "(\<not> hb_is_registered mid hm \<longrightarrow>
      (hb_is_registered mid (hb_ticks n (hb_register tnow mid hm)) \<longleftrightarrow> int n < 2 * hm_liveness hm) \<and>
      (mid \<in> set (fst (hb_tick_all (hb_ticks n (hb_register tnow mid hm)))) \<longleftrightarrow>
         int n = 2 * hm_liveness hm - 1)) \<and>
    (hb_is_registered mid hm \<longrightarrow>
      (hb_is_registered mid (hb_ticks n (hb_update tnow mid hm)) \<longleftrightarrow> int n < hm_liveness hm) \<and>
      (mid \<in> set (fst (hb_tick_all (hb_ticks n (hb_update tnow mid hm)))) \<longleftrightarrow>
         int n = hm_liveness hm - 1))"
proof -
  have reg: "live (hb_register tnow mid hm) mid = Some (2 * hm_liveness hm)" if "\<not> hb_is_registered mid hm"
    using that by (simp add: live_def hb_register_def hb_is_registered_def map_add_def)
  have upd: "live (hb_update tnow mid hm) mid = Some (hm_liveness hm)" if "hb_is_registered mid hm"
    using that by (auto simp: live_def hb_update_def hb_is_registered_def monitor_update_def)
  show ?thesis
    using assms expires_exactly [OF hb_ops_wf(2) [OF assms(1)] reg, of n]
      expires_exactly [OF hb_ops_wf(3) [OF assms(1)] upd, of n] by auto
qed

lemma heartbeat_expiry_witness:
  "''m1'' \<in> set (fst (hb_tick_all (hb_ticks 5 (hb_register 0 ''m1'' (heartbeat_manager_new 1 3)))))"
  using heartbeat_expiry [of "heartbeat_manager_new 1 3" "''m1''" 5 0]
  by (simp add: hb_is_registered_def heartbeat_manager_new_def [of 1 3]) (simp add: hb_wf_def)

end
