(* ===== verification/Dead_Letter.thy ===== *)
theory Dead_Letter
  imports Message "HOL-Library.List_Lexorder"
begin

text \<open>
  The dead letter store: \<^verbatim>\<open>src/tyche/cpp/engine/dead_letter_store.h\<close> and
  \<^verbatim>\<open>dead_letter_store.cpp\<close>.  The store's directory is the list of its \<^verbatim>\<open>.jsonl\<close> files, stem and
  contents.  The text of a floating point number at a given precision is a parameter
  (\<open>fmt\<close>), as are the date, the clock reading and whether the file can be opened.
\<close>

record number_format =
  fmt_double :: "nat \<Rightarrow> double_bits \<Rightarrow> string"
  fmt_widen :: "float_bits \<Rightarrow> double_bits"

section \<open>JSON text\<close>

abbreviation dquote :: char where
  "dquote \<equiv> CHR 0x22"

abbreviation backslash :: char where
  "backslash \<equiv> CHR 0x5C"

abbreviation newline :: char where
  "newline \<equiv> CHR 0x0A"

definition escape_char :: "char \<Rightarrow> string" where
  "escape_char c =
     (if c = dquote then [backslash, dquote]
      else if c = backslash then [backslash, backslash]
      else if c = newline then [backslash, CHR ''n'']
      else if c = CHR 0x0D then [backslash, CHR ''r'']
      else if c = CHR 0x09 then [backslash, CHR ''t'']
      else if c = CHR 0x08 then [backslash, CHR ''b'']
      else if c = CHR 0x0C then [backslash, CHR ''f'']
      else if (of_char c :: nat) < 0x20
        then [backslash, CHR ''u''] @ pad_left 4 (show_base 16 (of_char c))
      else [c])"

definition escape_json_string :: "string \<Rightarrow> string" where
  "escape_json_string s = concat (map escape_char s)"

definition quoted :: "string \<Rightarrow> string" where
  "quoted s = [dquote] @ s @ [dquote]"

text \<open>\<^verbatim>\<open>std::isnan(d) || std::isinf(d)\<close>: the exponent bits are all ones.\<close>

definition not_finite :: "double_bits \<Rightarrow> bool" where
  "not_finite d \<longleftrightarrow> drop_bit 52 d AND 0x7FF = 0x7FF"

definition not_finite32 :: "float_bits \<Rightarrow> bool" where
  "not_finite32 f \<longleftrightarrow> drop_bit 23 f AND 0xFF = 0xFF"

definition float_text :: "string \<Rightarrow> string" where
  "float_text s = (if CHR ''.'' \<notin> set s \<and> CHR ''e'' \<notin> set s then s @ ''.0'' else s)"

definition key_text :: "string \<Rightarrow> string" where
  "key_text k = quoted k @ '': ''"

fun any_to_json :: "number_format \<Rightarrow> any_val \<Rightarrow> string"
  and payload_to_json :: "number_format \<Rightarrow> payload \<Rightarrow> string"
  and entries_to_json :: "number_format \<Rightarrow> bool \<Rightarrow> payload \<Rightarrow> string"
  and items_to_json :: "number_format \<Rightarrow> bool \<Rightarrow> any_val list \<Rightarrow> string" where
  "any_to_json fmt ANone = ''null''"
| "any_to_json fmt (AString s) = quoted (escape_json_string s)"
| "any_to_json fmt (ACStr s) = quoted (escape_json_string s)"
| "any_to_json fmt (ABool b) = (if b then ''true'' else ''false'')"
| "any_to_json fmt (AInt i) = show_int (sint i)"
| "any_to_json fmt (AInt64 i) = show_int (sint i)"
| "any_to_json fmt (AUInt64 u) = show_int (uint u)"
| "any_to_json fmt (AUInt u) = show_int (uint u)"
| "any_to_json fmt (ADouble d) =
     (if not_finite d then ''null'' else float_text (fmt_double fmt 17 d))"
| "any_to_json fmt (AFloat f) =
     (if not_finite32 f then ''null'' else float_text (fmt_double fmt 9 (fmt_widen fmt f)))"
| "any_to_json fmt (APayload p) = payload_to_json fmt p"
| "any_to_json fmt (AVecAny vs) = ''['' @ items_to_json fmt True vs @ '']''"
| "any_to_json fmt (AVecStr _) = ''null''"
| "any_to_json fmt (ABytes _) = ''null''"
| "any_to_json fmt AOther = ''null''"
| "payload_to_json fmt p = (if p = [] then ''{}'' else ''{'' @ entries_to_json fmt True p @ ''}'')"
| "entries_to_json fmt first [] = []"
| "entries_to_json fmt first ((k, v) # kvs) =
     (if first then [] else '', '') @ quoted (escape_json_string k) @ '': '' @ any_to_json fmt v @
     entries_to_json fmt False kvs"
| "items_to_json fmt first [] = []"
| "items_to_json fmt first (v # vs) =
     (if first then [] else '', '') @ any_to_json fmt v @ items_to_json fmt False vs"

definition nullable :: "('a \<Rightarrow> string) \<Rightarrow> 'a option \<Rightarrow> string" where
  "nullable f x = (case x of Some v \<Rightarrow> f v | None \<Rightarrow> ''null'')"

definition message_to_json :: "number_format \<Rightarrow> message \<Rightarrow> string" where
  "message_to_json fmt msg =
     ''{'' @ key_text ''msg_type'' @ quoted (message_type_to_str (msg_type msg)) @
     '', '' @ key_text ''sender'' @ quoted (escape_json_string (sender msg)) @
     '', '' @ key_text ''event'' @ quoted (escape_json_string (event msg)) @
     '', '' @ key_text ''payload'' @ payload_to_json fmt (msg_payload msg) @
     '', '' @ key_text ''recipient'' @ nullable (\<lambda>s. quoted (escape_json_string s)) (recipient msg) @
     '', '' @ key_text ''durability'' @ show_int (sint (durability msg)) @
     '', '' @ key_text ''timestamp'' @ nullable (fmt_double fmt 17) (timestamp msg) @
     '', '' @ key_text ''correlation_id'' @
       nullable (\<lambda>s. quoted (escape_json_string s)) (correlation_id msg) @
     '', '' @ key_text ''wait_timeout'' @
       nullable (\<lambda>f. fmt_double fmt 17 (fmt_widen fmt f)) (wait_timeout msg) @
     '', '' @ key_text ''run_timeout'' @
       nullable (\<lambda>f. fmt_double fmt 17 (fmt_widen fmt f)) (run_timeout msg) @ ''}''"

section \<open>The store\<close>

record dead_letter_store =
  data_dir :: string
  dl_files :: "(string \<times> string) list"

definition dead_letter_record ::
    "number_format \<Rightarrow> double_bits \<Rightarrow> message \<Rightarrow> string \<Rightarrow> string \<Rightarrow> string" where
  "dead_letter_record fmt tstamp msg topic reason =
     ''{'' @ key_text ''timestamp'' @ fmt_double fmt 17 tstamp @
     '', '' @ key_text ''topic'' @ quoted (escape_json_string topic) @
     '', '' @ key_text ''reason'' @ quoted (escape_json_string reason) @
     '', '' @ key_text ''message'' @ message_to_json fmt msg @ ''}''"

definition persist ::
    "number_format \<Rightarrow> string \<Rightarrow> double_bits \<Rightarrow> bool \<Rightarrow> message \<Rightarrow> string \<Rightarrow> string \<Rightarrow>
      dead_letter_store \<Rightarrow> dead_letter_store" where
  "persist fmt today tstamp can_open msg topic reason st =
     (if can_open
      then let old = (case map_of (dl_files st) today of Some c \<Rightarrow> c | None \<Rightarrow> [])
           in st\<lparr>dl_files := assoc_put today
                   (old @ dead_letter_record fmt tstamp msg topic reason @ [newline]) (dl_files st)\<rparr>
      else st)"

text \<open>Strings compare as \<^verbatim>\<open>std::string\<close> does, by unsigned character codes.\<close>

definition str_less :: "string \<Rightarrow> string \<Rightarrow> bool" where
  "str_less a b \<longleftrightarrow> (map of_char a :: nat list) < map of_char b"

fun split_lines :: "string \<Rightarrow> string \<Rightarrow> string list" where
  "split_lines acc [] = (if acc = [] then [] else [rev acc])"
| "split_lines acc (c # cs) =
     (if c = newline then rev acc # split_lines [] cs else split_lines (c # acc) cs)"

fun contains :: "string \<Rightarrow> string \<Rightarrow> bool" where
  "contains needle [] \<longleftrightarrow> needle = []"
| "contains needle (c # cs) \<longleftrightarrow> take (length needle) (c # cs) = needle \<or> contains needle cs"

definition topic_matches :: "string \<Rightarrow> string \<Rightarrow> bool" where
  "topic_matches topic line \<longleftrightarrow>
     contains (key_text ''topic'' @ quoted topic) line \<or>
     contains (quoted ''topic'' @ '':'' @ quoted topic) line"

fun replay_lines :: "string option \<Rightarrow> nat \<Rightarrow> string list \<Rightarrow> string list \<Rightarrow> string list" where
  "replay_lines topic_filter max_count results [] = results"
| "replay_lines topic_filter max_count results (line # lines) =
     (if length results < max_count then
        (if line = [] then replay_lines topic_filter max_count results lines
         else if (case topic_filter of None \<Rightarrow> False | Some t \<Rightarrow> \<not> topic_matches t line)
           then replay_lines topic_filter max_count results lines
         else replay_lines topic_filter max_count (results @ [line]) lines)
      else results)"

fun replay_files ::
    "string option \<Rightarrow> string option \<Rightarrow> nat \<Rightarrow> string list \<Rightarrow> (string \<times> string) list \<Rightarrow> string list" where
  "replay_files topic_filter since_date max_count results [] = results"
| "replay_files topic_filter since_date max_count results ((file_date, content) # files) =
     (if length results \<ge> max_count then results
      else if (case since_date of None \<Rightarrow> False | Some d \<Rightarrow> str_less file_date d)
        then replay_files topic_filter since_date max_count results files
      else replay_files topic_filter since_date max_count
             (replay_lines topic_filter max_count results (split_lines [] content)) files)"

definition replay :: "string option \<Rightarrow> string option \<Rightarrow> nat \<Rightarrow> dead_letter_store \<Rightarrow> string list" where
  "replay topic_filter since_date max_count st =
     replay_files topic_filter since_date max_count []
       (sort_key (\<lambda>(stem, _). map of_char (stem @ ''.jsonl'') :: nat list) (dl_files st))"

section \<open>Reading escaped strings\<close>

text \<open>A JSON string reader after the opening quote: the string and the text after the closing
  quote.  Raw control characters are not allowed.\<close>

definition unescape_letter :: "char \<Rightarrow> char option" where
  "unescape_letter c =
     (if c = dquote \<or> c = backslash \<or> c = CHR ''/'' then Some c
      else map_of [(CHR ''n'', newline), (CHR ''r'', CHR 0x0D), (CHR ''t'', CHR 0x09),
                   (CHR ''b'', CHR 0x08), (CHR ''f'', CHR 0x0C)] c)"

definition consume :: "char \<Rightarrow> (string \<times> string) option \<Rightarrow> (string \<times> string) option" where
  "consume c r = (case r of None \<Rightarrow> None | Some (s, rest) \<Rightarrow> Some (c # s, rest))"

fun json_read_string :: "string \<Rightarrow> (string \<times> string) option" where
  "json_read_string [] = None"
| "json_read_string (c # cs) =
     (if c = dquote then Some ([], cs)
      else if c = backslash then
        (case cs of
           [] \<Rightarrow> None
         | d # ds \<Rightarrow>
             if d = CHR ''u'' then
               (case ds of
                  h1 # h2 # h3 # h4 # rest \<Rightarrow>
                    consume (char_of (read_base 16 [h1, h2, h3, h4])) (json_read_string rest)
                | _ \<Rightarrow> None)
             else (case unescape_letter d of None \<Rightarrow> None | Some e \<Rightarrow> consume e (json_read_string ds)))
      else if (of_char c :: nat) < 0x20 then None
      else consume c (json_read_string cs))"

lemma hex4:
  assumes "n < 256"
  obtains h1 h2 h3 h4 where "pad_left 4 (show_base 16 n) = [h1, h2, h3, h4]"
    "read_base 16 [h1, h2, h3, h4] = n"
proof -
  have "length (pad_left 4 (show_base 16 n)) = 4"
    using length_show_base [of 16 n 3] assms by (simp add: pad_left_def)
  then obtain h1 h2 h3 h4 where h: "pad_left 4 (show_base 16 n) = [h1, h2, h3, h4]"
    by (auto simp: length_Suc_conv eval_nat_numeral)
  have "read_base 16 (pad_left 4 (show_base 16 n)) = n"
    by (simp add: pad_left_def read_base_zeros read_show_base)
  with h that show thesis by metis
qed

lemma escape_cases:
  obtains (letter) d where "escape_char c = [backslash, d]" "d \<noteq> CHR ''u''" "unescape_letter d = Some c"
  | (control) "escape_char c = [backslash, CHR ''u''] @ pad_left 4 (show_base 16 (of_char c))"
  | (plain) "escape_char c = [c]" "c \<noteq> dquote" "c \<noteq> backslash" "\<not> (of_char c :: nat) < 0x20"
proof -
  consider "c = dquote" | "c = backslash" | "c = newline" | "c = CHR 0x0D" | "c = CHR 0x09"
    | "c = CHR 0x08" | "c = CHR 0x0C"
    | "c \<notin> {dquote, backslash, newline, CHR 0x0D, CHR 0x09, CHR 0x08, CHR 0x0C}"
    by blast
  then show thesis
  proof cases
    case 8
    then show ?thesis using control plain by (cases "(of_char c :: nat) < 0x20") (simp_all add: escape_char_def)
  qed (auto intro!: letter simp: escape_char_def unescape_letter_def)
qed

lemma json_read_escape_char:
  "json_read_string (escape_char c @ xs) = consume c (json_read_string xs)"
proof (cases c rule: escape_cases)
  case (letter d)
  then show ?thesis by simp
next
  case control
  have "(of_char c :: nat) < 256" by simp
  then obtain h1 h2 h3 h4 where "pad_left 4 (show_base 16 (of_char c)) = [h1, h2, h3, h4]"
    "read_base 16 [h1, h2, h3, h4] = of_char c" by (rule hex4)
  then show ?thesis by (simp add: control)
next
  case plain
  then show ?thesis by simp
qed

lemma json_read_escaped:
  "json_read_string (escape_json_string s @ dquote # rest) = Some (s, rest)"
proof (induction s)
  case (Cons c s)
  then show ?case
    by (simp add: escape_json_string_def json_read_escape_char consume_def del: json_read_string.simps)
qed (simp add: escape_json_string_def)

section \<open>Records are single lines\<close>

definition one_line :: "string \<Rightarrow> bool" where
  "one_line s \<longleftrightarrow> newline \<notin> set s"

definition fmt_ok :: "number_format \<Rightarrow> bool" where
  "fmt_ok fmt \<longleftrightarrow> (\<forall>n d. one_line (fmt_double fmt n d))"

lemma one_line_append [simp]: "one_line (a @ b) \<longleftrightarrow> one_line a \<and> one_line b"
  by (auto simp: one_line_def)

lemma one_line_cons [simp]: "one_line (c # s) \<longleftrightarrow> c \<noteq> newline \<and> one_line s"
  by (auto simp: one_line_def)

lemma one_line_nil [simp]: "one_line []"
  by (simp add: one_line_def)

lemma digit_char_line: "d < 16 \<Longrightarrow> digit_char d \<noteq> CHR 0x0A"
proof
  assume "d < 16" and "digit_char d = CHR 0x0A"
  then have "of_char (digit_char d) = (10 :: nat)" by simp
  with \<open>d < 16\<close> show False by (simp add: digit_char_def split: if_splits)
qed

lemma one_line_show_base: "2 \<le> b \<Longrightarrow> b \<le> 16 \<Longrightarrow> one_line (show_base b n)"
proof (induction b n rule: show_base.induct)
  case (1 b n)
  have "n mod b < b" using 1 by simp
  then have "n mod b < 16" using 1(3) by linarith
  with 1 show ?case by (subst show_base.simps) (auto simp: digit_char_line)
qed

lemma one_line_show_int [simp]: "one_line (show_int i)"
  by (simp add: show_int_def show_nat_def one_line_show_base)

lemma one_line_escape_char: "one_line (escape_char c)"
proof (cases c rule: escape_cases)
  case (letter d)
  then show ?thesis by (auto simp: unescape_letter_def split: if_splits)
next
  case control
  then show ?thesis
    using one_line_show_base [of 16 "of_char c"] by (auto simp: pad_left_def one_line_def)
next
  case plain
  then show ?thesis by auto
qed

lemma one_line_escape [simp]: "one_line (escape_json_string s)"
  using one_line_escape_char by (induction s) (simp_all add: escape_json_string_def)

lemma one_line_quoted [simp]: "one_line (quoted s) \<longleftrightarrow> one_line s"
  by (simp add: quoted_def)

lemma one_line_json:
  "fmt_ok fmt \<Longrightarrow> one_line (any_to_json fmt v)"
  "fmt_ok fmt \<Longrightarrow> one_line (payload_to_json fmt p)"
  "fmt_ok fmt \<Longrightarrow> one_line (entries_to_json fmt first kvs)"
  "fmt_ok fmt \<Longrightarrow> one_line (items_to_json fmt first vs)"
  by (induction fmt v and fmt p and fmt first kvs and fmt first vs
      rule: any_to_json_payload_to_json_entries_to_json_items_to_json.induct)
    (simp_all add: fmt_ok_def float_text_def)

lemma one_line_type [simp]: "one_line (message_type_to_str mt)"
  by (cases mt) simp_all

lemma one_line_nullable: "(\<And>x. one_line (f x)) \<Longrightarrow> one_line (nullable f v)"
  by (simp add: nullable_def split: option.split)

lemma one_line_record:
  assumes "fmt_ok fmt"
  shows "one_line (dead_letter_record fmt ts msg topic reason)"
  using assms one_line_json(2) [OF assms]
  by (simp add: dead_letter_record_def message_to_json_def key_text_def one_line_nullable fmt_ok_def
      del: payload_to_json.simps)

lemma split_lines_records:
  assumes "\<And>r. r \<in> set rs \<Longrightarrow> one_line r"
  shows "split_lines [] (concat (map (\<lambda>r. r @ [newline]) rs)) = rs"
proof -
  have go: "split_lines acc (r @ newline # rest) = (rev acc @ r) # split_lines [] rest" if "one_line r" for acc r rest
    using that by (induction r arbitrary: acc) auto
  have "split_lines [] (r @ newline # rest) = r # split_lines [] rest" if "one_line r" for r rest
    using go [OF that, of "[]"] by simp
  then show ?thesis
    using assms by (induction rs) simp_all
qed

lemma replay_lines_take:
  assumes "\<And>r. r \<in> set rs \<Longrightarrow> r \<noteq> []"
  shows "replay_lines tf n results rs = (if length results < n
    then results @ take (n - length results)
      (filter (\<lambda>r. case tf of None \<Rightarrow> True | Some t \<Rightarrow> topic_matches t r) rs) else results)"
  using assms
proof (induction rs arbitrary: results)
  case (Cons r rs)
  show ?case
  proof (cases "length results < n")
    case True
    then have "n - length results = Suc (n - Suc (length results))" by simp
    with True Cons show ?thesis by (auto split: option.splits)
  qed simp
qed simp

lemma contains_append: "contains n (a @ n @ b)"
proof (induction a)
  case Nil
  show ?case
  proof (cases "n @ b")
    case Nil
    then show ?thesis by simp
  next
    case (Cons c cs)
    then show ?thesis by (metis append_Nil append_eq_conv_conj contains.simps(2))
  qed
qed simp

lemma contains_suffix: "contains n b \<Longrightarrow> contains n (a @ b)"
  by (induction a) auto

lemma contains_prefix: "contains n a \<Longrightarrow> contains n (a @ b)"
proof (induction a)
  case Nil
  then show ?case by (cases b) auto
next
  case (Cons c a)
  show ?case
  proof (cases "take (length n) (c # a) = n")
    case True
    then have "length n \<le> length (c # a)" by (metis length_take min.cobounded1)
    then have "take (length n) ((c # a) @ b) = n" using True by (simp add: take_append del: append_Cons)
    then show ?thesis by simp
  next
    case False
    with Cons show ?thesis by auto
  qed
qed

lemma record_matches_topic:
  assumes "escape_json_string topic = topic"
  shows "topic_matches topic (dead_letter_record fmt ts msg topic reason)"
proof -
  obtain a b where "dead_letter_record fmt ts msg topic reason = a @ (key_text ''topic'' @ quoted topic) @ b"
    unfolding dead_letter_record_def assms
    by (metis append.assoc)
  then show ?thesis by (simp only: topic_matches_def contains_append simp_thms)
qed

text \<open>The letters persisted on one day, and what a replay of that day returns.\<close>

definition persist_all ::
    "number_format \<Rightarrow> string \<Rightarrow> (double_bits \<times> message \<times> string \<times> string) list \<Rightarrow>
      dead_letter_store \<Rightarrow> dead_letter_store" where
  "persist_all fmt today ls st =
     fold (\<lambda>(ts, msg, topic, reason). persist fmt today ts True msg topic reason) ls st"

definition record_of :: "number_format \<Rightarrow> double_bits \<times> message \<times> string \<times> string \<Rightarrow> string" where
  "record_of fmt l = (case l of (ts, msg, topic, reason) \<Rightarrow> dead_letter_record fmt ts msg topic reason)"

lemma persist_all_files:
  assumes "dl_files st = [(today, c)]"
  shows "dl_files (persist_all fmt today ls st) =
    [(today, c @ concat (map (\<lambda>r. r @ [newline]) (map (record_of fmt) ls)))]"
  using assms
proof (induction ls arbitrary: st c)
  case (Cons l ls)
  obtain ts msg topic reason where l: "l = (ts, msg, topic, reason)" by (cases l)
  have "dl_files (persist fmt today ts True msg topic reason st) = [(today, c @ record_of fmt l @ [newline])]"
    using Cons.prems by (simp add: persist_def l record_of_def)
  from Cons.IH [OF this] show ?case by (simp add: persist_all_def l)
qed (simp add: persist_all_def)

lemma persist_all_new:
  assumes "dl_files st = []" and "ls \<noteq> []"
  shows "dl_files (persist_all fmt today ls st) =
    [(today, concat (map (\<lambda>r. r @ [newline]) (map (record_of fmt) ls)))]"
proof -
  obtain l ms where ls: "ls = l # ms" using assms(2) by (cases ls) auto
  obtain ts msg topic reason where l: "l = (ts, msg, topic, reason)" by (cases l)
  have "dl_files (persist fmt today ts True msg topic reason st) = [(today, record_of fmt l @ [newline])]"
    using assms(1) by (simp add: persist_def l record_of_def)
  from persist_all_files [OF this, of fmt ms] show ?thesis by (simp add: persist_all_def ls l)
qed

lemma replay_day:
  assumes "fmt_ok fmt" and "dl_files st = []"
  shows "replay tf None n (persist_all fmt today ls st) =
    take n (filter (\<lambda>r. case tf of None \<Rightarrow> True | Some t \<Rightarrow> topic_matches t r) (map (record_of fmt) ls))"
proof (cases "ls = []")
  case True
  then show ?thesis using assms(2) by (simp add: persist_all_def replay_def)
next
  case False
  define rs where "rs = map (record_of fmt) ls"
  have "one_line r" "r \<noteq> []" if "r \<in> set rs" for r
    using that one_line_record [OF assms(1)] by (auto simp: rs_def record_of_def dead_letter_record_def)
  then have "replay_lines tf n [] (split_lines [] (concat (map (\<lambda>r. r @ [newline]) rs))) =
      take n (filter (\<lambda>r. case tf of None \<Rightarrow> True | Some t \<Rightarrow> topic_matches t r) rs)"
    using replay_lines_take [of rs tf n "[]"] by (simp add: split_lines_records)
  then show ?thesis
    by (cases n) (simp_all add: replay_def persist_all_new [OF assms(2) False, of fmt today, folded rs_def] rs_def [symmetric])
qed

section \<open>Properties\<close>

text \<open>An escaped string between quotes is read back by a JSON reader as the original string,
  and the reader stops exactly at the closing quote: no character of the string can end it or
  appear as a raw control character.\<close>

lemma escape_json_roundtrip:
  "json_read_string (escape_json_string s @ dquote # rest) = Some (s, rest)"
  by (rule json_read_escaped)

text \<open>C21: Every dead letter persisted on a day is one line of that day's file, in order: replaying
  without a filter returns the records in the order they were persisted, up to the requested
  number, and replaying with a topic returns among those every record of that topic, provided
  the topic needs no escaping.\<close>

theorem dead_letters_replayed:
  assumes "fmt_ok fmt" and "dl_files st = []"
  shows "replay None None n (persist_all fmt today ls st) = take n (map (record_of fmt) ls) \<and>
    (escape_json_string topic = topic \<and> length ls \<le> n \<and> (ts, msg, topic, reason) \<in> set ls \<longrightarrow>
       dead_letter_record fmt ts msg topic reason \<in>
         set (replay (Some topic) None n (persist_all fmt today ls st)))"
proof -
  have "length (filter P (map (record_of fmt) ls)) \<le> n" if "length ls \<le> n" for P
    using that by (metis length_filter_le length_map order_trans)
  then show ?thesis
    using record_matches_topic [of topic fmt ts msg reason]
    by (force simp: replay_day [OF assms] record_of_def)
qed

theorem dead_letters_replayed_witness:
  "length (replay None None 100 (persist_all \<lparr>fmt_double = \<lambda>_ _. ''0'', fmt_widen = ucast\<rparr> ''2026-05-05''
     [(0, default_message, ''t'', ''wait_timeout''), (0, default_message, ''u'', ''run_timeout'')]
     \<lparr>data_dir = ''d'', dl_files = []\<rparr>)) = 2"
  using dead_letters_replayed [of "\<lparr>fmt_double = \<lambda>_ _. ''0'', fmt_widen = ucast\<rparr>"
      "\<lparr>data_dir = ''d'', dl_files = []\<rparr>" 100 "''2026-05-05''"
      "[(0, default_message, ''t'', ''wait_timeout''), (0, default_message, ''u'', ''run_timeout'')]"]
  by (simp add: fmt_ok_def)

text \<open>The topic filter of a replay is a substring search, so it also returns dead letters of
  other topics: one whose payload starts with a key \<open>topic\<close> holding the searched text matches.\<close>

lemma replay_matches_payload_topic:
  assumes "escape_json_string t = t" and "msg_payload msg = (''topic'', AString t) # kvs"
  shows "topic_matches t (dead_letter_record fmt ts msg other reason)"
proof -
  have esc: "escape_json_string ''topic'' = ''topic''"
    by (simp add: escape_json_string_def escape_char_def)
  obtain a b where "dead_letter_record fmt ts msg other reason = a @ payload_to_json fmt (msg_payload msg) @ b"
    unfolding dead_letter_record_def message_to_json_def by (metis append.assoc)
  moreover have "payload_to_json fmt (msg_payload msg) =
      ''{'' @ (key_text ''topic'' @ quoted t) @ entries_to_json fmt False kvs @ ''}''"
    by (simp add: assms(2) assms(1) esc key_text_def)
  ultimately have "dead_letter_record fmt ts msg other reason =
      (a @ ''{'') @ (key_text ''topic'' @ quoted t) @ (entries_to_json fmt False kvs @ ''}'') @ b"
    by simp
  then show ?thesis by (simp only: topic_matches_def contains_append simp_thms)
qed

lemma replay_matches_payload_topic_witness:
  "topic_matches ''quote'' (dead_letter_record \<lparr>fmt_double = \<lambda>_ _. ''0'', fmt_widen = ucast\<rparr> 0
     (default_message\<lparr>msg_payload := [(''topic'', AString ''quote'')]\<rparr>) ''orders'' ''run_timeout'')"
  by (rule replay_matches_payload_topic [of _ _ "[]"])
    (simp_all add: escape_json_string_def escape_char_def)

end
