(* ===== verification/Engine_State.thy ===== *)
theory Engine_State
  imports Message Topic_Map Heartbeat Dead_Letter
begin

text \<open>
  The state of the engine (\<^verbatim>\<open>src/tyche/cpp/engine/engine.h\<close>) and module registration
  (\<^verbatim>\<open>engine.cpp\<close>): constructing the engine, registering and unregistering modules, module
  identifiers and handler availability.  Unordered maps are association lists, unordered sets
  distinct lists.  Every operation runs under the lock of the state it changes and is one step.
  What lies outside (the msgpack library, number formatting, date, file system) comes in an
  \<open>env\<close>; clock readings and random suffixes are arguments.
\<close>

record env =
  env_cx :: codec
  env_fmt :: number_format
  env_today :: string
  env_stamp :: double_bits
  env_can_open :: bool

record module_info =
  module_id :: string
  interfaces :: "interface list"
  metadata :: payload

record job_tracking_info =
  requester_id :: bytes
  handler_id :: string
  jt_topic :: string
  dispatch_time :: time
  wait_start_time :: time
  jt_wait_timeout :: float_bits
  jt_run_timeout :: float_bits
  topic_frame :: bytes
  message_frame :: bytes

text \<open>The bit patterns of \<^verbatim>\<open>30.0f\<close> and \<^verbatim>\<open>60.0f\<close>.\<close>

definition float_30 :: float_bits where
  "float_30 = 0x41F00000"

definition float_60 :: float_bits where
  "float_60 = 0x42700000"

definition default_tracking :: job_tracking_info where
  "default_tracking = \<lparr>requester_id = [], handler_id = [], jt_topic = [], dispatch_time = 0,
     wait_start_time = 0, jt_wait_timeout = float_30, jt_run_timeout = float_60,
     topic_frame = [], message_frame = []\<rparr>"

record engine =
  registration_endpoint :: endpoint
  event_endpoint :: endpoint
  event_sub_endpoint :: endpoint
  heartbeat_endpoint :: endpoint
  heartbeat_recv_endpoint :: endpoint
  admin_endpoint :: endpoint
  job_endpoint :: endpoint
  queue_capacity :: i32
  broadcast_ttl :: time
  topic_queue_ttl :: time
  event_count :: u64
  register_count :: u64
  start_time :: time
  intern_table :: string_intern
  modules :: "(string \<times> module_info) list"
  topic_subscribers :: "(intern_id \<times> string list) list"
  topic_producers :: "(intern_id \<times> string list) list"
  job_handlers :: "(intern_id \<times> string list) list"
  module_availability :: "(string \<times> (string \<times> bool) list) list"
  unavailable_handlers :: "(string \<times> string list) list"
  topic_queues :: sharded_map
  egress_wakeup_flag :: bool
  reg_in_queue :: "(bytes \<times> bytes) list"
  reg_out_queue :: "bytes list list"
  pending_jobs :: "(string \<times> bytes) list"
  job_tracking :: "(string \<times> job_tracking_info) list"
  job_round_robin :: "(intern_id \<times> u64) list"
  job_timeout_events :: "(string \<times> string) list"
  recovery_events :: "(string \<times> string list) list"
  heartbeats :: heartbeat_manager
  dead_letters :: dead_letter_store

definition HEARTBEAT_INTERVAL_SEC :: time where
  "HEARTBEAT_INTERVAL_SEC = 1"

definition HEARTBEAT_LIVENESS_DEFAULT :: int where
  "HEARTBEAT_LIVENESS_DEFAULT = 3"

text \<open>The constructor.  The topic map takes its default of 256 buckets.\<close>

definition engine_new ::
    "endpoint \<Rightarrow> endpoint \<Rightarrow> endpoint \<Rightarrow> endpoint \<Rightarrow> endpoint \<Rightarrow> endpoint \<Rightarrow> i32 \<Rightarrow> string \<Rightarrow> time \<Rightarrow>
      engine option" where
  "engine_new reg ev hb hbr adm job cap dir tnow =
     do { m \<leftarrow> sharded_map_new 256;
       Some \<lparr>registration_endpoint = reg, event_endpoint = ev,
         event_sub_endpoint = \<lparr>host = host ev, port = port ev + 1\<rparr>,
         heartbeat_endpoint = hb, heartbeat_recv_endpoint = hbr, admin_endpoint = adm,
         job_endpoint = job, queue_capacity = cap, broadcast_ttl = 60, topic_queue_ttl = 60,
         event_count = 0, register_count = 0, start_time = tnow,
         intern_table = string_intern_new, modules = [], topic_subscribers = [],
         topic_producers = [], job_handlers = [], module_availability = [],
         unavailable_handlers = [], topic_queues = m, egress_wakeup_flag = False,
         reg_in_queue = [], reg_out_queue = [], pending_jobs = [], job_tracking = [],
         job_round_robin = [], job_timeout_events = [], recovery_events = [],
         heartbeats = heartbeat_manager_new HEARTBEAT_INTERVAL_SEC HEARTBEAT_LIVENESS_DEFAULT,
         dead_letters = \<lparr>data_dir = dir @ ''/dead_letters'', dl_files = []\<rparr>\<rparr> }"

section \<open>Registration\<close>

text \<open>\<^verbatim>\<open>_create_module_id\<close>: up to 100 attempts at an unused identifier, then one more unchecked.
  \<open>rnd i\<close> is the suffix drawn in attempt \<open>i\<close>.\<close>

function create_id_from :: "string \<Rightarrow> (nat \<Rightarrow> nat) \<Rightarrow> engine \<Rightarrow> nat \<Rightarrow> string" where
  "create_id_from family rnd e attempt =
     (if attempt < 100 then
        (let mid = module_id_generate family (rnd attempt)
         in if map_of (modules e) mid = None then mid else create_id_from family rnd e (attempt + 1))
      else module_id_generate family (rnd attempt))"
  by pat_completeness auto
termination by (relation "measure (\<lambda>(_, _, _, attempt). 100 - attempt)") auto

declare create_id_from.simps [simp del]

definition create_module_id :: "string \<Rightarrow> (nat \<Rightarrow> nat) \<Rightarrow> engine \<Rightarrow> string" where
  "create_module_id family rnd e = create_id_from family rnd e 0"

text \<open>\<^verbatim>\<open>m[id]\<close> on a map of vectors, then a push of the value unless it is there.\<close>

definition add_member :: "intern_id \<Rightarrow> string \<Rightarrow> (intern_id \<times> string list) list \<Rightarrow>
    (intern_id \<times> string list) list" where
  "add_member tid mid m =
     (let xs = (case map_of m tid of Some xs \<Rightarrow> xs | None \<Rightarrow> [])
      in assoc_put tid (if mid \<in> set xs then xs else xs @ [mid]) m)"

definition capacity_arg :: "engine \<Rightarrow> u64" where
  "capacity_arg e = scast (queue_capacity e)"

definition ensure_queue :: "string \<Rightarrow> engine \<Rightarrow> queue_ref \<times> engine" where
  "ensure_queue topic e =
     (let r = get_or_create topic (capacity_arg e) None (topic_queues e)
      in (fst r, e\<lparr>topic_queues := snd (snd r)\<rparr>))"

definition register_interface :: "string \<Rightarrow> interface \<Rightarrow> engine \<Rightarrow> engine" where
  "register_interface mid iface e =
     (let (tid, tbl) = intern (if_event_type iface) (intern_table e);
          e1 = snd (ensure_queue (if_event_type iface) (e\<lparr>intern_table := tbl\<rparr>))
      in case if_pattern iface of
           ON \<Rightarrow> e1\<lparr>topic_subscribers := add_member tid mid (topic_subscribers e1)\<rparr>
         | SEND \<Rightarrow> e1\<lparr>topic_producers := add_member tid mid (topic_producers e1)\<rparr>
         | HANDLE \<Rightarrow>
             e1\<lparr>job_handlers := add_member tid mid (job_handlers e1),
                job_round_robin := (case map_of (job_round_robin e1) tid of
                   None \<Rightarrow> assoc_put tid 0 (job_round_robin e1) | Some _ \<Rightarrow> job_round_robin e1)\<rparr>
         | IP_REQUEST \<Rightarrow> e1\<lparr>topic_producers := add_member tid mid (topic_producers e1)\<rparr>)"

definition register_module :: "time \<Rightarrow> module_info \<Rightarrow> engine \<Rightarrow> engine" where
  "register_module tnow info e =
     (let e1 = e\<lparr>modules := assoc_put (module_id info) info (modules e)\<rparr>;
          e2 = fold (register_interface (module_id info)) (interfaces info) e1
      in e2\<lparr>heartbeats := hb_register tnow (module_id info) (heartbeats e2)\<rparr>)"

definition remove_member :: "string \<Rightarrow> (intern_id \<times> string list) list \<Rightarrow> (intern_id \<times> string list) list" where
  "remove_member mid m = map (\<lambda>(t, xs). (t, removeAll mid xs)) m"

definition release_job :: "string \<Rightarrow> job_tracking_info \<Rightarrow> job_tracking_info" where
  "release_job mid info =
     (if handler_id info = mid then info\<lparr>handler_id := [], dispatch_time := 0\<rparr> else info)"

definition unregister_module :: "string \<Rightarrow> engine \<Rightarrow> engine" where
  "unregister_module mid e =
     (if map_of (modules e) mid = None then e
      else e\<lparr>topic_subscribers := remove_member mid (topic_subscribers e),
             topic_producers := remove_member mid (topic_producers e),
             job_handlers := remove_member mid (job_handlers e),
             unavailable_handlers := assoc_del mid (unavailable_handlers e),
             module_availability := assoc_del mid (module_availability e),
             modules := assoc_del mid (modules e),
             job_tracking := map (\<lambda>(c, info). (c, release_job mid info)) (job_tracking e),
             heartbeats := hb_unregister mid (heartbeats e)\<rparr>)"

definition is_handler_available :: "engine \<Rightarrow> string \<Rightarrow> string \<Rightarrow> bool" where
  "is_handler_available e mid topic \<longleftrightarrow>
     \<not> (case map_of (unavailable_handlers e) mid of Some ts \<Rightarrow> topic \<in> set ts | None \<Rightarrow> False) \<and>
     \<not> (case map_of (module_availability e) mid of
          Some av \<Rightarrow> (case map_of av topic of Some b \<Rightarrow> \<not> b | None \<Rightarrow> False) | None \<Rightarrow> False)"

section \<open>Invariant\<close>

text \<open>No two topics share a queue.\<close>

definition separate :: "sharded_map \<Rightarrow> bool" where
  "separate m \<longleftrightarrow> (\<forall>t t' q. find_queue t m = Some q \<and> find_queue t' m = Some q \<longrightarrow> t = t')"

definition wf_queues :: "engine \<Rightarrow> bool" where
  "wf_queues e \<longleftrightarrow> unat (capacity_arg e) \<le> 2 ^ 63 \<and> sm_wf (topic_queues e) \<and> separate (topic_queues e) \<and>
     (\<forall>q \<in> set (sm_heap (topic_queues e)). tq_inv q \<and> tq_strategy q = DROP_OLDEST)"

definition wf_table :: "string set \<Rightarrow> (intern_id \<times> string list) list \<Rightarrow> bool" where
  "wf_table ms m \<longleftrightarrow> distinct (map fst m) \<and> (\<forall>(t, xs) \<in> set m. distinct xs \<and> set xs \<subseteq> ms)"

definition job_ok :: "engine \<Rightarrow> job_tracking_info \<Rightarrow> bool" where
  "job_ok e i \<longleftrightarrow> (handler_id i \<noteq> [] \<longrightarrow> handler_id i \<in> keys (modules e)) \<and>
     map_of (string_to_id (intern_table e)) (jt_topic i) \<noteq> None"

definition wf_jobs :: "engine \<Rightarrow> bool" where
  "wf_jobs e \<longleftrightarrow> distinct (map fst (pending_jobs e)) \<and> distinct (map fst (job_tracking e)) \<and>
     (\<forall>c. map_of (pending_jobs e) c = map_option requester_id (map_of (job_tracking e) c)) \<and>
     (\<forall>c i. map_of (job_tracking e) c = Some i \<longrightarrow> job_ok e i)"

definition wf_engine :: "engine \<Rightarrow> bool" where
  "wf_engine e \<longleftrightarrow> wf_queues e \<and> intern_wf (intern_table e) \<and> distinct (map fst (modules e)) \<and>
     wf_table (keys (modules e)) (topic_subscribers e) \<and>
     wf_table (keys (modules e)) (topic_producers e) \<and>
     wf_table (keys (modules e)) (job_handlers e) \<and> wf_jobs e \<and>
     hb_wf (heartbeats e) \<and> keys (monitors (heartbeats e)) = keys (modules e)"

lemma wf_engineD:
  assumes "wf_engine e"
  shows "wf_queues e" "intern_wf (intern_table e)" "distinct (map fst (modules e))"
    "wf_table (keys (modules e)) (topic_subscribers e)" "wf_table (keys (modules e)) (topic_producers e)"
    "wf_table (keys (modules e)) (job_handlers e)" "wf_jobs e" "hb_wf (heartbeats e)"
    "keys (monitors (heartbeats e)) = keys (modules e)"
  using assms by (auto simp: wf_engine_def)

lemma job_ok_grow:
  assumes "job_ok e i" and "keys (modules e) \<subseteq> keys (modules e')"
    and "\<And>x. map_of (string_to_id (intern_table e)) x \<noteq> None \<Longrightarrow>
      map_of (string_to_id (intern_table e')) x \<noteq> None"
  shows "job_ok e' i"
  using assms by (auto simp: job_ok_def)

lemma wf_jobs_grow:
  assumes "wf_jobs e" and "job_tracking e' = job_tracking e" and "pending_jobs e' = pending_jobs e"
    and "keys (modules e) \<subseteq> keys (modules e')"
    and "\<And>x. map_of (string_to_id (intern_table e)) x \<noteq> None \<Longrightarrow>
      map_of (string_to_id (intern_table e')) x \<noteq> None"
  shows "wf_jobs e'"
proof -
  have "job_ok e' i" if "map_of (job_tracking e) c = Some i" for c i
    using that assms(1) by (auto simp: wf_jobs_def intro: job_ok_grow [OF _ assms(4,5)])
  then show ?thesis using assms(1-3) by (simp add: wf_jobs_def)
qed

lemma wf_table_member:
  "wf_table ms m \<Longrightarrow> map_of m t = Some xs \<Longrightarrow> distinct xs \<and> set xs \<subseteq> ms"
  by (auto simp: wf_table_def dest!: map_of_SomeD)

lemma wf_table_mono: "wf_table ms m \<Longrightarrow> ms \<subseteq> ms' \<Longrightarrow> wf_table ms' m"
  by (fastforce simp: wf_table_def)

lemma set_assoc_put: "set (assoc_put k v ps) \<subseteq> insert (k, v) (set ps)"
  by (induction ps) auto

lemma wf_table_add:
  assumes "wf_table ms m" and "mid \<in> ms"
  shows "wf_table ms (add_member tid mid m)"
proof -
  define xs where "xs = (case map_of m tid of Some xs \<Rightarrow> xs | None \<Rightarrow> [])"
  have "distinct xs \<and> set xs \<subseteq> ms"
    using wf_table_member [OF assms(1), of tid] by (auto simp: xs_def split: option.splits)
  then show ?thesis
    using assms set_assoc_put [of tid "if mid \<in> set xs then xs else xs @ [mid]" m]
    by (fastforce simp: wf_table_def add_member_def xs_def [symmetric] Let_def)
qed

lemma wf_table_remove:
  assumes "wf_table ms m"
  shows "wf_table (ms - {mid}) (remove_member mid m)"
  using assms by (auto simp: wf_table_def remove_member_def distinct_removeAll comp_def case_prod_unfold)

lemma ensure_queue_spec:
  assumes "wf_queues e"
  shows "\<exists>q m'. ensure_queue topic e = (q, e\<lparr>topic_queues := m'\<rparr>) \<and> wf_queues (e\<lparr>topic_queues := m'\<rparr>) \<and>
    find_queue topic m' = Some q \<and> q < length (sm_heap m') \<and>
    (\<forall>t r. find_queue t (topic_queues e) = Some r \<longrightarrow> find_queue t m' = Some r) \<and>
    (\<exists>new. sm_heap m' = sm_heap (topic_queues e) @ new) \<and>
    (find_queue topic (topic_queues e) \<noteq> None \<longrightarrow> m' = topic_queues e)"
proof (cases "find_queue topic (topic_queues e)")
  case None
  have wf: "sm_wf (topic_queues e)" using assms by (simp add: wf_queues_def)
  from get_or_create_miss [OF wf None, of "capacity_arg e" None] obtain m' out' where
    m': "get_or_create topic (capacity_arg e) None (topic_queues e) =
        (length (sm_heap (topic_queues e)), out', m')" "sm_wf m'"
      "\<And>x. find_queue x m' = (if x = topic then Some (length (sm_heap (topic_queues e)))
        else find_queue x (topic_queues e))"
      "sm_heap m' = sm_heap (topic_queues e) @ [topic_queue_new (capacity_arg e) DROP_OLDEST]"
    by blast
  have "tq_inv (topic_queue_new (capacity_arg e) DROP_OLDEST)"
    using assms by (simp add: wf_queues_def tq_new_inv)
  moreover have "separate m'"
    unfolding separate_def
  proof (intro allI impI, elim conjE)
    fix t t' q assume "find_queue t m' = Some q" "find_queue t' m' = Some q"
    then show "t = t'"
      using assms find_queue_heap [OF wf, of t] find_queue_heap [OF wf, of t']
      by (auto simp: m'(3) wf_queues_def separate_def split: if_splits)
  qed
  ultimately have "wf_queues (e\<lparr>topic_queues := m'\<rparr>)"
    using assms m'(2,4) by (auto simp: wf_queues_def capacity_arg_def topic_queue_new_def)
  with m' None show ?thesis by (auto simp: ensure_queue_def Let_def intro!: exI [of _ m'])
next
  case (Some q)
  have "sm_wf (topic_queues e)" using assms by (simp add: wf_queues_def)
  from find_queue_heap [OF this Some] get_or_create_hit [OF Some, of "capacity_arg e" None] assms Some
  show ?thesis by (auto simp: ensure_queue_def Let_def intro!: exI [of _ "topic_queues e"])
qed

section \<open>Membership tables\<close>

text \<open>The modules listed for a topic in one of the three tables.\<close>

definition members :: "string_intern \<Rightarrow> (intern_id \<times> string list) list \<Rightarrow> string \<Rightarrow> string list" where
  "members tbl m topic =
     (case map_of (string_to_id tbl) topic of None \<Rightarrow> []
      | Some tid \<Rightarrow> (case map_of m tid of None \<Rightarrow> [] | Some xs \<Rightarrow> xs))"

definition pattern_table :: "engine \<Rightarrow> interface_pattern \<Rightarrow> (intern_id \<times> string list) list" where
  "pattern_table e p = (case p of ON \<Rightarrow> topic_subscribers e | HANDLE \<Rightarrow> job_handlers e
     | SEND \<Rightarrow> topic_producers e | IP_REQUEST \<Rightarrow> topic_producers e)"

definition listed :: "engine \<Rightarrow> interface_pattern \<Rightarrow> string \<Rightarrow> string list" where
  "listed e p topic = members (intern_table e) (pattern_table e p) topic"

lemma listed_interned:
  "x \<in> set (listed e p t) \<Longrightarrow> \<exists>tid. map_of (string_to_id (intern_table e)) t = Some tid"
  by (cases "map_of (string_to_id (intern_table e)) t") (simp_all add: listed_def members_def)

lemma members_mono:
  "map_of (string_to_id tbl) \<subseteq>\<^sub>m map_of (string_to_id tbl') \<Longrightarrow> x \<in> set (members tbl m t) \<Longrightarrow>
     x \<in> set (members tbl' m t)"
  by (auto simp: members_def map_le_def dom_def split: option.splits) (metis option.inject)+

lemma members_add_member:
  "members tbl (add_member tid mid m) t =
     (if map_of (string_to_id tbl) t = Some tid \<and> mid \<notin> set (members tbl m t)
      then members tbl m t @ [mid] else members tbl m t)"
  by (cases "map_of (string_to_id tbl) t")
    (auto simp: members_def add_member_def Let_def split: option.split)

lemma members_add:
  "x \<in> set (members tbl m t) \<Longrightarrow> x \<in> set (members tbl (add_member tid mid m) t)"
  "map_of (string_to_id tbl) t = Some tid \<Longrightarrow> mid \<in> set (members tbl (add_member tid mid m) t)"
  by (auto simp: members_add_member)

lemma map_of_remove_member:
  "map_of (remove_member mid m) t = map_option (removeAll mid) (map_of m t)"
  by (induction m) (auto simp: remove_member_def)

lemma members_remove: "members tbl (remove_member mid m) t = removeAll mid (members tbl m t)"
  by (simp add: members_def map_of_remove_member split: option.splits)

text \<open>The part of the invariant that registering an interface works on.\<close>

definition wf_reg :: "engine \<Rightarrow> bool" where
  "wf_reg e \<longleftrightarrow> wf_queues e \<and> intern_wf (intern_table e) \<and>
     wf_table (keys (modules e)) (topic_subscribers e) \<and>
     wf_table (keys (modules e)) (topic_producers e) \<and>
     wf_table (keys (modules e)) (job_handlers e)"

lemma intern_step:
  assumes "intern_wf tbl" and "intern_room tbl (Suc n)"
  obtains tid tbl' where "intern s tbl = (tid, tbl')" "intern_wf tbl'" "intern_room tbl' n"
    "map_of (string_to_id tbl') s = Some tid" "map_of (string_to_id tbl) \<subseteq>\<^sub>m map_of (string_to_id tbl')"
proof (cases "map_of (string_to_id tbl) s")
  case None
  from intern_miss [OF assms None] obtain tbl' where "intern s tbl = (next_id tbl, tbl')" "intern_wf tbl'"
    "intern_room tbl' n" "map_of (string_to_id tbl') = (map_of (string_to_id tbl))(s \<mapsto> next_id tbl)"
    by blast
  moreover have "map_of (string_to_id tbl) \<subseteq>\<^sub>m (map_of (string_to_id tbl))(s \<mapsto> next_id tbl)"
    using None by (auto simp: map_le_def)
  ultimately show thesis using that [of "next_id tbl" tbl'] by simp
next
  case (Some i)
  with that [of i tbl] assms si.ensure_hit [OF assms(1) Some] si.room_less [OF assms(2)]
  show thesis by simp
qed

lemma wf_queues_upd [simp]:
  "wf_queues (e\<lparr>intern_table := tbl\<rparr>) = wf_queues e"
  "wf_queues (e\<lparr>topic_subscribers := m\<rparr>) = wf_queues e"
  "wf_queues (e\<lparr>topic_producers := m\<rparr>) = wf_queues e"
  "wf_queues (e\<lparr>job_handlers := m\<rparr>) = wf_queues e"
  "wf_queues (e\<lparr>job_round_robin := rr\<rparr>) = wf_queues e"
  "wf_queues (e\<lparr>modules := ms\<rparr>) = wf_queues e"
  "wf_queues (e\<lparr>heartbeats := hb\<rparr>) = wf_queues e"
  "wf_queues (e\<lparr>job_tracking := jt\<rparr>) = wf_queues e"
  "wf_queues (e\<lparr>pending_jobs := pj\<rparr>) = wf_queues e"
  "wf_queues (e\<lparr>unavailable_handlers := uh\<rparr>) = wf_queues e"
  "wf_queues (e\<lparr>module_availability := av\<rparr>) = wf_queues e"
  "wf_queues (e\<lparr>dead_letters := dl\<rparr>) = wf_queues e"
  "wf_queues (e\<lparr>recovery_events := re\<rparr>) = wf_queues e"
  "wf_queues (e\<lparr>job_timeout_events := te\<rparr>) = wf_queues e"
  "wf_queues (e\<lparr>egress_wakeup_flag := fl\<rparr>) = wf_queues e"
  "wf_queues (e\<lparr>event_count := ec\<rparr>) = wf_queues e"
  "wf_queues (e\<lparr>register_count := rc\<rparr>) = wf_queues e"
  "wf_queues (e\<lparr>reg_in_queue := ri\<rparr>) = wf_queues e"
  "wf_queues (e\<lparr>reg_out_queue := ro\<rparr>) = wf_queues e"
  by (simp_all add: wf_queues_def capacity_arg_def)

lemma register_interface_spec:
  fixes e :: engine and iface :: interface
  assumes wf: "wf_reg e" and room: "intern_room (intern_table e) (Suc n)" and mid: "mid \<in> keys (modules e)"
  defines "e' \<equiv> register_interface mid iface e"
  shows "wf_reg e'" and "intern_room (intern_table e') n"
    and "mid \<in> set (listed e' (if_pattern iface) (if_event_type iface))"
    and "x \<in> set (listed e p t) \<Longrightarrow> x \<in> set (listed e' p t)"
    and "find_queue (if_event_type iface) (topic_queues e') \<noteq> None"
    and "find_queue t (topic_queues e) \<noteq> None \<Longrightarrow> find_queue t (topic_queues e') \<noteq> None"
    and "modules e' = modules e" and "heartbeats e' = heartbeats e"
    and "pending_jobs e' = pending_jobs e" and "job_tracking e' = job_tracking e"
    and "map_of (string_to_id (intern_table e)) \<subseteq>\<^sub>m map_of (string_to_id (intern_table e'))"
proof -
  have "intern_wf (intern_table e)" using wf by (simp add: wf_reg_def)
  from this room obtain tid tbl where tid: "intern (if_event_type iface) (intern_table e) = (tid, tbl)"
    "intern_wf tbl" "intern_room tbl n" "map_of (string_to_id tbl) (if_event_type iface) = Some tid"
    "map_of (string_to_id (intern_table e)) \<subseteq>\<^sub>m map_of (string_to_id tbl)"
    by (rule intern_step)
  have "wf_queues (e\<lparr>intern_table := tbl\<rparr>)" using wf by (simp add: wf_reg_def)
  from ensure_queue_spec [OF this, of "if_event_type iface"] obtain q m where
    q: "ensure_queue (if_event_type iface) (e\<lparr>intern_table := tbl\<rparr>) =
        (q, e\<lparr>intern_table := tbl, topic_queues := m\<rparr>)"
      "wf_queues (e\<lparr>intern_table := tbl, topic_queues := m\<rparr>)" "find_queue (if_event_type iface) m = Some q"
      "\<And>t r. find_queue t (topic_queues e) = Some r \<Longrightarrow> find_queue t m = Some r"
    by auto
  note e' = e'_def register_interface_def tid(1) q(1) Let_def
  show "wf_reg e'"
    using wf tid(2) q(2) mid wf_table_add
    by (cases "if_pattern iface") (auto simp: e' wf_reg_def)
  show "intern_room (intern_table e') n" "find_queue (if_event_type iface) (topic_queues e') \<noteq> None"
    "modules e' = modules e" "heartbeats e' = heartbeats e" "pending_jobs e' = pending_jobs e"
    "job_tracking e' = job_tracking e"
    "map_of (string_to_id (intern_table e)) \<subseteq>\<^sub>m map_of (string_to_id (intern_table e'))"
    using tid(3,5) q(3) by (cases "if_pattern iface"; simp add: e')+
  show "find_queue t (topic_queues e) \<noteq> None \<Longrightarrow> find_queue t (topic_queues e') \<noteq> None"
    using q(4) [of t] by (cases "if_pattern iface"; auto simp: e')
  show "mid \<in> set (listed e' (if_pattern iface) (if_event_type iface))"
    using tid(4) by (cases "if_pattern iface") (auto simp: e' listed_def pattern_table_def members_add)
  show "x \<in> set (listed e p t) \<Longrightarrow> x \<in> set (listed e' p t)"
    using members_mono [OF tid(5), of x _ t]
    by (cases "if_pattern iface"; cases p) (auto simp: e' listed_def pattern_table_def members_add(1))
qed

lemma register_interfaces_spec:
  fixes e :: engine and ifs :: "interface list"
  assumes "wf_reg e" and "intern_room (intern_table e) (length ifs)" and "mid \<in> keys (modules e)"
  defines "e' \<equiv> fold (register_interface mid) ifs e"
  shows "wf_reg e' \<and> (\<forall>i \<in> set ifs. mid \<in> set (listed e' (if_pattern i) (if_event_type i)) \<and>
      find_queue (if_event_type i) (topic_queues e') \<noteq> None) \<and>
    (\<forall>p t x. x \<in> set (listed e p t) \<longrightarrow> x \<in> set (listed e' p t)) \<and>
    (\<forall>t. find_queue t (topic_queues e) \<noteq> None \<longrightarrow> find_queue t (topic_queues e') \<noteq> None) \<and>
    modules e' = modules e \<and> heartbeats e' = heartbeats e \<and>
    pending_jobs e' = pending_jobs e \<and> job_tracking e' = job_tracking e \<and>
    map_of (string_to_id (intern_table e)) \<subseteq>\<^sub>m map_of (string_to_id (intern_table e'))"
  using assms(1-3) unfolding e'_def
proof (induction ifs arbitrary: e)
  case (Cons i ifs)
  have room: "intern_room (intern_table e) (Suc (length ifs))" using Cons.prems(2) by simp
  note step = register_interface_spec [OF Cons.prems(1) room Cons.prems(3), where iface = i]
  have "mid \<in> keys (modules (register_interface mid i e))"
    using Cons.prems(3) step(7) by simp
  from Cons.IH [OF step(1,2) this] step show ?case by (auto intro: map_le_trans)
qed simp

lemma hb_register_keys: "keys (monitors (hb_register tnow mid hm)) = insert mid (keys (monitors hm))"
  by (force simp: hb_register_def split: option.splits dest: map_of_SomeD)

lemma register_module_spec:
  fixes info :: module_info and tnow :: time
  assumes wf: "wf_engine e" and room: "intern_room (intern_table e) (length (interfaces info))"
  defines "e' \<equiv> register_module tnow info e"
  shows "wf_engine e'"
    and "\<forall>i \<in> set (interfaces info). module_id info \<in> set (listed e' (if_pattern i) (if_event_type i)) \<and>
      find_queue (if_event_type i) (topic_queues e') \<noteq> None"
    and "\<forall>p t x. x \<in> set (listed e p t) \<longrightarrow> x \<in> set (listed e' p t)"
    and "map_of (modules e') = (map_of (modules e))(module_id info \<mapsto> info)"
    and "hb_is_registered (module_id info) (heartbeats e')"
    and "job_tracking e' = job_tracking e" and "pending_jobs e' = pending_jobs e"
proof -
  let ?mid = "module_id info"
  define e1 where "e1 = e\<lparr>modules := assoc_put ?mid info (modules e)\<rparr>"
  have wf1: "wf_reg e1" using wf by (auto simp: wf_reg_def e1_def wf_engine_def elim!: wf_table_mono)
  have "intern_room (intern_table e1) (length (interfaces info))" "?mid \<in> keys (modules e1)"
    using room by (simp_all add: e1_def)
  note e2 = register_interfaces_spec [OF wf1 this]
  define e2' where "e2' = fold (register_interface ?mid) (interfaces info) e1"
  note e2 = e2 [folded e2'_def]
  have e': "e' = e2'\<lparr>heartbeats := hb_register tnow ?mid (heartbeats e2')\<rparr>"
    by (simp add: e'_def register_module_def e1_def e2'_def Let_def)
  have same: "listed e' p t = listed e2' p t" "listed e1 p t = listed e p t" for p t
    by (cases p; simp add: e' e1_def listed_def pattern_table_def)+
  show "\<forall>i \<in> set (interfaces info). ?mid \<in> set (listed e' (if_pattern i) (if_event_type i)) \<and>
      find_queue (if_event_type i) (topic_queues e') \<noteq> None"
    using e2 same(1) by (simp add: e')
  show "\<forall>p t x. x \<in> set (listed e p t) \<longrightarrow> x \<in> set (listed e' p t)"
    using e2 same by simp
  show "map_of (modules e') = (map_of (modules e))(?mid \<mapsto> info)"
    using e2 by (simp add: e' e1_def)
  show "hb_is_registered ?mid (heartbeats e')"
    using hb_register_keys [of tnow ?mid "heartbeats e2'"] by (simp add: e' hb_is_registered_def map_of_eq_None_iff)
  show "job_tracking e' = job_tracking e" "pending_jobs e' = pending_jobs e"
    using e2 by (simp_all add: e' e1_def)
  have "map_of (string_to_id (intern_table e')) x \<noteq> None"
    if "map_of (string_to_id (intern_table e)) x \<noteq> None" for x
    using e2 that by (auto simp: e' e1_def map_le_def dom_def)
  moreover have "job_tracking e' = job_tracking e" "pending_jobs e' = pending_jobs e"
    "keys (modules e) \<subseteq> keys (modules e')"
    using e2 by (auto simp: e' e1_def)
  ultimately have "wf_jobs e'"
    using wf_engineD(7) [OF wf] by (intro wf_jobs_grow [of e e'])
  then show "wf_engine e'"
    using wf e2 by (auto simp: wf_engine_def wf_reg_def e' e1_def hb_register_keys)
qed

lemma register_interface_frame:
  fixes e :: engine
  shows "register_count (register_interface mid i e) = register_count e"
    "reg_out_queue (register_interface mid i e) = reg_out_queue e"
    "event_endpoint (register_interface mid i e) = event_endpoint e"
    "event_sub_endpoint (register_interface mid i e) = event_sub_endpoint e"
    "job_endpoint (register_interface mid i e) = job_endpoint e"
    "heartbeat_recv_endpoint (register_interface mid i e) = heartbeat_recv_endpoint e"
    "topic_queue_ttl (register_interface mid i e) = topic_queue_ttl e"
    "job_timeout_events (register_interface mid i e) = job_timeout_events e" "recovery_events (register_interface mid i e) = recovery_events e"
  by (cases "if_pattern i"; simp add: register_interface_def ensure_queue_def Let_def split: prod.split)+

text \<open>What registering a module does not touch.\<close>

lemma register_module_frame:
  fixes e :: engine
  shows "register_count (register_module tnow info e) = register_count e"
    "reg_out_queue (register_module tnow info e) = reg_out_queue e"
    "event_endpoint (register_module tnow info e) = event_endpoint e"
    "event_sub_endpoint (register_module tnow info e) = event_sub_endpoint e"
    "job_endpoint (register_module tnow info e) = job_endpoint e"
    "heartbeat_recv_endpoint (register_module tnow info e) = heartbeat_recv_endpoint e"
    "topic_queue_ttl (register_module tnow info e) = topic_queue_ttl e"
    "job_timeout_events (register_module tnow info e) = job_timeout_events e" "recovery_events (register_module tnow info e) = recovery_events e"
proof -
  have "register_count (fold (register_interface mid) ifs e) = register_count e \<and>
    reg_out_queue (fold (register_interface mid) ifs e) = reg_out_queue e \<and>
    event_endpoint (fold (register_interface mid) ifs e) = event_endpoint e \<and>
    event_sub_endpoint (fold (register_interface mid) ifs e) = event_sub_endpoint e \<and>
    job_endpoint (fold (register_interface mid) ifs e) = job_endpoint e \<and>
    heartbeat_recv_endpoint (fold (register_interface mid) ifs e) = heartbeat_recv_endpoint e \<and>
    topic_queue_ttl (fold (register_interface mid) ifs e) = topic_queue_ttl e \<and>
    job_timeout_events (fold (register_interface mid) ifs e) = job_timeout_events e \<and>
    recovery_events (fold (register_interface mid) ifs e) = recovery_events e" for mid ifs and e :: engine
    by (induction ifs arbitrary: e) (simp_all add: register_interface_frame)
  then show "register_count (register_module tnow info e) = register_count e"
    "reg_out_queue (register_module tnow info e) = reg_out_queue e"
    "event_endpoint (register_module tnow info e) = event_endpoint e"
    "event_sub_endpoint (register_module tnow info e) = event_sub_endpoint e"
    "job_endpoint (register_module tnow info e) = job_endpoint e"
    "heartbeat_recv_endpoint (register_module tnow info e) = heartbeat_recv_endpoint e"
    "topic_queue_ttl (register_module tnow info e) = topic_queue_ttl e"
    "job_timeout_events (register_module tnow info e) = job_timeout_events e" "recovery_events (register_module tnow info e) = recovery_events e"
    by (simp_all add: register_module_def Let_def)
qed

lemma register_interfaces_room:
  fixes e :: engine and ifs :: "interface list"
  assumes "wf_reg e" and "intern_room (intern_table e) (length ifs + n)" and "mid \<in> keys (modules e)"
  shows "intern_room (intern_table (fold (register_interface mid) ifs e)) n"
  using assms
proof (induction ifs arbitrary: e)
  case (Cons i ifs)
  have room: "intern_room (intern_table e) (Suc (length ifs + n))" using Cons.prems(2) by simp
  note step = register_interface_spec [OF Cons.prems(1) room Cons.prems(3), where iface = i]
  have "mid \<in> keys (modules (register_interface mid i e))"
    using Cons.prems(3) step(7) by simp
  from Cons.IH [OF step(1,2) this] show ?case by simp
qed simp

lemma register_module_room:
  assumes "wf_engine e" and "intern_room (intern_table e) (length (interfaces info) + n)"
  shows "intern_room (intern_table (register_module tnow info e)) n"
proof -
  let ?e1 = "e\<lparr>modules := assoc_put (module_id info) info (modules e)\<rparr>"
  have "wf_reg ?e1" using assms(1) by (auto simp: wf_reg_def wf_engine_def elim!: wf_table_mono)
  with assms(2) show ?thesis
    using register_interfaces_room [of ?e1 "interfaces info" n "module_id info"]
    by (simp add: register_module_def Let_def)
qed

lemma release_job_fields [simp]:
  "jt_topic (release_job mid i) = jt_topic i" "requester_id (release_job mid i) = requester_id i"
  "requester_id \<circ> release_job mid = requester_id"
  by (auto simp: release_job_def)

lemma release_job_handler: "handler_id (release_job mid i) \<noteq> [] \<Longrightarrow>
    handler_id (release_job mid i) = handler_id i \<and> handler_id i \<noteq> mid"
  by (auto simp: release_job_def split: if_splits)

lemma unregister_module_spec:
  assumes wf: "wf_engine e" and reg: "map_of (modules e) mid \<noteq> None"
  defines "e' \<equiv> unregister_module mid e"
  shows "wf_engine e'" and "listed e' p t = removeAll mid (listed e p t)"
    and "map_of (modules e') = (map_of (modules e))(mid := None)"
    and "\<not> hb_is_registered mid (heartbeats e')"
    and "map_of (job_tracking e') c = map_option (release_job mid) (map_of (job_tracking e) c)"
    and "pending_jobs e' = pending_jobs e"
proof -
  have e': "e' = e\<lparr>topic_subscribers := remove_member mid (topic_subscribers e),
             topic_producers := remove_member mid (topic_producers e),
             job_handlers := remove_member mid (job_handlers e),
             unavailable_handlers := assoc_del mid (unavailable_handlers e),
             module_availability := assoc_del mid (module_availability e),
             modules := assoc_del mid (modules e),
             job_tracking := map (\<lambda>(c, info). (c, release_job mid info)) (job_tracking e),
             heartbeats := hb_unregister mid (heartbeats e)\<rparr>"
    unfolding e'_def unregister_module_def using reg by (simp only: if_False)
  have "job_ok e' (release_job mid i)" if "map_of (job_tracking e) c = Some i" for c i
    using that wf_engineD(7) [OF wf] release_job_handler [of mid i]
    by (auto simp: wf_jobs_def job_ok_def e')
  then have "wf_jobs e'"
    using wf_engineD(7) [OF wf] by (auto simp: wf_jobs_def e' map_of_map_vals option.map_comp)
  then show "wf_engine e'"
    using wf by (auto simp: wf_engine_def e' wf_table_remove hb_unregister_def hb_wf_def)
  show "listed e' p t = removeAll mid (listed e p t)"
    by (cases p) (simp_all add: e' listed_def pattern_table_def members_remove)
  show "map_of (modules e') = (map_of (modules e))(mid := None)" by (simp add: e')
  show "\<not> hb_is_registered mid (heartbeats e')" by (simp add: e' hb_is_registered_def hb_unregister_def)
  show "map_of (job_tracking e') c = map_option (release_job mid) (map_of (job_tracking e) c)"
    by (simp add: e' map_of_map_vals)
  show "pending_jobs e' = pending_jobs e" by (simp add: e')
qed

lemma create_id_fresh:
  assumes "\<exists>i. attempt \<le> i \<and> i < 100 \<and> map_of (modules e) (module_id_generate fam (rnd i)) = None"
  shows "map_of (modules e) (create_id_from fam rnd e attempt) = None"
  using assms
proof (induction fam rnd e attempt rule: create_id_from.induct)
  case (1 fam rnd e attempt)
  show ?case
  proof (cases "attempt < 100 \<and> map_of (modules e) (module_id_generate fam (rnd attempt)) \<noteq> None")
    case True
    then have "map_of (modules e) (create_id_from fam rnd e (attempt + 1)) = None"
      using 1 by (metis Suc_eq_plus1 le_antisym not_less_eq_eq)
    with True show ?thesis by (subst create_id_from.simps) (simp add: Let_def)
  next
    case False
    with 1 show ?thesis by (subst create_id_from.simps) (auto simp: Let_def)
  qed
qed

lemma engine_new_wf:
  assumes "unat (scast cap :: u64) \<le> 2 ^ 63"
  obtains e where "engine_new reg ev hb hbr adm job cap dir tnow = Some e" "wf_engine e"
    "modules e = []" "intern_table e = string_intern_new" "queue_capacity e = cap"
    "\<And>t. find_queue t (topic_queues e) = None" "job_tracking e = []"
proof -
  obtain m where m: "sharded_map_new 256 = Some m" "sm_wf m" "sm_heap m = []" "\<And>t. find_queue t m = None"
    by (rule sharded_map_new_wf [of 256]) auto
  let ?e = "the (engine_new reg ev hb hbr adm job cap dir tnow)"
  have "engine_new reg ev hb hbr adm job cap dir tnow = Some ?e"
    by (simp add: engine_new_def m(1))
  moreover have "wf_engine ?e"
    using assms m by (simp add: engine_new_def wf_engine_def wf_queues_def separate_def wf_table_def wf_jobs_def
        capacity_arg_def heartbeat_manager_new_def hb_wf_def)
  ultimately show thesis
    using that [of ?e] m by (simp add: engine_new_def)
qed

section \<open>Properties\<close>

text \<open>Registering a module keeps the engine's invariant, lists the module under the topic of
  every interface in the table its pattern selects, gives every such topic a queue, starts the
  module's heartbeat and removes no other module from any table.\<close>

lemma register_module_lists:
  assumes "wf_engine e" and "intern_room (intern_table e) (length (interfaces info))"
  shows "wf_engine (register_module tnow info e) \<and>
    (\<forall>i \<in> set (interfaces info).
       module_id info \<in> set (listed (register_module tnow info e) (if_pattern i) (if_event_type i)) \<and>
       find_queue (if_event_type i) (topic_queues (register_module tnow info e)) \<noteq> None) \<and>
    (\<forall>p t x. x \<in> set (listed e p t) \<longrightarrow> x \<in> set (listed (register_module tnow info e) p t)) \<and>
    hb_is_registered (module_id info) (heartbeats (register_module tnow info e))"
  using register_module_spec [OF assms] by blast

definition sample_info :: module_info where
  "sample_info = \<lparr>module_id = ''gw_00000a'', interfaces =
     [default_interface\<lparr>if_name := ''on_tick'', if_event_type := ''tick''\<rparr>,
      default_interface\<lparr>if_name := ''handle_order'', if_pattern := HANDLE, if_event_type := ''order''\<rparr>],
     metadata = []\<rparr>"

lemma sample_info_simps [simp]:
  "module_id sample_info = ''gw_00000a''"
  "interfaces sample_info =
     [default_interface\<lparr>if_name := ''on_tick'', if_event_type := ''tick''\<rparr>,
      default_interface\<lparr>if_name := ''handle_order'', if_pattern := HANDLE, if_event_type := ''order''\<rparr>]"
  by (simp_all add: sample_info_def)

definition sample_engine :: "engine option" where
  "sample_engine = engine_new \<lparr>host = ''h'', port = 5555\<rparr> \<lparr>host = ''h'', port = 5556\<rparr>
     \<lparr>host = ''h'', port = 5559\<rparr> \<lparr>host = ''h'', port = 5560\<rparr> \<lparr>host = ''h'', port = 5558\<rparr>
     \<lparr>host = ''h'', port = 5564\<rparr> 16 ''data'' 0"

lemma sample_engine_wf:
  obtains e where "sample_engine = Some e" "wf_engine e" "modules e = []" "job_tracking e = []"
    "intern_table e = string_intern_new" "\<And>t. find_queue t (topic_queues e) = None"
proof -
  have "unat (scast (16 :: i32) :: u64) \<le> 2 ^ 63" by simp
  from this that show thesis unfolding sample_engine_def by (rule engine_new_wf)
qed

lemma register_module_lists_witness:
  "\<exists>e. sample_engine = Some e \<and>
     ''gw_00000a'' \<in> set (listed (register_module 1 sample_info e) HANDLE ''order'')"
proof -
  obtain e where e: "sample_engine = Some e" "wf_engine e" "intern_table e = string_intern_new"
    by (rule sample_engine_wf)
  have "intern_room (intern_table e) (length (interfaces sample_info))"
    by (simp add: e(3) intern_room_def string_intern_new_def)
  from register_module_lists [OF e(2) this, of 1] e(1) show ?thesis
    by (auto simp: default_interface_def)
qed



end
