(* ===== verification/Job_Router.thy ===== *)
theory Job_Router
  imports Engine_State
begin

text \<open>
  Job routing (\<^verbatim>\<open>_job_router_worker\<close> and \<^verbatim>\<open>_job_timeout_worker\<close> of \<^verbatim>\<open>engine.cpp\<close>): requests are
  dispatched round robin to the available handlers of their topic or wait, responses go back to
  the requester, overdue jobs are retried or answered with an error, and waiting jobs are
  dispatched when a handler recovers.  What the router sends is the list of multipart messages
  of the step.  A step is \<open>None\<close> when decoding a message has undefined behaviour.
\<close>

section \<open>Floats compared with clock differences\<close>

text \<open>\<^verbatim>\<open>x > static_cast<double>(f)\<close> for a real \<open>x\<close> and an IEEE single \<open>f\<close>: never above a NaN or
  positive infinity, always above negative infinity.\<close>

definition float_magnitude :: "float_bits \<Rightarrow> real" where
  "float_magnitude f =
     (let ex = unat (drop_bit 23 f AND 0xFF); fr = unat (f AND 0x7FFFFF)
      in if ex = 0 then real fr / 2 ^ 149
         else if ex < 150 then real (fr + 0x800000) / 2 ^ (150 - ex)
         else real (fr + 0x800000) * 2 ^ (ex - 150))"

definition exceeds_float :: "real \<Rightarrow> float_bits \<Rightarrow> bool" where
  "exceeds_float x f \<longleftrightarrow>
     (let neg = bit f 31
      in if drop_bit 23 f AND 0xFF = 0xFF then f AND 0x7FFFFF = 0 \<and> neg
         else x > (if neg then - float_magnitude f else float_magnitude f))"

section \<open>Dispatch\<close>

definition handlers_of :: "intern_id \<Rightarrow> engine \<Rightarrow> string list" where
  "handlers_of tid e = (case map_of (job_handlers e) tid of Some hs \<Rightarrow> hs | None \<Rightarrow> [])"

definition available_of :: "intern_id \<Rightarrow> string \<Rightarrow> engine \<Rightarrow> string list" where
  "available_of tid topic e = filter (\<lambda>h. is_handler_available e h topic) (handlers_of tid e)"

definition next_handler :: "intern_id \<Rightarrow> string list \<Rightarrow> engine \<Rightarrow> string \<times> engine" where
  "next_handler tid available e =
     (let rr = (case map_of (job_round_robin e) tid of Some r \<Rightarrow> r | None \<Rightarrow> 0);
          idx = rr mod word_of_nat (length available)
      in (available ! unat idx, e\<lparr>job_round_robin := assoc_put tid (idx + 1) (job_round_robin e)\<rparr>))"

text \<open>\<open>retry_job\<close>: the flag it returns, the job's information as it leaves it, what it sends.\<close>

definition retry_job :: "time \<Rightarrow> string \<Rightarrow> job_tracking_info \<Rightarrow> engine \<Rightarrow>
    bool \<times> job_tracking_info \<times> bytes list list \<times> engine" where
  "retry_job tnow corr_id info e =
     (let (tid, tbl) = intern (jt_topic info) (intern_table e);
          e1 = e\<lparr>intern_table := tbl\<rparr>;
          available = available_of tid (jt_topic info) e1
      in if available = [] then (False, info, [], e1)
         else
           let (hid, e2) = next_handler tid available e1;
               info' = info\<lparr>handler_id := hid, dispatch_time := tnow\<rparr>
           in (True, info', [[str_bytes hid, [], topic_frame info, message_frame info]],
               e2\<lparr>job_tracking := assoc_put corr_id info' (job_tracking e2)\<rparr>))"

definition payload_timeout :: "codec \<Rightarrow> string \<Rightarrow> float_bits \<Rightarrow> message \<Rightarrow> float_bits" where
  "payload_timeout cx key dflt msg =
     (case map_of (msg_payload msg) key of
        Some (ADouble d) \<Rightarrow> cx_narrow cx d
      | Some (AInt i) \<Rightarrow> cx_i32_float cx i
      | _ \<Rightarrow> dflt)"

definition request_timeouts :: "codec \<Rightarrow> message \<Rightarrow> float_bits \<times> float_bits" where
  "request_timeouts cx msg =
     ((case wait_timeout msg of Some w \<Rightarrow> w | None \<Rightarrow> payload_timeout cx ''wait_timeout'' float_30 msg),
      (case run_timeout msg of Some r \<Rightarrow> r | None \<Rightarrow> payload_timeout cx ''run_timeout'' float_60 msg))"

definition no_handler_error :: "message \<Rightarrow> message" where
  "no_handler_error msg = default_message\<lparr>msg_type := RESPONSE, sender := ''engine'',
     event := event msg,
     msg_payload := [(''error'', AString (''No handler registered for job '' @ [CHR 0x27] @ event msg @ [CHR 0x27]))],
     correlation_id := correlation_id msg\<rparr>"

definition corr_of :: "message \<Rightarrow> string" where
  "corr_of msg = (case correlation_id msg of Some c \<Rightarrow> c | None \<Rightarrow> [])"

definition handle_request :: "codec \<Rightarrow> time \<Rightarrow> bytes \<Rightarrow> bytes \<Rightarrow> bytes \<Rightarrow> message \<Rightarrow> engine \<Rightarrow>
    bytes list list \<times> engine" where
  "handle_request cx tnow identity tframe mframe msg e =
     (let topic = event msg;
          (wt, rt) = request_timeouts cx msg;
          (tid, tbl) = intern topic (intern_table e);
          e1 = e\<lparr>intern_table := tbl\<rparr>;
          handlers = handlers_of tid e1;
          available = available_of tid topic e1;
          corr_id = corr_of msg
      in if available = [] then
           (if handlers = [] then
              ([[identity, [], tframe, serialize cx (no_handler_error msg)]], e1)
            else
              let ti = default_tracking\<lparr>requester_id := identity, jt_topic := topic,
                    wait_start_time := tnow, jt_wait_timeout := wt, jt_run_timeout := rt,
                    topic_frame := tframe, message_frame := mframe\<rparr>
              in ([], e1\<lparr>job_tracking := assoc_put corr_id ti (job_tracking e1),
                         pending_jobs := assoc_put corr_id identity (pending_jobs e1)\<rparr>))
         else
           let (hid, e2) = next_handler tid available e1;
               ti = default_tracking\<lparr>requester_id := identity, handler_id := hid, jt_topic := topic,
                    dispatch_time := tnow, wait_start_time := tnow, jt_wait_timeout := wt,
                    jt_run_timeout := rt, topic_frame := tframe, message_frame := mframe\<rparr>
           in ([[str_bytes hid, [], tframe, mframe]],
               e2\<lparr>pending_jobs := assoc_put corr_id identity (pending_jobs e2),
                  job_tracking := assoc_put corr_id ti (job_tracking e2)\<rparr>))"

definition handle_response :: "bytes \<Rightarrow> bytes \<Rightarrow> message \<Rightarrow> engine \<Rightarrow> bytes list list \<times> engine" where
  "handle_response tframe mframe msg e =
     (case map_of (pending_jobs e) (corr_of msg) of
        None \<Rightarrow> ([], e)
      | Some req_id \<Rightarrow>
          ([[req_id, [], tframe, mframe]],
           e\<lparr>pending_jobs := assoc_del (corr_of msg) (pending_jobs e),
             job_tracking := assoc_del (corr_of msg) (job_tracking e)\<rparr>))"

section \<open>Decoding with exceptions\<close>

text \<open>\<open>None\<close>: undefined behaviour; \<open>Some None\<close>: an exception; otherwise the message.\<close>

definition decode :: "codec \<Rightarrow> bytes \<Rightarrow> message option option" where
  "decode cx bs = (case deserialize cx bs of
     Inl UndefinedKeyRead \<Rightarrow> None | Inl UnpackThrows \<Rightarrow> Some None | Inr m \<Rightarrow> Some (Some m))"

section \<open>Timeouts and recovery\<close>

definition add_unavailable :: "string \<Rightarrow> string \<Rightarrow> engine \<Rightarrow> engine" where
  "add_unavailable hid topic e =
     e\<lparr>unavailable_handlers := assoc_put hid
         (List.insert topic (case map_of (unavailable_handlers e) hid of Some ts \<Rightarrow> ts | None \<Rightarrow> []))
         (unavailable_handlers e)\<rparr>"

definition timeout_error :: "string \<Rightarrow> string \<Rightarrow> string \<Rightarrow> message" where
  "timeout_error topic reason corr_id = default_message\<lparr>msg_type := RESPONSE, sender := ''engine'',
     event := topic,
     msg_payload := [(''error'', AString reason), (''correlation_id'', AString corr_id)],
     correlation_id := Some corr_id\<rparr>"

definition dead_letter :: "env \<Rightarrow> bytes \<Rightarrow> string \<Rightarrow> string \<Rightarrow> engine \<Rightarrow> engine option" where
  "dead_letter env mframe topic reason e =
     (case decode (env_cx env) mframe of
        None \<Rightarrow> None
      | Some None \<Rightarrow> Some e
      | Some (Some m) \<Rightarrow>
          Some (e\<lparr>dead_letters := persist (env_fmt env) (env_today env) (env_stamp env)
                   (env_can_open env) m topic reason (dead_letters e)\<rparr>))"

definition process_timeout :: "env \<Rightarrow> time \<Rightarrow> string \<Rightarrow> string \<Rightarrow> engine \<Rightarrow>
    (bytes list list \<times> engine) option" where
  "process_timeout env tnow corr_id reason e =
     (case map_of (job_tracking e) corr_id of
        None \<Rightarrow> Some ([], e)
      | Some info \<Rightarrow>
          let e1 = e\<lparr>job_tracking := assoc_del corr_id (job_tracking e)\<rparr> in
          if reason = ''run_timeout'' \<and> handler_id info \<noteq> [] then
            let e2 = add_unavailable (handler_id info) (jt_topic info) e1;
                (ok, info', out, e3) = retry_job tnow corr_id info e2
            in if ok then Some (out, e3)
               else Some (out, e3\<lparr>job_tracking := assoc_put corr_id
                      (info'\<lparr>handler_id := [], dispatch_time := 0\<rparr>) (job_tracking e3)\<rparr>)
          else do {
            e2 \<leftarrow> (if reason = ''wait_timeout''
                   then dead_letter env (message_frame info) (jt_topic info) ''wait_timeout'' e1
                   else Some e1);
            Some ([[requester_id info, [], topic_frame info,
                    serialize (env_cx env) (timeout_error (jt_topic info) reason corr_id)]],
                  e2\<lparr>pending_jobs := assoc_del corr_id (pending_jobs e2)\<rparr>)
          })"

definition waiting_jobs :: "string list \<Rightarrow> engine \<Rightarrow> (string \<times> job_tracking_info) list" where
  "waiting_jobs topics e =
     filter (\<lambda>(c, i). handler_id i = [] \<and> jt_topic i \<in> set topics) (job_tracking e)"

definition dispatch_waiting :: "time \<Rightarrow> string \<times> job_tracking_info \<Rightarrow> bytes list list \<times> engine \<Rightarrow>
    bytes list list \<times> engine" where
  "dispatch_waiting tnow ci acc =
     (let (c, i) = ci; (out, e) = acc;
          e1 = e\<lparr>job_tracking := assoc_del c (job_tracking e)\<rparr>;
          (ok, i', out1, e2) = retry_job tnow c i e1
      in if ok then (out @ out1, e2)
         else (out @ out1, e2\<lparr>job_tracking := assoc_put c i' (job_tracking e2)\<rparr>))"

definition process_recovery :: "time \<Rightarrow> string \<times> string list \<Rightarrow> engine \<Rightarrow> bytes list list \<times> engine" where
  "process_recovery tnow ev e = fold (dispatch_waiting tnow) (waiting_jobs (snd ev) e) ([], e)"

section \<open>The router's loop\<close>

definition router_receive :: "env \<Rightarrow> time \<Rightarrow> bytes list \<Rightarrow> engine \<Rightarrow> (bytes list list \<times> engine) option" where
  "router_receive env tnow fs e =
     (if length fs < 4 then Some ([], e)
      else case decode (env_cx env) (fs ! 3) of
        None \<Rightarrow> None
      | Some None \<Rightarrow> Some ([], e)
      | Some (Some msg) \<Rightarrow>
          if msg_type msg = REQUEST
            then Some (handle_request (env_cx env) tnow (fs ! 0) (fs ! 2) (fs ! 3) msg e)
          else if msg_type msg = RESPONSE
            then Some (handle_response (fs ! 2) (fs ! 3) msg e)
          else Some ([], e))"

fun process_timeouts :: "env \<Rightarrow> time \<Rightarrow> (string \<times> string) list \<Rightarrow> engine \<Rightarrow>
    (bytes list list \<times> engine) option" where
  "process_timeouts env tnow [] e = Some ([], e)"
| "process_timeouts env tnow ((c, reason) # evs) e =
     do { (out, e1) \<leftarrow> process_timeout env tnow c reason e;
          (out', e2) \<leftarrow> process_timeouts env tnow evs e1;
          Some (out @ out', e2) }"

fun process_recoveries :: "time \<Rightarrow> (string \<times> string list) list \<Rightarrow> engine \<Rightarrow> bytes list list \<times> engine" where
  "process_recoveries tnow [] e = ([], e)"
| "process_recoveries tnow (ev # evs) e =
     (let (out, e1) = process_recovery tnow ev e; (out', e2) = process_recoveries tnow evs e1
      in (out @ out', e2))"

text \<open>One iteration: a received multipart message, if any, then the two event queues.\<close>

definition router_iteration :: "env \<Rightarrow> time \<Rightarrow> bytes list option \<Rightarrow> engine \<Rightarrow>
    (bytes list list \<times> engine) option" where
  "router_iteration env tnow received e =
     do { (out1, e1) \<leftarrow> (case received of None \<Rightarrow> Some ([], e) | Some fs \<Rightarrow> router_receive env tnow fs e);
          (out2, e2) \<leftarrow> process_timeouts env tnow (job_timeout_events e1) (e1\<lparr>job_timeout_events := []\<rparr>);
          let (out3, e3) = process_recoveries tnow (recovery_events e2) (e2\<lparr>recovery_events := []\<rparr>);
          Some (out1 @ out2 @ out3, e3) }"

section \<open>The timeout worker\<close>

definition job_overdue :: "time \<Rightarrow> job_tracking_info \<Rightarrow> string option" where
  "job_overdue tnow info =
     (if handler_id info \<noteq> [] then
        (if exceeds_float (tnow - dispatch_time info) (jt_run_timeout info)
         then Some ''run_timeout'' else None)
      else
        (if exceeds_float (tnow - wait_start_time info) (jt_wait_timeout info)
         then Some ''wait_timeout'' else None))"

definition job_timeout_pass :: "time \<Rightarrow> engine \<Rightarrow> engine" where
  "job_timeout_pass tnow e =
     e\<lparr>job_timeout_events := job_timeout_events e @
        concat (map (\<lambda>(c, info). case job_overdue tnow info of None \<Rightarrow> [] | Some r \<Rightarrow> [(c, r)])
          (job_tracking e))\<rparr>"

section \<open>Picking a handler\<close>

definition handlers_small :: "engine \<Rightarrow> bool" where
  "handlers_small e \<longleftrightarrow> (\<forall>tid. length (handlers_of tid e) < 2 ^ 64)"

lemma available_sub: "set (available_of tid topic e) \<subseteq> set (handlers_of tid e)"
  by (auto simp: available_of_def)

lemma available_len: "handlers_small e \<Longrightarrow> length (available_of tid topic e) < 2 ^ 64"
  unfolding handlers_small_def available_of_def by (blast intro: le_less_trans length_filter_le)

lemma next_handler_index:
  assumes "av \<noteq> []" and "length av < 2 ^ 64"
  shows "unat (rr mod word_of_nat (length av) :: u64) = unat rr mod length av"
  using assms by (simp add: unat_mod)

lemma next_handler_spec:
  assumes "av \<noteq> []" and "length av < 2 ^ 64"
  obtains hid rr' where "next_handler tid av e = (hid, e\<lparr>job_round_robin := rr'\<rparr>)" "hid \<in> set av"
proof -
  obtain hid rr' where nh: "next_handler tid av e = (hid, e\<lparr>job_round_robin := rr'\<rparr>)"
    by (auto simp: next_handler_def Let_def)
  have "hid \<in> set av"
    using nh next_handler_index [OF assms] assms(1) by (auto simp: next_handler_def Let_def)
  with nh that show thesis by blast
qed

lemma handler_registered:
  assumes "wf_engine e" and "h \<in> set (handlers_of tid e)"
  shows "h \<in> keys (modules e)"
proof -
  from assms(2) obtain hs where hs: "map_of (job_handlers e) tid = Some hs" "h \<in> set hs"
    by (cases "map_of (job_handlers e) tid") (auto simp: handlers_of_def)
  from wf_table_member [OF wf_engineD(6) [OF assms(1)] hs(1)] hs(2) show ?thesis by blast
qed

lemma available_of_upd [simp]:
  "available_of tid topic (e\<lparr>intern_table := tbl\<rparr>) = available_of tid topic e"
  "available_of tid topic (e\<lparr>job_tracking := jt\<rparr>) = available_of tid topic e"
  "handlers_of tid (e\<lparr>intern_table := tbl\<rparr>) = handlers_of tid e"
  "handlers_of tid (e\<lparr>job_tracking := jt\<rparr>) = handlers_of tid e"
  "handlers_of tid (e\<lparr>unavailable_handlers := uh\<rparr>) = handlers_of tid e"
  "handlers_small (e\<lparr>job_tracking := jt\<rparr>) = handlers_small e"
  "handlers_small (e\<lparr>unavailable_handlers := uh\<rparr>) = handlers_small e"
  by (simp_all add: available_of_def handlers_of_def is_handler_available_def handlers_small_def)

text \<open>The handlers a topic's jobs can go to.\<close>

definition available :: "string \<Rightarrow> engine \<Rightarrow> string list" where
  "available topic e = filter (\<lambda>h. is_handler_available e h topic) (listed e HANDLE topic)"

lemma available_interned:
  "map_of (string_to_id (intern_table e)) topic = Some tid \<Longrightarrow> available_of tid topic e = available topic e"
  "map_of (string_to_id (intern_table e)) topic = Some tid \<Longrightarrow> handlers_of tid e = listed e HANDLE topic"
  by (simp_all add: available_of_def available_def handlers_of_def listed_def pattern_table_def members_def)

text \<open>A retry on an interned topic: it finds no handler and changes nothing, or dispatches.\<close>

lemma retry_job_cases:
  assumes tid: "map_of (string_to_id (intern_table e)) (jt_topic info) = Some tid"
    and "intern_wf (intern_table e)" and "handlers_small e"
  obtains (none) "available (jt_topic info) e = []" "retry_job tnow c info e = (False, info, [], e)"
  | (sent) hid rr' where "hid \<in> set (available (jt_topic info) e)"
      "retry_job tnow c info e = (True, info\<lparr>handler_id := hid, dispatch_time := tnow\<rparr>,
         [[str_bytes hid, [], topic_frame info, message_frame info]],
         e\<lparr>job_round_robin := rr',
           job_tracking := assoc_put c (info\<lparr>handler_id := hid, dispatch_time := tnow\<rparr>) (job_tracking e)\<rparr>)"
proof -
  have int: "intern (jt_topic info) (intern_table e) = (tid, intern_table e)"
    using si.ensure_hit [OF assms(2) tid] .
  note av = available_interned(1) [OF tid]
  show thesis
  proof (cases "available (jt_topic info) e = []")
    case True
    then show thesis by (intro none) (simp_all add: retry_job_def int av)
  next
    case False
    have len: "length (available (jt_topic info) e) < 2 ^ 64"
      using available_len [OF assms(3), of tid "jt_topic info"] av by simp
    from False len obtain hid rr' where
      nh: "next_handler tid (available (jt_topic info) e) e = (hid, e\<lparr>job_round_robin := rr'\<rparr>)"
        "hid \<in> set (available (jt_topic info) e)"
      by (rule next_handler_spec)
    then show thesis
      using False by (intro sent [of hid rr']) (simp_all add: retry_job_def int av Let_def)
  qed
qed

section \<open>Invariant\<close>

lemma wf_engine_jobs:
  assumes "wf_engine e" and "wf_queues e'" and "intern_wf (intern_table e')"
    and "modules e' = modules e" and "topic_subscribers e' = topic_subscribers e"
    and "topic_producers e' = topic_producers e" and "job_handlers e' = job_handlers e"
    and "heartbeats e' = heartbeats e" and "wf_jobs e'"
  shows "wf_engine e'"
  using assms by (simp add: wf_engine_def)

lemma wf_engine_track:
  assumes "wf_engine e" and "job_ok e ti" and "requester_id ti = q"
  shows "wf_engine (e\<lparr>job_round_robin := rr, pending_jobs := assoc_put c q (pending_jobs e),
    job_tracking := assoc_put c ti (job_tracking e)\<rparr>)" (is "wf_engine ?e'")
proof (rule wf_engine_jobs [OF assms(1)])
  show "wf_jobs ?e'" using wf_engineD(7) [OF assms(1)] assms(2,3) by (auto simp: wf_jobs_def job_ok_def)
qed (use wf_engineD(1,2) [OF assms(1)] in simp_all)

lemma track_swap: "e\<lparr>job_tracking := jt, pending_jobs := pj\<rparr> = e\<lparr>pending_jobs := pj, job_tracking := jt\<rparr>"
  by (cases e) simp

lemma wf_jobs_retrack:
  assumes "wf_jobs e" and "map_of (job_tracking e) c = Some i" and "job_ok e ti"
    and "requester_id ti = requester_id i"
  shows "wf_jobs (e\<lparr>job_round_robin := rr, unavailable_handlers := uh,
    job_tracking := assoc_put c ti (assoc_del c (job_tracking e))\<rparr>)"
  using assms by (auto simp: wf_jobs_def job_ok_def)

lemma wf_jobs_forget:
  assumes "wf_jobs e"
  shows "wf_jobs (e\<lparr>job_tracking := assoc_del c (job_tracking e), pending_jobs := assoc_del c (pending_jobs e),
    dead_letters := dl\<rparr>)"
  using assms by (auto simp: wf_jobs_def job_ok_def)

section \<open>Requests\<close>

text \<open>The engine once the topic has an identifier; nothing else differs.\<close>

definition interned :: "string \<Rightarrow> engine \<Rightarrow> engine" where
  "interned topic e = e\<lparr>intern_table := snd (intern topic (intern_table e))\<rparr>"

definition new_job :: "codec \<Rightarrow> time \<Rightarrow> bytes \<Rightarrow> bytes \<Rightarrow> bytes \<Rightarrow> message \<Rightarrow> job_tracking_info" where
  "new_job cx tnow identity tframe mframe msg = default_tracking\<lparr>requester_id := identity,
     jt_topic := event msg, wait_start_time := tnow,
     jt_wait_timeout := fst (request_timeouts cx msg), jt_run_timeout := snd (request_timeouts cx msg),
     topic_frame := tframe, message_frame := mframe\<rparr>"

lemma interned_fields [simp]:
  "modules (interned topic e) = modules e" "job_tracking (interned topic e) = job_tracking e"
  "pending_jobs (interned topic e) = pending_jobs e" "handlers_small (interned topic e) = handlers_small e"
  by (simp_all add: interned_def handlers_small_def handlers_of_def)

lemma interned_step:
  assumes wf: "wf_engine e" and room: "intern_room (intern_table e) 1"
  obtains tid where "intern topic (intern_table e) = (tid, intern_table (interned topic e))"
    "map_of (string_to_id (intern_table (interned topic e))) topic = Some tid" "wf_engine (interned topic e)"
proof -
  from wf_engineD(2) [OF wf] room [unfolded One_nat_def] obtain tid tbl where
    tid: "intern topic (intern_table e) = (tid, tbl)" "intern_wf tbl" "map_of (string_to_id tbl) topic = Some tid"
      "map_of (string_to_id (intern_table e)) \<subseteq>\<^sub>m map_of (string_to_id tbl)"
    by (rule intern_step)
  let ?e1 = "e\<lparr>intern_table := tbl\<rparr>"
  have "wf_jobs ?e1"
    using wf_jobs_grow [OF wf_engineD(7) [OF wf], of ?e1] tid(4) by (auto simp: map_le_def dom_def)
  then have "wf_engine ?e1"
    using wf tid(2) wf_engineD(1) [OF wf] by (intro wf_engine_jobs [OF wf]) simp_all
  with tid show thesis by (intro that [of tid]) (simp_all add: interned_def)
qed

lemma handle_request_cases:
  assumes wf: "wf_engine e" and room: "intern_room (intern_table e) 1" and small: "handlers_small e"
  obtains (none) "listed (interned (event msg) e) HANDLE (event msg) = []"
      "handle_request cx tnow identity tframe mframe msg e =
        ([[identity, [], tframe, serialize cx (no_handler_error msg)]], interned (event msg) e)"
      "wf_engine (interned (event msg) e)"
  | (waits) e' where "listed (interned (event msg) e) HANDLE (event msg) \<noteq> []"
      "available (event msg) (interned (event msg) e) = []"
      "handle_request cx tnow identity tframe mframe msg e = ([], e')" "wf_engine e'"
      "job_tracking e' = assoc_put (corr_of msg) (new_job cx tnow identity tframe mframe msg) (job_tracking e)"
      "pending_jobs e' = assoc_put (corr_of msg) identity (pending_jobs e)"
  | (sent) hid e' where "hid \<in> set (available (event msg) (interned (event msg) e))"
      "handle_request cx tnow identity tframe mframe msg e = ([[str_bytes hid, [], tframe, mframe]], e')"
      "wf_engine e'"
      "job_tracking e' = assoc_put (corr_of msg) ((new_job cx tnow identity tframe mframe msg)
         \<lparr>handler_id := hid, dispatch_time := tnow\<rparr>) (job_tracking e)"
      "pending_jobs e' = assoc_put (corr_of msg) identity (pending_jobs e)"
proof -
  let ?t = "event msg" and ?i = "new_job cx tnow identity tframe mframe msg" and ?e1 = "interned (event msg) e"
  obtain tid where tid: "intern ?t (intern_table e) = (tid, intern_table ?e1)"
    "map_of (string_to_id (intern_table ?e1)) ?t = Some tid" and wf1: "wf_engine ?e1"
    by (rule interned_step [OF wf room])
  have e1: "e\<lparr>intern_table := intern_table ?e1\<rparr> = ?e1" by (simp add: interned_def)
  have "available_of tid ?t ?e1 = available_of tid ?t e" "handlers_of tid ?e1 = handlers_of tid e" by (simp_all add: interned_def)
  with available_interned [OF tid(2)] have av: "available_of tid ?t e = available ?t ?e1"
    and hs: "handlers_of tid e = listed ?e1 HANDLE ?t" by simp_all
  obtain wt rt where wrt: "request_timeouts cx msg = (wt, rt)" by force
  note ev = handle_request_def tid(1) wrt Let_def e1 av hs
  have ok: "job_ok ?e1 (?i\<lparr>handler_id := h, dispatch_time := d\<rparr>)" if "h = [] \<or> h \<in> keys (modules e)" for h d
    using that tid(2) by (auto simp: job_ok_def new_job_def)
  consider "listed ?e1 HANDLE ?t = []" | "listed ?e1 HANDLE ?t \<noteq> []" "available ?t ?e1 = []" | "available ?t ?e1 \<noteq> []"
    by blast
  then show thesis
  proof cases
    case 1
    moreover from this have "available ?t ?e1 = []" by (simp add: available_def)
    ultimately show thesis using wf1 by (intro none) (simp_all add: ev)
  next
    case 2
    have "job_ok ?e1 ?i" using tid(2) by (simp add: job_ok_def new_job_def default_tracking_def)
    from wf_engine_track [OF wf1 this refl, where rr = "job_round_robin ?e1" and c = "corr_of msg"] 2 show thesis
      by (intro waits [of "snd (handle_request cx tnow identity tframe mframe msg e)"]) (simp_all add: ev new_job_def track_swap)
  next
    case 3
    have "length (available ?t ?e1) < 2 ^ 64" using available_len [OF small, of tid ?t] av by simp
    with 3 obtain hid rr where nh: "next_handler tid (available ?t ?e1) ?e1 = (hid, ?e1\<lparr>job_round_robin := rr\<rparr>)"
      "hid \<in> set (available ?t ?e1)"
      by (rule next_handler_spec)
    then have "hid \<in> keys (modules e)"
      using handler_registered [OF wf, of hid tid] hs by (simp add: available_def)
    with ok have "job_ok ?e1 (?i\<lparr>handler_id := hid, dispatch_time := tnow\<rparr>)" by blast
    from wf_engine_track [OF wf1 this refl, where rr = rr and c = "corr_of msg"] 3 nh show thesis
      by (intro sent [of hid "snd (handle_request cx tnow identity tframe mframe msg e)"])
        (simp_all add: ev new_job_def default_tracking_def)
  qed
qed

section \<open>The router's invariant\<close>

lemma handlers_small_modules:
  assumes "wf_engine e" and "card (keys (modules e)) < 2 ^ 64"
  shows "handlers_small e"
  unfolding handlers_small_def
proof
  fix tid
  show "length (handlers_of tid e) < 2 ^ 64"
  proof (cases "map_of (job_handlers e) tid")
    case (Some hs)
    from wf_table_member [OF wf_engineD(6) [OF assms(1)] Some]
    have "length hs \<le> card (keys (modules e))"
      by (metis card_mono distinct_card finite_imageI finite_set)
    with assms(2) Some show ?thesis by (simp add: handlers_of_def)
  qed (simp add: handlers_of_def)
qed

definition wf_router :: "env \<Rightarrow> engine \<Rightarrow> bool" where
  "wf_router env e \<longleftrightarrow> wf_engine e \<and> handlers_small e \<and>
     (\<forall>c i. map_of (job_tracking e) c = Some i \<longrightarrow> (\<exists>m. decode (env_cx env) (message_frame i) = Some (Some m)))"

lemma wf_routerD:
  assumes "wf_router env e"
  shows "wf_engine e" "handlers_small e" "intern_wf (intern_table e)" "wf_jobs e"
    "map_of (job_tracking e) c = Some i \<Longrightarrow> \<exists>tid. map_of (string_to_id (intern_table e)) (jt_topic i) = Some tid"
    "map_of (job_tracking e) c = Some i \<Longrightarrow> map_of (pending_jobs e) c = Some (requester_id i)"
    "map_of (job_tracking e) c = Some i \<Longrightarrow> job_ok e i"
  using assms by (auto simp: wf_router_def wf_engine_def wf_jobs_def job_ok_def)

text \<open>Moving a tracked job keeps the invariant.\<close>

lemma wf_router_retrack:
  assumes wf: "wf_router env e" and i: "map_of (job_tracking e) c = Some i" and "job_ok e ti"
    and "requester_id ti = requester_id i" and "message_frame ti = message_frame i"
  shows "wf_router env (e\<lparr>job_round_robin := rr, unavailable_handlers := uh,
    job_tracking := assoc_put c ti (assoc_del c (job_tracking e))\<rparr>)" (is "wf_router env ?e")
proof -
  have "wf_jobs ?e" using wf_jobs_retrack [OF wf_routerD(4) [OF wf] i assms(3,4)] .
  then have "wf_engine ?e"
    using wf_engineD(1,2) [OF wf_routerD(1) [OF wf]] by (intro wf_engine_jobs [OF wf_routerD(1) [OF wf]]) simp_all
  moreover have "handlers_small ?e" using wf by (simp add: wf_router_def handlers_small_def handlers_of_def)
  ultimately show ?thesis
    using wf i assms(5) by (auto simp: wf_router_def)
qed

lemma available_registered:
  assumes "wf_engine e" and "map_of (string_to_id (intern_table e)) topic = Some tid"
    and "h \<in> set (available topic e)"
  shows "h \<in> keys (modules e)"
  using handler_registered [OF assms(1), of h tid] assms(3) available_interned(2) [OF assms(2)]
  by (simp add: available_def)

section \<open>Timeouts\<close>

lemma available_tracking [simp]:
  "available topic (e\<lparr>job_tracking := jt\<rparr>) = available topic e"
  "available topic (e\<lparr>job_round_robin := rr\<rparr>) = available topic e"
  "available topic (e\<lparr>pending_jobs := pj\<rparr>) = available topic e"
  "is_handler_available (e\<lparr>job_tracking := jt\<rparr>) h topic = is_handler_available e h topic"
  "is_handler_available (e\<lparr>job_round_robin := rr\<rparr>) h topic = is_handler_available e h topic"
  by (simp_all add: available_def is_handler_available_def listed_def pattern_table_def)

text \<open>A run timeout is a retry in the engine that has forgotten the job and marked its handler.\<close>

definition timed_out :: "string \<Rightarrow> job_tracking_info \<Rightarrow> engine \<Rightarrow> engine" where
  "timed_out c info e = e\<lparr>job_tracking := assoc_del c (job_tracking e),
     unavailable_handlers := unavailable_handlers (add_unavailable (handler_id info) (jt_topic info) e)\<rparr>"

lemma timed_out_marks: "\<not> is_handler_available (timed_out c info e) (handler_id info) (jt_topic info)"
  by (simp add: timed_out_def is_handler_available_def add_unavailable_def)

lemma run_timeout_retries:
  assumes "map_of (job_tracking e) c = Some info" "handler_id info \<noteq> []"
  shows "process_timeout env tnow c ''run_timeout'' e =
    (let (ok, info', out, e3) = retry_job tnow c info (timed_out c info e)
     in if ok then Some (out, e3)
        else Some (out, e3\<lparr>job_tracking := assoc_put c (info'\<lparr>handler_id := [], dispatch_time := 0\<rparr>) (job_tracking e3)\<rparr>))"
  using assms by (simp add: process_timeout_def timed_out_def add_unavailable_def Let_def)

lemma run_timeout_cases:
  assumes wf: "wf_router env e" and i: "map_of (job_tracking e) c = Some info" and h: "handler_id info \<noteq> []"
  obtains out e' where "process_timeout env tnow c ''run_timeout'' e = Some (out, e')" "wf_router env e'"
    "pending_jobs e' = pending_jobs e" "\<not> is_handler_available e' (handler_id info) (jt_topic info)"
    "(\<exists>h'. h' \<noteq> handler_id info \<and> h' \<in> set (available (jt_topic info) e') \<and>
        out = [[str_bytes h', [], topic_frame info, message_frame info]] \<and>
        map_of (job_tracking e') c = Some (info\<lparr>handler_id := h', dispatch_time := tnow\<rparr>)) \<or>
     (available (jt_topic info) e' = [] \<and> out = [] \<and>
        map_of (job_tracking e') c = Some (info\<lparr>handler_id := [], dispatch_time := 0\<rparr>))"
proof -
  let ?t = "jt_topic info"
  define uh where "uh = unavailable_handlers (add_unavailable (handler_id info) ?t e)"
  let ?e2 = "e\<lparr>job_tracking := assoc_del c (job_tracking e), unavailable_handlers := uh\<rparr>"
  have e2: "timed_out c info e = ?e2" by (simp add: timed_out_def uh_def)
  note na = timed_out_marks [of c info e, unfolded e2] and pt = run_timeout_retries [OF i h, of env tnow, unfolded e2]
  obtain tid where tid: "map_of (string_to_id (intern_table e)) ?t = Some tid"
    using wf_routerD(5) [OF wf i] by blast
  have ok: "job_ok e (info\<lparr>handler_id := x, dispatch_time := d\<rparr>)" if "x = [] \<or> x \<in> keys (modules e)" for x d
    using that tid by (auto simp: job_ok_def)
  have tid2: "map_of (string_to_id (intern_table ?e2)) ?t = Some tid" using tid by simp
  have wf2: "intern_wf (intern_table ?e2)" "handlers_small ?e2"
    using wf_routerD(2,3) [OF wf] by simp_all
  from tid2 wf2 show thesis
  proof (cases rule: retry_job_cases [where tnow = tnow and c = c])
    case none
    let ?e' = "e\<lparr>job_round_robin := job_round_robin e, unavailable_handlers := uh,
      job_tracking := assoc_put c (info\<lparr>handler_id := [], dispatch_time := 0\<rparr>) (assoc_del c (job_tracking e))\<rparr>"
    have eq: "?e2\<lparr>job_tracking := assoc_put c (info\<lparr>handler_id := [], dispatch_time := 0\<rparr>)
        (job_tracking ?e2)\<rparr> = ?e'" by simp
    have wf': "wf_router env ?e'"
      by (rule wf_router_retrack [OF wf i]) (use ok [of "[]"] in simp_all)
    have "process_timeout env tnow c ''run_timeout'' e = Some ([], ?e')"
      unfolding pt none(2) by (simp only: Let_def prod.case if_False eq)
    moreover have "available ?t ?e' = []" "\<not> is_handler_available ?e' (handler_id info) ?t"
      using none(1) na by (simp_all add: available_def is_handler_available_def listed_def pattern_table_def)
    ultimately show thesis
      using wf' by (intro that [of "[]" ?e']) simp_all
  next
    case (sent hid rr)
    let ?i' = "info\<lparr>handler_id := hid, dispatch_time := tnow\<rparr>"
    let ?e' = "e\<lparr>job_round_robin := rr, unavailable_handlers := uh,
      job_tracking := assoc_put c ?i' (assoc_del c (job_tracking e))\<rparr>"
    have eq: "?e2\<lparr>job_round_robin := rr, job_tracking := assoc_put c ?i' (job_tracking ?e2)\<rparr> = ?e'" by simp
    have "hid \<in> set (listed e HANDLE ?t)"
      using sent(1) by (simp add: available_def listed_def pattern_table_def)
    then have "hid \<in> keys (modules e)"
      using handler_registered [OF wf_routerD(1) [OF wf], of hid tid] available_interned(2) [OF tid] by simp
    then have wf': "wf_router env ?e'"
      using wf_router_retrack [OF wf i, of ?i'] ok [of hid] by simp
    have "process_timeout env tnow c ''run_timeout'' e =
        Some ([[str_bytes hid, [], topic_frame info, message_frame info]], ?e')"
      unfolding pt sent(2) by (simp only: Let_def prod.case if_True eq)
    moreover have "hid \<in> set (available ?t ?e')" "\<not> is_handler_available ?e' (handler_id info) ?t"
      using sent(1) na by (simp_all add: available_def is_handler_available_def listed_def pattern_table_def)
    moreover from this have "hid \<noteq> handler_id info" by (auto simp: available_def)
    ultimately show thesis
      using wf'
      by (intro that [of "[[str_bytes hid, [], topic_frame info, message_frame info]]" ?e']) auto
  qed
qed

lemma wf_router_forget:
  assumes wf: "wf_router env e"
  shows "wf_router env (e\<lparr>job_tracking := assoc_del c (job_tracking e), dead_letters := dl,
    pending_jobs := assoc_del c (pending_jobs e)\<rparr>)" (is "wf_router env ?e")
proof -
  have "wf_jobs ?e" using wf_jobs_forget [OF wf_routerD(4) [OF wf], where c = c and dl = dl] by (simp add: wf_jobs_def job_ok_def)
  then have "wf_engine ?e"
    using wf_engineD(1,2) [OF wf_routerD(1) [OF wf]] by (intro wf_engine_jobs [OF wf_routerD(1) [OF wf]]) simp_all
  moreover have "handlers_small ?e" using wf by (simp add: wf_router_def handlers_small_def handlers_of_def)
  ultimately show ?thesis using wf by (auto simp: wf_router_def)
qed

text \<open>A timeout that is not a running handler's: the requester gets an error and the job is gone;
  a waiting job that ran out of time is kept as a dead letter.\<close>

lemma error_timeout_cases:
  assumes wf: "wf_router env e" and i: "map_of (job_tracking e) c = Some info"
    and r: "reason \<noteq> ''run_timeout'' \<or> handler_id info = []"
  obtains e' m where "process_timeout env tnow c reason e =
      Some ([[requester_id info, [], topic_frame info,
        serialize (env_cx env) (timeout_error (jt_topic info) reason c)]], e')" "wf_router env e'"
    "pending_jobs e' = assoc_del c (pending_jobs e)" "job_tracking e' = assoc_del c (job_tracking e)"
    "decode (env_cx env) (message_frame info) = Some (Some m)"
    "dead_letters e' = (if reason = ''wait_timeout''
       then persist (env_fmt env) (env_today env) (env_stamp env) (env_can_open env) m (jt_topic info)
         ''wait_timeout'' (dead_letters e) else dead_letters e)"
proof -
  obtain m where m: "decode (env_cx env) (message_frame info) = Some (Some m)"
    using wf i by (auto simp: wf_router_def)
  define dl where "dl = (if reason = ''wait_timeout''
    then persist (env_fmt env) (env_today env) (env_stamp env) (env_can_open env) m (jt_topic info)
      ''wait_timeout'' (dead_letters e) else dead_letters e)"
  let ?e' = "e\<lparr>job_tracking := assoc_del c (job_tracking e), dead_letters := dl,
    pending_jobs := assoc_del c (pending_jobs e)\<rparr>"
  have "process_timeout env tnow c reason e =
      Some ([[requester_id info, [], topic_frame info,
        serialize (env_cx env) (timeout_error (jt_topic info) reason c)]], ?e')"
    using i r m by (auto simp: process_timeout_def dead_letter_def dl_def Let_def)
  with wf_router_forget [OF wf, of c dl] m show thesis
    by (intro that [of ?e' m]) (simp_all add: dl_def)
qed

section \<open>The ledger of pending jobs\<close>

text \<open>\<open>keeps_or_answers D e out e'\<close>: every job pending in \<open>e\<close> whose identifier is not in \<open>D\<close> is still
  pending for the same requester in \<open>e'\<close>, or its requester was sent a message.\<close>

definition answered :: "bytes \<Rightarrow> bytes list list \<Rightarrow> bool" where
  "answered r out \<longleftrightarrow> (\<exists>tf mf. [r, [], tf, mf] \<in> set out)"

definition keeps_or_answers :: "string set \<Rightarrow> engine \<Rightarrow> bytes list list \<Rightarrow> engine \<Rightarrow> bool" where
  "keeps_or_answers D e out e' \<longleftrightarrow>
     (\<forall>c r. map_of (pending_jobs e) c = Some r \<and> c \<notin> D \<longrightarrow>
        map_of (pending_jobs e') c = Some r \<or> answered r out)"

lemma answered_append [simp]: "answered r (a @ b) \<longleftrightarrow> answered r a \<or> answered r b"
  by (auto simp: answered_def)

lemma keeps_refl [simp]: "pending_jobs e' = pending_jobs e \<Longrightarrow> keeps_or_answers D e out e'"
  by (simp add: keeps_or_answers_def)

lemma keeps_trans:
  assumes "keeps_or_answers D e1 o1 e2" and "keeps_or_answers D e2 o2 e3"
  shows "keeps_or_answers D e1 (o1 @ o2) e3"
  using assms unfolding keeps_or_answers_def by (metis answered_append)

lemma process_timeout_step:
  assumes wf: "wf_router env e"
  obtains out e' where "process_timeout env tnow c reason e = Some (out, e')" "wf_router env e'"
    "keeps_or_answers {} e out e'"
proof (cases "map_of (job_tracking e) c")
  case None
  with wf show thesis by (intro that [of "[]" e]) (simp_all add: process_timeout_def)
next
  case (Some info)
  show thesis
  proof (cases "reason = ''run_timeout'' \<and> handler_id info \<noteq> []")
    case True
    with run_timeout_cases [OF wf Some, of tnow] that show thesis by (metis keeps_refl)
  next
    case False
    then have r: "reason \<noteq> ''run_timeout'' \<or> handler_id info = []" by blast
    obtain e' where e': "process_timeout env tnow c reason e =
        Some ([[requester_id info, [], topic_frame info,
          serialize (env_cx env) (timeout_error (jt_topic info) reason c)]], e')" "wf_router env e'"
      "pending_jobs e' = assoc_del c (pending_jobs e)"
      by (rule error_timeout_cases [OF wf Some r, of tnow])
    have "map_of (pending_jobs e) c = Some (requester_id info)" by (rule wf_routerD(6) [OF wf Some])
    with e'(3) have "keeps_or_answers {} e [[requester_id info, [], topic_frame info,
        serialize (env_cx env) (timeout_error (jt_topic info) reason c)]] e'"
      by (auto simp: keeps_or_answers_def answered_def)
    with e' that show thesis by blast
  qed
qed

lemma process_timeouts_step:
  assumes "wf_router env e"
  shows "\<exists>out e'. process_timeouts env tnow evs e = Some (out, e') \<and> wf_router env e' \<and>
    keeps_or_answers {} e out e'"
  using assms
proof (induction evs arbitrary: e)
  case (Cons ev evs)
  obtain c reason where ev: "ev = (c, reason)" by force
  obtain o1 e1 where "process_timeout env tnow c reason e = Some (o1, e1)" "wf_router env e1"
    "keeps_or_answers {} e o1 e1"
    by (rule process_timeout_step [OF Cons.prems, of tnow c reason])
  moreover from Cons.IH [OF this(2)] obtain o2 e2 where
    "process_timeouts env tnow evs e1 = Some (o2, e2)" "wf_router env e2" "keeps_or_answers {} e1 o2 e2"
    by blast
  ultimately show ?case using ev keeps_trans by fastforce
qed simp

section \<open>Recovery\<close>

text \<open>What is promised to a waiting job: a handler that is available gets it, and it is tracked as dispatched.\<close>

definition dispatched :: "time \<Rightarrow> engine \<Rightarrow> bytes list list \<Rightarrow> engine \<Rightarrow> string \<times> job_tracking_info \<Rightarrow> bool" where
  "dispatched tnow e out e' p \<longleftrightarrow> (available (jt_topic (snd p)) e \<noteq> [] \<longrightarrow> (\<exists>h \<in> set (available (jt_topic (snd p)) e).
     [str_bytes h, [], topic_frame (snd p), message_frame (snd p)] \<in> set out \<and>
     map_of (job_tracking e') (fst p) = Some ((snd p)\<lparr>handler_id := h, dispatch_time := tnow\<rparr>)))"

lemma dispatch_waiting_step:
  assumes wf: "wf_router env e" and i: "map_of (job_tracking e) c = Some info"
  obtains out' e' where "dispatch_waiting tnow (c, info) (out, e) = (out @ out', e')" "wf_router env e'"
    "pending_jobs e' = pending_jobs e"
    "\<forall>x. x \<noteq> c \<longrightarrow> map_of (job_tracking e') x = map_of (job_tracking e) x"
    "dispatched tnow e out' e' (c, info)" "\<forall>topic. available topic e' = available topic e"
proof -
  let ?e1 = "e\<lparr>job_tracking := assoc_del c (job_tracking e)\<rparr>"
  obtain tid where tid: "map_of (string_to_id (intern_table e)) (jt_topic info) = Some tid"
    using wf_routerD(5) [OF wf i] by blast
  have tid1: "map_of (string_to_id (intern_table ?e1)) (jt_topic info) = Some tid" using tid by simp
  have wf1: "intern_wf (intern_table ?e1)" "handlers_small ?e1"
    using wf_routerD(2,3) [OF wf] by simp_all
  from tid1 wf1 show thesis
  proof (cases rule: retry_job_cases [where tnow = tnow and c = c])
    case none
    let ?e' = "e\<lparr>job_round_robin := job_round_robin e, unavailable_handlers := unavailable_handlers e,
      job_tracking := assoc_put c info (assoc_del c (job_tracking e))\<rparr>"
    have wf': "wf_router env ?e'"
      by (rule wf_router_retrack [OF wf i wf_routerD(7) [OF wf i]]) simp_all
    have "dispatch_waiting tnow (c, info) (out, e) = (out @ [], ?e')"
      using none(2) by (simp add: dispatch_waiting_def Let_def)
    with wf' none(1) show thesis by (intro that [of "[]" ?e']) (simp_all add: dispatched_def)
  next
    case (sent hid rr)
    let ?i' = "info\<lparr>handler_id := hid, dispatch_time := tnow\<rparr>"
    let ?e' = "e\<lparr>job_round_robin := rr, unavailable_handlers := unavailable_handlers e,
      job_tracking := assoc_put c ?i' (assoc_del c (job_tracking e))\<rparr>"
    let ?o = "[[str_bytes hid, [], topic_frame info, message_frame info]]"
    have hid: "hid \<in> set (available (jt_topic info) e)" using sent(1) by simp
    then have "hid \<in> keys (modules e)"
      by (rule available_registered [OF wf_routerD(1) [OF wf] tid])
    then have "job_ok e ?i'" using tid by (simp add: job_ok_def)
    then have wf': "wf_router env ?e'"
      by (rule wf_router_retrack [OF wf i]) simp_all
    have "dispatch_waiting tnow (c, info) (out, e) = (out @ ?o, ?e')"
      using sent(2) by (simp add: dispatch_waiting_def Let_def)
    with wf' hid show thesis by (intro that [of ?o ?e']) (simp_all add: dispatched_def bexI [of _ hid] del: set_filter)
  qed
qed

lemma dispatch_all:
  assumes "wf_router env e" and "distinct (map fst ws)"
    and "\<And>c i. (c, i) \<in> set ws \<Longrightarrow> map_of (job_tracking e) c = Some i"
  shows "\<exists>out' e'. fold (dispatch_waiting tnow) ws (out, e) = (out @ out', e') \<and> wf_router env e' \<and>
    pending_jobs e' = pending_jobs e \<and>
    (\<forall>x. x \<notin> keys ws \<longrightarrow> map_of (job_tracking e') x = map_of (job_tracking e) x) \<and>
    (\<forall>p \<in> set ws. dispatched tnow e out' e' p)"
  using assms
proof (induction ws arbitrary: e out)
  case (Cons w ws)
  obtain c i where w: "w = (c, i)" by force
  have ci: "map_of (job_tracking e) c = Some i" using Cons.prems(3) w by simp
  obtain o1 e1 where s: "dispatch_waiting tnow (c, i) (out, e) = (out @ o1, e1)" "wf_router env e1"
    "pending_jobs e1 = pending_jobs e" "\<forall>x. x \<noteq> c \<longrightarrow> map_of (job_tracking e1) x = map_of (job_tracking e) x"
    "dispatched tnow e o1 e1 (c, i)" "\<forall>topic. available topic e1 = available topic e"
    by (rule dispatch_waiting_step [OF Cons.prems(1) ci, of tnow out])
  have c: "c \<notin> keys ws" using Cons.prems(2) w by simp
  have tr: "map_of (job_tracking e1) x = Some y" if "(x, y) \<in> set ws" for x y
    using that c s(4) Cons.prems(3) [of x y] by (cases "x = c") (auto simp: image_iff)
  have "distinct (map fst ws)" using Cons.prems(2) by simp
  from Cons.IH [OF s(2) this tr, of "out @ o1"] obtain o2 e2 where
    r: "fold (dispatch_waiting tnow) ws (out @ o1, e1) = (out @ o1 @ o2, e2)" "wf_router env e2"
      "pending_jobs e2 = pending_jobs e1" "\<forall>x. x \<notin> keys ws \<longrightarrow> map_of (job_tracking e2) x = map_of (job_tracking e1) x"
      "\<forall>p \<in> set ws. dispatched tnow e1 o2 e2 p"
    by auto
  have "dispatched tnow e (o1 @ o2) e2 (c, i)" using s(5) r(4) c by (auto simp: dispatched_def)
  moreover have "dispatched tnow e (o1 @ o2) e2 p" if "p \<in> set ws" for p
    using that r(5) s(6) by (fastforce simp: dispatched_def)
  ultimately show ?case
    using s r w by (intro exI [of _ "o1 @ o2"] exI [of _ e2]) auto
qed simp

lemma process_recovery_step:
  assumes wf: "wf_router env e"
  shows "\<exists>out e'. process_recovery tnow ev e = (out, e') \<and> wf_router env e' \<and>
    pending_jobs e' = pending_jobs e \<and>
    (\<forall>c i. map_of (job_tracking e) c = Some i \<and> handler_id i = [] \<and> jt_topic i \<in> set (snd ev) \<and>
       available (jt_topic i) e \<noteq> [] \<longrightarrow> (\<exists>h \<in> set (available (jt_topic i) e).
       [str_bytes h, [], topic_frame i, message_frame i] \<in> set out \<and>
       map_of (job_tracking e') c = Some (i\<lparr>handler_id := h, dispatch_time := tnow\<rparr>)))"
proof -
  let ?ws = "waiting_jobs (snd ev) e"
  have dist: "distinct (map fst (job_tracking e))" using wf_routerD(4) [OF wf] by (simp add: wf_jobs_def)
  then have "distinct (map fst ?ws)" by (simp add: waiting_jobs_def distinct_map_filter)
  moreover have "map_of (job_tracking e) c = Some i" if "(c, i) \<in> set ?ws" for c i
    using that dist by (simp add: waiting_jobs_def)
  ultimately obtain out e' where "fold (dispatch_waiting tnow) ?ws ([], e) = ([] @ out, e')" "wf_router env e'"
    "pending_jobs e' = pending_jobs e"
    "\<forall>p \<in> set ?ws. dispatched tnow e out e' p"
    using dispatch_all [OF wf, of ?ws tnow "[]"] by blast
  moreover have "(c, i) \<in> set ?ws"
    if "map_of (job_tracking e) c = Some i \<and> handler_id i = [] \<and> jt_topic i \<in> set (snd ev)" for c i
    using that by (simp add: waiting_jobs_def map_of_SomeD)
  ultimately show ?thesis unfolding process_recovery_def dispatched_def by fastforce
qed

lemma process_recoveries_step:
  assumes "wf_router env e"
  shows "\<exists>out e'. process_recoveries tnow evs e = (out, e') \<and> wf_router env e' \<and>
    pending_jobs e' = pending_jobs e"
  using assms
proof (induction evs arbitrary: e)
  case (Cons ev evs)
  obtain o1 e1 where "process_recovery tnow ev e = (o1, e1)" "wf_router env e1" "pending_jobs e1 = pending_jobs e"
    using process_recovery_step [OF Cons.prems, of tnow ev] by blast
  with Cons.IH [of e1] show ?case by (auto simp: Let_def)
qed simp

section \<open>Receiving\<close>

text \<open>The identifiers under which a received request is filed; a request that reuses the identifier
  of a pending job takes its place.\<close>

definition request_ids :: "env \<Rightarrow> bytes list \<Rightarrow> string set" where
  "request_ids env fs =
     (if length fs < 4 then {}
      else case decode (env_cx env) (fs ! 3) of
        Some (Some msg) \<Rightarrow> if msg_type msg = REQUEST then {corr_of msg} else {}
      | _ \<Rightarrow> {})"

definition message_total :: "env \<Rightarrow> bytes list \<Rightarrow> bool" where
  "message_total env fs \<longleftrightarrow> 4 \<le> length fs \<longrightarrow> decode (env_cx env) (fs ! 3) \<noteq> None"

lemma handlers_small_interned: "handlers_small (interned t e) = handlers_small e"
  by (simp add: handlers_small_def handlers_of_def interned_def)

lemma handle_request_handlers:
  "handle_request cx tnow identity tframe mframe msg e = (out, e') \<Longrightarrow> job_handlers e' = job_handlers e"
  by (auto simp: handle_request_def next_handler_def Let_def split: prod.splits if_splits)

lemma handle_request_step:
  assumes wf: "wf_router env e" and room: "intern_room (intern_table e) 1"
    and dec: "decode (env_cx env) mframe = Some (Some msg)"
  obtains out e' where "handle_request (env_cx env) tnow identity tframe mframe msg e = (out, e')"
    "wf_router env e'" "keeps_or_answers {corr_of msg} e out e'"
proof -
  note hr = handle_request_cases [OF wf_routerD(1) [OF wf] room wf_routerD(2) [OF wf],
    where msg = msg and cx = "env_cx env" and tnow = tnow and identity = identity
    and tframe = tframe and mframe = mframe]
  obtain out e' where h: "handle_request (env_cx env) tnow identity tframe mframe msg e = (out, e')" by force
  have small: "handlers_small e'"
    using wf_routerD(2) [OF wf] handle_request_handlers [OF h] by (simp add: handlers_small_def handlers_of_def)
  have frame: "message_frame ((new_job (env_cx env) tnow identity tframe mframe msg)
      \<lparr>handler_id := x, dispatch_time := y\<rparr>) = mframe" 
    "message_frame (new_job (env_cx env) tnow identity tframe mframe msg) = mframe" for x y
    by (simp_all add: new_job_def)
  have "wf_router env e' \<and> keeps_or_answers {corr_of msg} e out e'"
  proof (cases rule: hr)
    case 1
    then have "e' = interned (event msg) e" using h by simp
    with 1 wf small show ?thesis
      by (simp add: wf_router_def keeps_or_answers_def interned_def)
  next
    case (2 e'')
    with wf small h dec frame show ?thesis
      by (auto simp: wf_router_def keeps_or_answers_def)
  next
    case (3 hid e'')
    with wf small h dec frame show ?thesis
      by (auto simp: wf_router_def keeps_or_answers_def)
  qed
  with h that show thesis by blast
qed

lemma handle_response_step:
  assumes wf: "wf_router env e"
  obtains out e' where "handle_response tframe mframe msg e = (out, e')"
    "wf_router env e'" "keeps_or_answers {} e out e'" "intern_table e' = intern_table e"
proof (cases "map_of (pending_jobs e) (corr_of msg)")
  case None
  with wf show thesis by (intro that [of "[]" e]) (simp_all add: handle_response_def)
next
  case (Some r)
  let ?c = "corr_of msg"
  let ?e' = "e\<lparr>pending_jobs := assoc_del ?c (pending_jobs e), job_tracking := assoc_del ?c (job_tracking e)\<rparr>"
  have "?e' = e\<lparr>job_tracking := assoc_del ?c (job_tracking e), dead_letters := dead_letters e,
    pending_jobs := assoc_del ?c (pending_jobs e)\<rparr>" by simp
  then have "wf_router env ?e'" using wf_router_forget [OF wf] by metis
  moreover have "keeps_or_answers {} e [[r, [], tframe, mframe]] ?e'"
    using Some by (auto simp: keeps_or_answers_def answered_def)
  ultimately show thesis
    using Some by (intro that [of "[[r, [], tframe, mframe]]" ?e']) (simp_all add: handle_response_def)
qed

lemma router_receive_step:
  assumes wf: "wf_router env e" and room: "intern_room (intern_table e) 1" and tot: "message_total env fs"
  obtains out e' where "router_receive env tnow fs e = Some (out, e')"
    "wf_router env e'" "keeps_or_answers (request_ids env fs) e out e'"
proof (cases "length fs < 4 \<or> decode (env_cx env) (fs ! 3) = Some None")
  case True
  with wf show thesis by (intro that [of "[]" e]) (auto simp: router_receive_def)
next
  case False
  then obtain msg where dec: "decode (env_cx env) (fs ! 3) = Some (Some msg)"
    using tot by (auto simp: message_total_def)
  note rr = router_receive_def request_ids_def
  consider "msg_type msg = REQUEST" | "msg_type msg = RESPONSE" | "msg_type msg \<noteq> REQUEST" "msg_type msg \<noteq> RESPONSE"
    by blast
  then show thesis
  proof cases
    case 1
    obtain out e' where "handle_request (env_cx env) tnow (fs ! 0) (fs ! 2) (fs ! 3) msg e = (out, e')"
      "wf_router env e'" "keeps_or_answers {corr_of msg} e out e'"
      by (rule handle_request_step [OF wf room dec])
    with 1 False dec show thesis by (intro that [of out e']) (simp_all add: rr)
  next
    case 2
    obtain out e' where "handle_response (fs ! 2) (fs ! 3) msg e = (out, e')"
      "wf_router env e'" "keeps_or_answers {} e out e'"
      by (rule handle_response_step [OF wf])
    with 2 False dec show thesis by (intro that [of out e']) (simp_all add: rr)
  next
    case 3
    with False dec wf show thesis by (intro that [of "[]" e]) (simp_all add: rr)
  qed
qed

lemma wf_router_events [simp]:
  "wf_router env (e\<lparr>job_timeout_events := te\<rparr>) = wf_router env e"
  "wf_router env (e\<lparr>recovery_events := re\<rparr>) = wf_router env e"
  by (simp_all add: wf_router_def wf_engine_def handlers_small_def handlers_of_def wf_jobs_def job_ok_def)

lemma router_iteration_step:
  assumes wf: "wf_router env e" and room: "intern_room (intern_table e) 1"
    and tot: "\<And>fs. received = Some fs \<Longrightarrow> message_total env fs"
  obtains out e' where "router_iteration env tnow received e = Some (out, e')" "wf_router env e'"
    "keeps_or_answers (case received of None \<Rightarrow> {} | Some fs \<Rightarrow> request_ids env fs) e out e'"
proof -
  let ?D = "case received of None \<Rightarrow> {} | Some fs \<Rightarrow> request_ids env fs"
  obtain o1 e1 where r1: "(case received of None \<Rightarrow> Some ([], e) | Some fs \<Rightarrow> router_receive env tnow fs e) = Some (o1, e1)"
    "wf_router env e1" "keeps_or_answers ?D e o1 e1"
  proof (cases received)
    case None
    with wf show thesis by (intro that [of "[]" e]) simp_all
  next
    case (Some fs)
    from wf room tot [OF Some] obtain o1 e1 where "router_receive env tnow fs e = Some (o1, e1)"
      "wf_router env e1" "keeps_or_answers (request_ids env fs) e o1 e1"
      by (rule router_receive_step)
    with Some that [of o1 e1] show thesis by simp
  qed
  let ?e1 = "e1\<lparr>job_timeout_events := []\<rparr>"
  have "wf_router env ?e1" using r1(2) by simp
  from process_timeouts_step [OF this, of tnow "job_timeout_events e1"] obtain o2 e2 where
    r2: "process_timeouts env tnow (job_timeout_events e1) ?e1 = Some (o2, e2)" "wf_router env e2"
      "keeps_or_answers {} ?e1 o2 e2" by blast
  let ?e2 = "e2\<lparr>recovery_events := []\<rparr>"
  have "wf_router env ?e2" using r2(2) by simp
  from process_recoveries_step [OF this, of tnow "recovery_events e2"] obtain o3 e3 where
    r3: "process_recoveries tnow (recovery_events e2) ?e2 = (o3, e3)" "wf_router env e3"
      "pending_jobs e3 = pending_jobs e2" by auto
  have "keeps_or_answers ?D e (o1 @ o2 @ o3) e3"
    unfolding keeps_or_answers_def
  proof (intro allI impI)
    fix c r assume cr: "map_of (pending_jobs e) c = Some r \<and> c \<notin> ?D"
    have "map_of (pending_jobs e1) c = Some r \<or> answered r o1"
      using cr r1(3) unfolding keeps_or_answers_def by blast
    moreover have "map_of (pending_jobs e2) c = Some r \<or> answered r o2" if "map_of (pending_jobs e1) c = Some r"
      using that r2(3) unfolding keeps_or_answers_def by simp
    ultimately show "map_of (pending_jobs e3) c = Some r \<or> answered r (o1 @ o2 @ o3)"
      by (auto simp: r3(3))
  qed
  moreover have "router_iteration env tnow received e = Some (o1 @ o2 @ o3, e3)"
    using r1(1) r2(1) r3(1) by (simp add: router_iteration_def)
  ultimately show thesis using that r3(2) by blast
qed

section \<open>Overdue jobs\<close>

lemma retry_job_other:
  assumes "retry_job tnow c' info e = (ok, i', out, e')" and "c \<noteq> c'"
  shows "map_of (job_tracking e') c = map_of (job_tracking e) c" "pending_jobs e' = pending_jobs e"
  using assms by (auto simp: retry_job_def next_handler_def Let_def split: prod.splits if_splits)

lemma dead_letter_other:
  "dead_letter env mf t r e = Some e' \<Longrightarrow> job_tracking e' = job_tracking e \<and> pending_jobs e' = pending_jobs e"
  by (auto simp: dead_letter_def split: option.splits)

lemma process_timeout_other:
  assumes pt: "process_timeout env tnow c' reason e = Some (out, e')" and c: "c \<noteq> c'"
  shows "map_of (job_tracking e') c = map_of (job_tracking e) c \<and>
    map_of (pending_jobs e') c = map_of (pending_jobs e) c"
proof (cases "map_of (job_tracking e) c'")
  case None
  with pt show ?thesis by (simp add: process_timeout_def)
next
  case (Some info)
  let ?e1 = "e\<lparr>job_tracking := assoc_del c' (job_tracking e)\<rparr>"
  show ?thesis
  proof (cases "reason = ''run_timeout'' \<and> handler_id info \<noteq> []")
    case True
    obtain ok i' o' e3 where r: "retry_job tnow c' info (add_unavailable (handler_id info) (jt_topic info) ?e1)
        = (ok, i', o', e3)" by (metis prod_cases4)
    from retry_job_other [OF r c] have "map_of (job_tracking e3) c = map_of (job_tracking e) c"
      "pending_jobs e3 = pending_jobs e"
      using c by (simp_all add: add_unavailable_def)
    with pt Some True r c show ?thesis
      by (auto simp: process_timeout_def Let_def split: if_splits)
  next
    case False
    with pt Some c dead_letter_other [of env "message_frame info" "jt_topic info" "''wait_timeout''" ?e1]
    show ?thesis by (auto simp: process_timeout_def Let_def split: if_splits bind_splits)
  qed
qed

lemma process_timeouts_other:
  "process_timeouts env tnow evs e = Some (out, e') \<Longrightarrow> c \<notin> fst ` set evs \<Longrightarrow>
     map_of (job_tracking e') c = map_of (job_tracking e) c \<and>
     map_of (pending_jobs e') c = map_of (pending_jobs e) c"
proof (induction env tnow evs e arbitrary: out rule: process_timeouts.induct)
  case (2 env tnow c' reason evs e)
  from "2.prems"(1) obtain o1 e1 o2 where "process_timeout env tnow c' reason e = Some (o1, e1)"
    "process_timeouts env tnow evs e1 = Some (o2, e')"
    by (auto split: bind_splits)
  with 2 process_timeout_other [OF this(1), of c] show ?case by simp
qed simp

lemma waiting_job_answered:
  assumes "wf_router env e" and "distinct (map fst evs)" and "(c, reason) \<in> set evs"
    and "map_of (job_tracking e) c = Some i" and "handler_id i = []"
  shows "\<exists>out e'. process_timeouts env tnow evs e = Some (out, e') \<and>
    [requester_id i, [], topic_frame i, serialize (env_cx env) (timeout_error (jt_topic i) reason c)] \<in> set out \<and>
    map_of (job_tracking e') c = None \<and> map_of (pending_jobs e') c = None"
  using assms
proof (induction evs arbitrary: e)
  case (Cons ev evs)
  obtain c' r' where ev: "ev = (c', r')" by force
  obtain o1 e1 where s1: "process_timeout env tnow c' r' e = Some (o1, e1)" "wf_router env e1"
    by (rule process_timeout_step [OF Cons.prems(1), of tnow c' r'])
  show ?case
  proof (cases "c' = c")
    case True
    then have "r' = reason" using Cons.prems(2,3) ev by (force simp: image_iff)
    with Cons.prems(5) have "reason \<noteq> ''run_timeout'' \<or> handler_id i = []" by simp
    then obtain e2 where e2: "process_timeout env tnow c reason e =
        Some ([[requester_id i, [], topic_frame i,
          serialize (env_cx env) (timeout_error (jt_topic i) reason c)]], e2)" "wf_router env e2"
      "pending_jobs e2 = assoc_del c (pending_jobs e)" "job_tracking e2 = assoc_del c (job_tracking e)"
      by (rule error_timeout_cases [OF Cons.prems(1,4), of reason tnow])
    from process_timeouts_step [OF e2(2), of tnow evs] obtain o3 e3 where
      e3: "process_timeouts env tnow evs e2 = Some (o3, e3)" by blast
    have "c \<notin> fst ` set evs" using Cons.prems(2) ev True by simp
    from process_timeouts_other [OF e3 this] e2(1,3,4) e3 ev True \<open>r' = reason\<close> show ?thesis by simp
  next
    case False
    have t: "map_of (job_tracking e1) c = Some i"
      using process_timeout_other [OF s1(1), of c] Cons.prems(4) False by simp
    have "distinct (map fst evs)" "(c, reason) \<in> set evs" using Cons.prems(2,3) ev False by auto
    from Cons.IH [OF s1(2) this t Cons.prems(5)] s1(1) ev show ?thesis by fastforce
  qed
qed simp

definition overdue_events :: "time \<Rightarrow> (string \<times> job_tracking_info) list \<Rightarrow> (string \<times> string) list" where
  "overdue_events tnow js =
     concat (map (\<lambda>(c, info). case job_overdue tnow info of None \<Rightarrow> [] | Some r \<Rightarrow> [(c, r)]) js)"

lemma overdue_events_simps [simp]:
  "overdue_events tnow [] = []"
  "overdue_events tnow ((c, i) # js) =
     (case job_overdue tnow i of None \<Rightarrow> [] | Some r \<Rightarrow> [(c, r)]) @ overdue_events tnow js"
  by (simp_all add: overdue_events_def)

lemma overdue_events_keys: "(c, r) \<in> set (overdue_events tnow js) \<Longrightarrow> c \<in> keys js"
  by (induction js) (auto split: option.splits)

lemma overdue_events_iff:
  "distinct (map fst js) \<Longrightarrow>
     (c, r) \<in> set (overdue_events tnow js) \<longleftrightarrow> (\<exists>i. map_of js c = Some i \<and> job_overdue tnow i = Some r)"
proof (induction js)
  case (Cons j js)
  obtain c' i' where j: "j = (c', i')" by force
  have "(c', r) \<notin> set (overdue_events tnow js)" using Cons.prems j overdue_events_keys by fastforce
  with Cons j show ?case by (auto split: option.splits)
qed simp

lemma overdue_events_distinct:
  "distinct (map fst js) \<Longrightarrow> distinct (map fst (overdue_events tnow js))"
proof (induction js)
  case (Cons j js)
  obtain c' i' where j: "j = (c', i')" by force
  have "c' \<notin> keys (overdue_events tnow js)" using Cons.prems j overdue_events_keys by fastforce
  with Cons j show ?case by (simp split: option.split)
qed simp

lemma job_timeout_pass_events:
  "job_timeout_pass tnow e =
     e\<lparr>job_timeout_events := job_timeout_events e @ overdue_events tnow (job_tracking e)\<rparr>"
  by (simp add: job_timeout_pass_def overdue_events_def)

section \<open>Round robin\<close>

text \<open>The handlers that \<open>k\<close> successive dispatches of a topic pick from the same available handlers.\<close>

primrec picks :: "intern_id \<Rightarrow> string list \<Rightarrow> nat \<Rightarrow> engine \<Rightarrow> string list" where
  "picks tid av 0 e = []"
| "picks tid av (Suc k) e = (let (h, e') = next_handler tid av e in h # picks tid av k e')"

definition rr_start :: "intern_id \<Rightarrow> engine \<Rightarrow> nat" where
  "rr_start tid e = (case map_of (job_round_robin e) tid of Some r \<Rightarrow> unat r | None \<Rightarrow> 0)"

lemma rr_shift: "Suc (a mod n + x) mod n = Suc (a + x) mod (n :: nat)"
  by (metis add_Suc mod_Suc_eq mod_add_left_eq)

lemma picks_rotate:
  assumes "av \<noteq> []" and "length av < 2 ^ 64"
  shows "picks tid av k e = map (\<lambda>i. av ! ((rr_start tid e + i) mod length av)) [0..<k]"
proof (induction k arbitrary: e)
  case (Suc k)
  let ?rr = "case map_of (job_round_robin e) tid of Some r \<Rightarrow> r | None \<Rightarrow> 0"
  let ?idx = "?rr mod word_of_nat (length av) :: u64"
  define e' where "e' = e\<lparr>job_round_robin := assoc_put tid (?idx + 1) (job_round_robin e)\<rparr>"
  have nh: "next_handler tid av e = (av ! unat ?idx, e')" by (simp add: next_handler_def e'_def Let_def)
  have rr: "unat ?rr = rr_start tid e" by (simp add: rr_start_def split: option.split)
  have idx: "unat ?idx = rr_start tid e mod length av" using next_handler_index [OF assms, of ?rr] rr by simp
  then have "unat ?idx + 1 \<le> length av" using assms(1) by (simp add: Suc_leI)
  then have "unat (?idx + 1) = unat ?idx + 1"
    using assms(2) by (simp add: unat_word_ariths(1))
  then have start: "rr_start tid e' = rr_start tid e mod length av + 1"
    using idx by (simp add: e'_def rr_start_def)
  have "picks tid av (Suc k) e = av ! (rr_start tid e mod length av) #
      map (\<lambda>i. av ! ((rr_start tid e mod length av + 1 + i) mod length av)) [0..<k]"
    by (simp add: nh idx Suc.IH start)
  also have "\<dots> = map (\<lambda>i. av ! ((rr_start tid e + i) mod length av)) [0..<Suc k]"
    by (simp add: upt_conv_Cons map_Suc_upt [symmetric] rr_shift del: upt_Suc)
  finally show ?case .
qed simp

lemma picks_all:
  assumes "av \<noteq> []" and "length av < 2 ^ 64" and "distinct av"
  shows "distinct (picks tid av (length av) e)" "set (picks tid av (length av) e) = set av"
proof -
  let ?p = "\<lambda>i. av ! ((rr_start tid e + i) mod length av)"
  have pos: "0 < length av" using assms(1) by simp
  show d: "distinct (picks tid av (length av) e)"
  proof -
    have "inj_on ?p {0..<length av}"
    proof (rule inj_onI)
      fix i j assume ij: "i \<in> {0..<length av}" "j \<in> {0..<length av}" and eq: "?p i = ?p j"
      have "(rr_start tid e + i) mod length av = (rr_start tid e + j) mod length av"
        using eq assms(3) pos by (simp add: nth_eq_iff_index_eq)
      then show "i = j" by (rule ring_inj) (use ij in simp_all)
    qed
    then show ?thesis by (simp add: picks_rotate [OF assms(1,2)] distinct_map)
  qed
  have "length (picks tid av (length av) e) = length av" by (simp add: picks_rotate [OF assms(1,2)])
  then have "card (set (picks tid av (length av) e)) = card (set av)"
    using d assms(3) by (simp add: distinct_card)
  moreover have "set (picks tid av (length av) e) \<subseteq> set av"
    using pos by (auto simp: picks_rotate [OF assms(1,2)])
  ultimately show "set (picks tid av (length av) e) = set av" by (simp add: card_subset_eq)
qed

end
