(* ===== verification/Engine_Events.thy ===== *)
theory Engine_Events
  imports Job_Router
begin

text \<open>
  The event path of \<^verbatim>\<open>engine.cpp\<close>: injecting events, enqueueing what the XSUB socket receives,
  the proxy's batch, the egress worker that drains the queues and files expired events as dead
  letters, and the monitor's pass that drops silent modules and collects idle queues.  Clock
  readings are arguments; the egress worker takes many and gets them as a sequence.
\<close>

section \<open>Injecting and enqueueing\<close>

definition put_item :: "queue_ref \<Rightarrow> queue_item \<Rightarrow> engine \<Rightarrow> engine option" where
  "put_item q item e =
     do { (ok, tq) \<leftarrow> tq_put item (sm_heap (topic_queues e) ! q);
          Some (e\<lparr>topic_queues := (topic_queues e)\<lparr>sm_heap := (sm_heap (topic_queues e))[q := tq]\<rparr>\<rparr>) }"

definition touch_topic :: "string \<Rightarrow> time \<Rightarrow> engine \<Rightarrow> engine" where
  "touch_topic topic tnow e = e\<lparr>topic_queues := touch topic tnow (topic_queues e)\<rparr>"

definition inject_event :: "time \<Rightarrow> time \<Rightarrow> string \<Rightarrow> bytes \<Rightarrow> engine \<Rightarrow> engine option" where
  "inject_event t1 t2 topic message_data e =
     (let fs = [frame_new (str_bytes topic), frame_new message_data];
          (q, e1) = ensure_queue topic e
      in do { e2 \<leftarrow> put_item q \<lparr>enqueue_time = t1, frames = fs\<rparr> e1;
              Some ((touch_topic topic t2 e2)\<lparr>egress_wakeup_flag := True\<rparr>) })"

definition inject_event_raw :: "time \<Rightarrow> time \<Rightarrow> string \<Rightarrow> bytes \<Rightarrow> nat \<Rightarrow> engine \<Rightarrow> engine option" where
  "inject_event_raw t1 t2 topic raw sz e =
     (let fs = [frame_new (str_bytes topic), frame_new (take sz raw)];
          (q, e1) = ensure_queue topic e
      in do { e2 \<leftarrow> put_item q \<lparr>enqueue_time = t1, frames = fs\<rparr> e1;
              Some ((touch_topic topic t2 e2)\<lparr>egress_wakeup_flag := True\<rparr>) })"

definition MAX_FRAMES :: nat where
  "MAX_FRAMES = 4"

text \<open>Each frame is move-assigned into the array on the stack and copied from there.\<close>

definition fixed_frame :: "bytes \<Rightarrow> frame" where
  "fixed_frame bs = frame_copy (fst (frame_move_assign frame_default (frame_new bs)))"

definition enqueue_from_xsub :: "time \<Rightarrow> time \<Rightarrow> bytes list \<Rightarrow> engine \<Rightarrow> engine option" where
  "enqueue_from_xsub t1 t2 fs e =
     (if length fs < 2 then Some e
      else
        let topic = bytes_str (fs ! 0);
            (q, e1) = (case get_raw topic (topic_queues e) of Some q \<Rightarrow> (q, e) | None \<Rightarrow> ensure_queue topic e);
            n = min (length fs) MAX_FRAMES;
            fixed = map fixed_frame (take n fs)
        in do { e2 \<leftarrow> put_item q \<lparr>enqueue_time = t1, frames = fixed\<rparr> e1;
                Some ((touch_topic topic t2 e2)\<lparr>egress_wakeup_flag := True\<rparr>) })"

text \<open>The proxy's batch: every message is forwarded to the XPUB socket and enqueued; it ends at the
  first empty receive.\<close>

fun proxy_events :: "time \<Rightarrow> time \<Rightarrow> bytes list list \<Rightarrow> engine \<Rightarrow> (bytes list list \<times> nat \<times> engine) option" where
  "proxy_events t1 t2 [] e = Some ([], 0, e)"
| "proxy_events t1 t2 (fs # rest) e =
     (if fs = [] then Some ([], 0, e)
      else do { e1 \<leftarrow> enqueue_from_xsub t1 t2 fs e;
                (out, n, e2) \<leftarrow> proxy_events t1 t2 rest e1;
                Some (fs # out, n + 1, e2) })"

definition proxy_batch :: "time \<Rightarrow> time \<Rightarrow> bytes list list \<Rightarrow> engine \<Rightarrow> (bytes list list \<times> engine) option" where
  "proxy_batch t1 t2 received e =
     do { (out, batch, e1) \<leftarrow> proxy_events t1 t2 received e;
          Some (out, if batch > 0 then e1\<lparr>event_count := event_count e1 + word_of_nat batch\<rparr> else e1) }"

section \<open>Egress\<close>

text \<open>\<^verbatim>\<open>fr[0]\<close> on an item without frames is undefined.\<close>

definition expire_item :: "env \<Rightarrow> string \<Rightarrow> queue_item \<Rightarrow> engine \<Rightarrow> engine option" where
  "expire_item env topic item e =
     (case frames item of [] \<Rightarrow> None
      | f # fs \<Rightarrow> dead_letter env (to_vector (if fs \<noteq> [] then hd fs else f)) topic ''broadcast_ttl_expired'' e)"

text \<open>Draining one queue; \<open>n\<close> counts the clock readings taken so far, \<open>had\<close> is \<^verbatim>\<open>had_work\<close>.\<close>

partial_function (option) egress_drain :: "env \<Rightarrow> (nat \<Rightarrow> time) \<Rightarrow> string \<Rightarrow> queue_ref \<Rightarrow>
    bool \<times> nat \<times> engine \<Rightarrow> (bool \<times> nat \<times> engine) option" where
  "egress_drain env clk topic q s =
     (case s of (had, n, e) \<Rightarrow>
        (case tq_get (sm_heap (topic_queues e) ! q) of (r, tq) \<Rightarrow>
          (let e1 = e\<lparr>topic_queues := (topic_queues e)\<lparr>sm_heap := (sm_heap (topic_queues e))[q := tq]\<rparr>\<rparr>
           in case r of
                None \<Rightarrow> Some (had, n, e1)
              | Some item \<Rightarrow>
                  (if clk n - enqueue_time item > broadcast_ttl e1
                   then expire_item env topic item e1 else Some e1) \<bind>
                  (\<lambda>e2. egress_drain env clk topic q (True, n + 2, touch_topic topic (clk (n + 1)) e2)))))"

fun egress_queues :: "env \<Rightarrow> (nat \<Rightarrow> time) \<Rightarrow> (string \<times> queue_ref) list \<Rightarrow> bool \<times> nat \<times> engine \<Rightarrow>
    (bool \<times> nat \<times> engine) option" where
  "egress_queues env clk [] s = Some s"
| "egress_queues env clk ((topic, q) # qs) s =
     do { s1 \<leftarrow> egress_drain env clk topic q s; egress_queues env clk qs s1 }"

definition egress_pass :: "env \<Rightarrow> (nat \<Rightarrow> time) \<Rightarrow> engine \<Rightarrow> (bool \<times> nat \<times> engine) option" where
  "egress_pass env clk e = egress_queues env clk (snapshot (topic_queues e)) (False, 0, e)"

section \<open>The monitor\<close>

definition active_topics :: "engine \<Rightarrow> string list" where
  "active_topics e =
     map (\<lambda>(tid, _). resolve_id tid (intern_table e)) (filter (\<lambda>(_, ms). ms \<noteq> []) (topic_subscribers e)) @
     map (\<lambda>(tid, _). resolve_id tid (intern_table e)) (filter (\<lambda>(_, ms). ms \<noteq> []) (topic_producers e))"

definition collect_queue :: "time \<Rightarrow> string list \<Rightarrow> string \<times> queue_ref \<Rightarrow> engine \<Rightarrow> engine" where
  "collect_queue tnow active tq e =
     (if fst tq \<in> set active then e
      else
        let last0 = last_access (fst tq) (topic_queues e);
            last = (if last0 = 0 then tnow else last0)
        in if tnow - last > topic_queue_ttl e
           then e\<lparr>topic_queues := erase_topic (fst tq) (topic_queues e)\<rparr> else e)"

definition monitor_pass :: "time \<Rightarrow> engine \<Rightarrow> engine" where
  "monitor_pass tnow e =
     (let (expired, hb) = hb_tick_all (heartbeats e);
          e1 = fold unregister_module expired (e\<lparr>heartbeats := hb\<rparr>)
      in fold (collect_queue tnow (active_topics e1)) (snapshot (topic_queues e1)) e1)"

section \<open>Contents of the queues\<close>

definition content :: "sharded_map \<Rightarrow> string \<Rightarrow> queue_item list" where
  "content m topic = (case find_queue topic m of None \<Rightarrow> [] | Some q \<Rightarrow> tq_list (sm_heap m ! q))"

definition room_of :: "sharded_map \<Rightarrow> string \<Rightarrow> nat" where
  "room_of m topic = (case find_queue topic m of None \<Rightarrow> 0 | Some q \<Rightarrow> tq_slots (sm_heap m ! q))"

lemma find_queue_set_heap [simp]: "find_queue t (m\<lparr>sm_heap := hs\<rparr>) = find_queue t m"
  by (simp add: find_queue_def bucket_index_def)

lemma snapshot_set_heap [simp]: "snapshot (m\<lparr>sm_heap := hs\<rparr>) = snapshot m"
  by (simp add: snapshot_def)

lemma last_access_set_heap [simp]: "last_access t (m\<lparr>sm_heap := hs\<rparr>) = last_access t m"
  by (simp add: last_access_def bucket_index_def)

lemma sm_wf_set_heap: "sm_wf m \<Longrightarrow> length hs = length (sm_heap m) \<Longrightarrow> sm_wf (m\<lparr>sm_heap := hs\<rparr>)"
  by (simp add: sm_wf_def bucket_index_def)

lemma wf_queues_set:
  assumes "wf_queues e" and "tq_inv tq" and "tq_strategy tq = DROP_OLDEST"
  shows "wf_queues (e\<lparr>topic_queues := (topic_queues e)\<lparr>sm_heap := (sm_heap (topic_queues e))[q := tq]\<rparr>\<rparr>)"
  using assms set_update_subset_insert [of "sm_heap (topic_queues e)" q tq]
  by (auto simp: wf_queues_def separate_def capacity_arg_def intro!: sm_wf_set_heap)

lemma wf_queues_touch: "wf_queues e \<Longrightarrow> wf_queues (touch_topic t tnow e)"
  by (simp add: wf_queues_def touch_topic_def separate_def capacity_arg_def touch_spec)

lemma put_item_spec:
  assumes wf: "wf_queues e" and q: "q < length (sm_heap (topic_queues e))"
  defines "old \<equiv> sm_heap (topic_queues e) ! q"
  shows "\<exists>tq. put_item q item e = Some (e\<lparr>topic_queues := (topic_queues e)\<lparr>sm_heap := (sm_heap (topic_queues e))[q := tq]\<rparr>\<rparr>) \<and>
    tq_inv tq \<and> tq_strategy tq = DROP_OLDEST \<and> tq_slots tq = tq_slots old \<and>
    tq_list tq = (if length (tq_list old) < tq_slots old then tq_list old else tl (tq_list old)) @ [item]"
proof -
  have old: "tq_inv old" "tq_strategy old = DROP_OLDEST" using wf q by (simp_all add: wf_queues_def old_def)
  with push_overwrite_spec [of "tq_buffer old" item] show ?thesis
    by (auto simp: put_item_def tq_put_def old_def [symmetric] tq_inv_def tq_list_def tq_slots_def)
qed

text \<open>Putting an item in the queue of a topic, touching the topic and waking the egress worker.\<close>

lemma deliver_spec:
  assumes wf: "wf_queues e" and q: "find_queue topic (topic_queues e) = Some q"
  shows "\<exists>m. (put_item q item e \<bind> (\<lambda>e2. Some ((touch_topic topic t2 e2)\<lparr>egress_wakeup_flag := True\<rparr>))) =
      Some (e\<lparr>topic_queues := m, egress_wakeup_flag := True\<rparr>) \<and>
    wf_queues (e\<lparr>topic_queues := m\<rparr>) \<and> last_access topic m = t2 \<and>
    content m topic =
      (if length (content (topic_queues e) topic) < room_of (topic_queues e) topic then content (topic_queues e) topic else tl (content (topic_queues e) topic)) @ [item] \<and>
    (\<forall>t. t \<noteq> topic \<longrightarrow> content m t = content (topic_queues e) t)"
proof -
  let ?h = "sm_heap (topic_queues e)"
  have sm: "sm_wf (topic_queues e)" using wf by (simp add: wf_queues_def)
  have lt: "q < length ?h" by (rule find_queue_heap [OF sm q])
  from put_item_spec [OF wf lt, of item] obtain tq where
    tq: "put_item q item e = Some (e\<lparr>topic_queues := (topic_queues e)\<lparr>sm_heap := ?h[q := tq]\<rparr>\<rparr>)" "tq_inv tq"
      "tq_strategy tq = DROP_OLDEST"
      "tq_list tq = (if length (tq_list (?h ! q)) < tq_slots (?h ! q) then tq_list (?h ! q) else tl (tq_list (?h ! q))) @ [item]"
    by blast
  define m1 where "m1 = (topic_queues e)\<lparr>sm_heap := ?h[q := tq]\<rparr>"
  let ?m = "touch topic t2 m1"
  have wf1: "wf_queues (e\<lparr>topic_queues := m1\<rparr>)" unfolding m1_def by (rule wf_queues_set [OF wf tq(2,3)])
  then have sm1: "sm_wf m1" by (simp add: wf_queues_def)
  have wfm: "wf_queues (e\<lparr>topic_queues := ?m\<rparr>)"
    using wf_queues_touch [OF wf1, of topic t2] by (simp add: touch_topic_def)
  have fq: "find_queue t ?m = find_queue t (topic_queues e)" for t
    using touch_spec(2) [OF sm1, of t topic t2] by (simp add: m1_def)
  have heap: "sm_heap ?m = ?h[q := tq]" using touch_spec(3) [OF sm1, of topic t2] by (simp add: m1_def)
  have "content ?m t = content (topic_queues e) t" if t: "t \<noteq> topic" for t
  proof -
    have "find_queue t (topic_queues e) \<noteq> Some q" using wf q t by (auto simp: wf_queues_def separate_def)
    then have "(?h[q := tq]) ! r = ?h ! r" if "find_queue t (topic_queues e) = Some r" for r
      using that by (metis nth_list_update_neq)
    then show ?thesis by (simp add: content_def fq heap split: option.split)
  qed
  moreover have "content ?m topic =
      (if length (content (topic_queues e) topic) < room_of (topic_queues e) topic
       then content (topic_queues e) topic else tl (content (topic_queues e) topic)) @ [item]"
    using q lt tq(4) by (simp add: content_def room_of_def fq heap)
  moreover have "(put_item q item e \<bind> (\<lambda>e2. Some ((touch_topic topic t2 e2)\<lparr>egress_wakeup_flag := True\<rparr>))) =
      Some (e\<lparr>topic_queues := ?m, egress_wakeup_flag := True\<rparr>)"
    by (simp add: tq(1) touch_topic_def m1_def)
  ultimately show ?thesis
    using wfm touch_spec(4) [OF sm1, of topic topic t2] by auto
qed

lemma ensure_queue_contents:
  assumes wf: "wf_queues e" and en: "ensure_queue topic e = (q, e1)"
  shows "\<exists>m. e1 = e\<lparr>topic_queues := m\<rparr> \<and> wf_queues e1 \<and> find_queue topic m = Some q \<and>
    content (topic_queues e1) = content (topic_queues e) \<and> (find_queue topic (topic_queues e) \<noteq> None \<longrightarrow> room_of (topic_queues e1) topic = room_of (topic_queues e) topic)"
proof (cases "find_queue topic (topic_queues e)")
  case None
  have sm: "sm_wf (topic_queues e)" using wf by (simp add: wf_queues_def)
  from get_or_create_miss [OF sm None, of "capacity_arg e" None] obtain m out' where
    m: "get_or_create topic (capacity_arg e) None (topic_queues e) =
        (length (sm_heap (topic_queues e)), out', m)"
      "\<And>x. find_queue x m = (if x = topic then Some (length (sm_heap (topic_queues e)))
        else find_queue x (topic_queues e))"
      "sm_heap m = sm_heap (topic_queues e) @ [topic_queue_new (capacity_arg e) DROP_OLDEST]"
    by blast
  have e1: "e1 = e\<lparr>topic_queues := m\<rparr>" "q = length (sm_heap (topic_queues e))"
    using en m(1) by (auto simp: ensure_queue_def Let_def)
  have "wf_queues e1" using ensure_queue_spec [OF wf, of topic] en by auto
  moreover have "tq_list (topic_queue_new (capacity_arg e) DROP_OLDEST) = []"
    using wf by (simp add: wf_queues_def tq_new_inv)
  then have "content (topic_queues e1) t = content (topic_queues e) t" for t
    using None find_queue_heap [OF sm, of t]
    by (auto simp: content_def e1 m(2,3) nth_append split: option.split)
  ultimately show ?thesis using None e1 m(2) by (auto simp: fun_eq_iff)
next
  case (Some r)
  with en get_or_create_hit [OF Some, of "capacity_arg e" None] wf show ?thesis
    by (intro exI [of _ "topic_queues e"]) (auto simp: ensure_queue_def Let_def)
qed

text \<open>What becomes of the engine when an event of a topic arrives.\<close>

definition delivered :: "engine \<Rightarrow> string \<Rightarrow> queue_item \<Rightarrow> time \<Rightarrow> engine \<Rightarrow> bool" where
  "delivered e topic item t2 e' \<longleftrightarrow> wf_queues e' \<and> egress_wakeup_flag e' \<and> last_access topic (topic_queues e') = t2 \<and>
     (\<exists>m. e' = e\<lparr>topic_queues := m, egress_wakeup_flag := True\<rparr>) \<and>
     content (topic_queues e') topic = (if length (content (topic_queues e) topic) < room_of (topic_queues e) topic \<or> content (topic_queues e) topic = []
        then content (topic_queues e) topic else tl (content (topic_queues e) topic)) @ [item] \<and>
     (\<forall>t. t \<noteq> topic \<longrightarrow> content (topic_queues e') t = content (topic_queues e) t)"

lemma ensure_deliver:
  assumes wf: "wf_queues e" and en: "ensure_queue topic e = (q, e1)"
  shows "\<exists>e'. (put_item q item e1 \<bind> (\<lambda>e2. Some ((touch_topic topic t2 e2)\<lparr>egress_wakeup_flag := True\<rparr>))) = Some e' \<and>
    delivered e topic item t2 e'"
proof -
  from ensure_queue_contents [OF wf en] obtain m where
    m: "e1 = e\<lparr>topic_queues := m\<rparr>" "wf_queues e1" "find_queue topic m = Some q" "content (topic_queues e1) = content (topic_queues e)"
      "find_queue topic (topic_queues e) \<noteq> None \<longrightarrow> room_of (topic_queues e1) topic = room_of (topic_queues e) topic"
    by blast
  then have fq: "find_queue topic (topic_queues e1) = Some q" by simp
  have room: "find_queue topic (topic_queues e) = None \<Longrightarrow> content (topic_queues e) topic = []"
    by (simp add: content_def)
  from deliver_spec [OF m(2) fq, of item t2] obtain m2 where
    m2: "(put_item q item e1 \<bind> (\<lambda>e2. Some ((touch_topic topic t2 e2)\<lparr>egress_wakeup_flag := True\<rparr>))) =
        Some (e1\<lparr>topic_queues := m2, egress_wakeup_flag := True\<rparr>)"
      "wf_queues (e1\<lparr>topic_queues := m2\<rparr>)" "last_access topic m2 = t2"
      "content m2 topic =
        (if length (content (topic_queues e1) topic) < room_of (topic_queues e1) topic then content (topic_queues e1) topic else tl (content (topic_queues e1) topic)) @ [item]"
      "\<forall>t. t \<noteq> topic \<longrightarrow> content m2 t = content (topic_queues e1) t"
    by blast
  have e': "e1\<lparr>topic_queues := m2, egress_wakeup_flag := True\<rparr> = e\<lparr>topic_queues := m2, egress_wakeup_flag := True\<rparr>"
    by (simp add: m(1))
  have "delivered e topic item t2 (e1\<lparr>topic_queues := m2, egress_wakeup_flag := True\<rparr>)"
    unfolding delivered_def
  proof (intro conjI)
    have "content (topic_queues e) topic \<noteq> [] \<Longrightarrow> room_of m topic = room_of (topic_queues e) topic"
      using m(1,5) room by auto
    then show "content (topic_queues (e1\<lparr>topic_queues := m2, egress_wakeup_flag := True\<rparr>)) topic =
      (if length (content (topic_queues e) topic) < room_of (topic_queues e) topic \<or> content (topic_queues e) topic = []
        then content (topic_queues e) topic else tl (content (topic_queues e) topic)) @ [item]"
      using m2(4) m(1,4) by (cases "content (topic_queues e) topic = []") auto
    show "wf_queues (e1\<lparr>topic_queues := m2, egress_wakeup_flag := True\<rparr>)" using m2(2) by simp
    show "\<exists>m. e1\<lparr>topic_queues := m2, egress_wakeup_flag := True\<rparr> = e\<lparr>topic_queues := m, egress_wakeup_flag := True\<rparr>"
      using e' by blast
  qed (use m2(3,5) m(4) in simp_all)
  with m2(1) show ?thesis by blast
qed

lemma enqueue_deliver:
  assumes wf: "wf_queues e" and len: "2 \<le> length fs"
  shows "\<exists>e'. enqueue_from_xsub t1 t2 fs e = Some e' \<and>
    delivered e (bytes_str (fs ! 0)) \<lparr>enqueue_time = t1, frames = map fixed_frame (take MAX_FRAMES fs)\<rparr> t2 e'"
proof -
  let ?t = "bytes_str (fs ! 0)"
  obtain q e1 where en: "ensure_queue ?t e = (q, e1)" by force
  have "(case get_raw ?t (topic_queues e) of Some q \<Rightarrow> (q, e) | None \<Rightarrow> ensure_queue ?t e) = ensure_queue ?t e"
  proof (cases "find_queue ?t (topic_queues e)")
    case (Some r)
    with get_or_create_hit [OF Some, of "capacity_arg e" None] show ?thesis
      by (auto simp: get_raw_def find_queue_def ensure_queue_def Let_def)
  qed (simp add: get_raw_def find_queue_def)
  moreover have "take (min (length fs) MAX_FRAMES) fs = take MAX_FRAMES fs" by (simp add: min_def)
  ultimately show ?thesis
    using len ensure_deliver [OF wf en] by (simp add: enqueue_from_xsub_def en)
qed

lemma fixed_frame_bytes [simp]: "to_vector (fixed_frame bs) = bs" "frame_wf (fixed_frame bs)"
proof -
  obtain g h where mv: "frame_move_assign frame_default (frame_new bs) = (g, h)" by force
  from frame_move_wf [OF _ _ mv] have g: "frame_wf g" "to_vector g = bs" by simp_all
  with frame_assign_wf [of frame_default g] show "to_vector (fixed_frame bs) = bs" "frame_wf (fixed_frame bs)"
    by (simp_all add: fixed_frame_def frame_copy_def mv)
qed

section \<open>Egress\<close>

definition payload_frame :: "queue_item \<Rightarrow> bytes" where
  "payload_frame item = to_vector (if tl (frames item) \<noteq> [] then hd (tl (frames item)) else hd (frames item))"

definition item_ok :: "env \<Rightarrow> queue_item \<Rightarrow> bool" where
  "item_ok env item \<longleftrightarrow> frames item \<noteq> [] \<and> decode (env_cx env) (payload_frame item) \<noteq> None"

definition file_letter :: "env \<Rightarrow> string \<Rightarrow> queue_item \<Rightarrow> dead_letter_store \<Rightarrow> dead_letter_store" where
  "file_letter env topic item dl =
     (case decode (env_cx env) (payload_frame item) of
        Some (Some m) \<Rightarrow> persist (env_fmt env) (env_today env) (env_stamp env) (env_can_open env) m topic
          ''broadcast_ttl_expired'' dl
      | _ \<Rightarrow> dl)"

fun file_expired :: "env \<Rightarrow> (nat \<Rightarrow> time) \<Rightarrow> string \<Rightarrow> time \<Rightarrow> nat \<Rightarrow> queue_item list \<Rightarrow>
    dead_letter_store \<Rightarrow> dead_letter_store" where
  "file_expired env clk topic ttl n [] dl = dl"
| "file_expired env clk topic ttl n (item # items) dl =
     file_expired env clk topic ttl (n + 2) items
       (if clk n - enqueue_time item > ttl then file_letter env topic item dl else dl)"

lemma expire_item_ok:
  assumes "item_ok env item"
  shows "expire_item env topic item e = Some (e\<lparr>dead_letters := file_letter env topic item (dead_letters e)\<rparr>)"
proof (cases "frames item")
  case (Cons f fs)
  with assms show ?thesis
    by (cases fs) (auto simp: expire_item_def item_ok_def payload_frame_def dead_letter_def file_letter_def
      split: option.splits)
qed (use assms in \<open>simp add: item_ok_def\<close>)

lemma tq_get_cases:
  assumes "tq_inv tq"
  obtains (none) "tq_get tq = (None, tq)" "tq_list tq = []"
  | (some) item tq' where "tq_get tq = (Some item, tq')" "tq_list tq = item # tq_list tq'" "tq_inv tq'"
      "tq_strategy tq' = tq_strategy tq"
proof (cases "tq_list tq")
  case Nil
  with rb.take_none [of "tq_buffer tq"] assms show thesis
    by (intro none) (simp_all add: tq_inv_def tq_list_def tq_get_def)
next
  case (Cons x xs)
  with rb.take_some [of "tq_buffer tq" x xs] assms obtain rb' where
    "pop (tq_buffer tq) = (Some x, rb')" "ring_inv rb'" "ring_list rb' = xs"
    by (auto simp: tq_inv_def tq_list_def)
  with Cons show thesis
    by (intro some [of x "tq\<lparr>tq_buffer := rb', tq_processed := tq_processed tq + 1\<rparr>"])
      (simp_all add: tq_inv_def tq_list_def tq_get_def)
qed

lemma wf_queues_heap:
  "wf_queues e \<Longrightarrow> q < length (sm_heap (topic_queues e)) \<Longrightarrow>
     tq_inv (sm_heap (topic_queues e) ! q) \<and> tq_strategy (sm_heap (topic_queues e) ! q) = DROP_OLDEST"
  by (simp add: wf_queues_def)

text \<open>Two maps with the same topics whose heaps differ only at one reference.\<close>

definition drained :: "queue_ref \<Rightarrow> sharded_map \<Rightarrow> sharded_map \<Rightarrow> bool" where
  "drained q m m' \<longleftrightarrow> (\<forall>t. find_queue t m' = find_queue t m) \<and> length (sm_heap m') = length (sm_heap m) \<and>
     (\<forall>r. r \<noteq> q \<longrightarrow> sm_heap m' ! r = sm_heap m ! r)"

lemma drained_trans: "drained q m m1 \<Longrightarrow> drained q m1 m2 \<Longrightarrow> drained q m m2"
  by (simp add: drained_def)

lemma letters_queues_swap:
  "e\<lparr>dead_letters := dl, topic_queues := m\<rparr> = e\<lparr>topic_queues := m, dead_letters := dl\<rparr>"
  by simp

text \<open>One turn of the loop: the item is taken, filed when it has expired, and the topic's access time set.\<close>

lemma egress_drain_one:
  assumes "wf_queues e" and "q < length (sm_heap (topic_queues e))"
    and "tq_list (sm_heap (topic_queues e) ! q) = item # items" and "item_ok env item"
  obtains m where "egress_drain env clk topic q (had, n, e) = egress_drain env clk topic q (True, n + 2,
      e\<lparr>topic_queues := m, dead_letters := (if clk n - enqueue_time item > broadcast_ttl e
        then file_letter env topic item (dead_letters e) else dead_letters e)\<rparr>)"
    "wf_queues (e\<lparr>topic_queues := m\<rparr>)" "drained q (topic_queues e) m" "tq_list (sm_heap m ! q) = items"
proof -
  let ?h = "sm_heap (topic_queues e)"
  have inv: "tq_inv (?h ! q)" "tq_strategy (?h ! q) = DROP_OLDEST"
    using wf_queues_heap [OF assms(1,2)] by simp_all
  obtain tq where
    get: "tq_get (?h ! q) = (Some item, tq)" "tq_list tq = items" "tq_inv tq" "tq_strategy tq = DROP_OLDEST"
    by (rule tq_get_cases [OF inv(1)]) (use assms(3) inv(2) in auto)
  define m1 where "m1 = (topic_queues e)\<lparr>sm_heap := ?h[q := tq]\<rparr>"
  define m2 where "m2 = touch topic (clk (n + 1)) m1"
  have wf1: "wf_queues (e\<lparr>topic_queues := m1\<rparr>)"
    unfolding m1_def by (rule wf_queues_set [OF assms(1) get(3,4)])
  then have sm1: "sm_wf m1" by (simp add: wf_queues_def)
  have "wf_queues (e\<lparr>topic_queues := m2\<rparr>)"
    using wf_queues_touch [OF wf1, of topic "clk (n + 1)"] by (simp add: touch_topic_def m2_def)
  moreover have heap2: "sm_heap m2 = ?h[q := tq]" using touch_spec(3) [OF sm1] by (simp add: m2_def m1_def)
  moreover have "drained q (topic_queues e) m2"
    using touch_spec(2) [OF sm1] by (auto simp: drained_def heap2) (simp_all add: m2_def m1_def)
  ultimately show thesis using assms(2,4) get(1,2)
    by (intro that [of m2]) (subst egress_drain.simps,
      simp_all add: Let_def expire_item_ok touch_topic_def m2_def m1_def letters_queues_swap)
qed

lemma egress_drain_spec:
  assumes "wf_queues e" and "q < length (sm_heap (topic_queues e))"
    and "tq_list (sm_heap (topic_queues e) ! q) = items" and "\<forall>i \<in> set items. item_ok env i"
  shows "\<exists>m'. egress_drain env clk topic q (had, n, e) =
      Some (had \<or> items \<noteq> [], n + 2 * length items,
        e\<lparr>topic_queues := m', dead_letters := file_expired env clk topic (broadcast_ttl e) n items (dead_letters e)\<rparr>) \<and>
    wf_queues (e\<lparr>topic_queues := m'\<rparr>) \<and> drained q (topic_queues e) m' \<and> tq_list (sm_heap m' ! q) = []"
  using assms
proof (induction items arbitrary: had n e)
  case Nil
  let ?h = "sm_heap (topic_queues e)"
  have inv: "tq_inv (?h ! q)" using wf_queues_heap [OF Nil.prems(1,2)] by simp
  have get: "tq_get (?h ! q) = (None, ?h ! q)"
    by (rule tq_get_cases [OF inv]) (use Nil.prems(3) in auto)
  have "egress_drain env clk topic q (had, n, e) = Some (had, n, e)"
    by (subst egress_drain.simps) (simp add: get)
  with Nil.prems(1,3) show ?case
    by (intro exI [of _ "topic_queues e"]) (simp add: drained_def)
next
  case (Cons item items)
  let ?dl = "if clk n - enqueue_time item > broadcast_ttl e
    then file_letter env topic item (dead_letters e) else dead_letters e"
  have "item_ok env item" using Cons.prems(4) by simp
  with Cons.prems(1-3) obtain m where
    m: "egress_drain env clk topic q (had, n, e) = egress_drain env clk topic q (True, n + 2, e\<lparr>topic_queues := m, dead_letters := ?dl\<rparr>)"
      "wf_queues (e\<lparr>topic_queues := m\<rparr>)" "drained q (topic_queues e) m" "tq_list (sm_heap m ! q) = items"
    by (rule egress_drain_one)
  define e2 where "e2 = e\<lparr>topic_queues := m, dead_letters := ?dl\<rparr>"
  have "wf_queues e2" "q < length (sm_heap (topic_queues e2))" "tq_list (sm_heap (topic_queues e2) ! q) = items"
    using m(2-4) Cons.prems(2) by (simp_all add: e2_def drained_def)
  from Cons.IH [OF this, of True "n + 2"] Cons.prems(4) obtain m' where
    m': "egress_drain env clk topic q (True, n + 2, e2) =
        Some (True, n + 2 + 2 * length items,
          e2\<lparr>topic_queues := m', dead_letters := file_expired env clk topic (broadcast_ttl e2) (n + 2) items (dead_letters e2)\<rparr>)"
      "wf_queues (e2\<lparr>topic_queues := m'\<rparr>)" "drained q (topic_queues e2) m'" "tq_list (sm_heap m' ! q) = []"
    by auto
  have "wf_queues (e\<lparr>topic_queues := m'\<rparr>)" using m'(2) by (simp add: e2_def wf_queues_def capacity_arg_def)
  moreover have "drained q (topic_queues e) m'" using drained_trans [OF m(3)] m'(3) by (simp add: e2_def)
  ultimately show ?case using m(1) m'(1,4) by (intro exI [of _ m']) (simp add: e2_def)
qed

text \<open>The dead letters of a pass over several queues.\<close>

fun pass_letters :: "env \<Rightarrow> (nat \<Rightarrow> time) \<Rightarrow> time \<Rightarrow> topic_queue list \<Rightarrow> (string \<times> queue_ref) list \<Rightarrow> nat \<Rightarrow>
    dead_letter_store \<Rightarrow> dead_letter_store" where
  "pass_letters env clk ttl h [] n dl = dl"
| "pass_letters env clk ttl h ((t, q) # qs) n dl =
     pass_letters env clk ttl h qs (n + 2 * length (tq_list (h ! q)))
       (file_expired env clk t ttl n (tq_list (h ! q)) dl)"

lemma pass_letters_cong:
  "(\<And>t q. (t, q) \<in> set qs \<Longrightarrow> h ! q = h' ! q) \<Longrightarrow>
     pass_letters env clk ttl h qs n dl = pass_letters env clk ttl h' qs n dl"
proof (induction qs arbitrary: n dl)
  case (Cons p qs)
  obtain t q where p: "p = (t, q)" by force
  have "h ! q = h' ! q" using Cons.prems [of t q] p by simp
  moreover have "h ! q = h' ! q" if "(t, q) \<in> set qs" for t q using Cons.prems [of t q] that by simp
  ultimately show ?case using Cons.IH p by simp
qed simp

text \<open>Two maps with the same topics, where the queues of the second are empty or those of the first.\<close>

definition emptied :: "(string \<times> queue_ref) list \<Rightarrow> sharded_map \<Rightarrow> sharded_map \<Rightarrow> bool" where
  "emptied qs m m' \<longleftrightarrow> (\<forall>t. find_queue t m' = find_queue t m) \<and> (\<forall>(t, q) \<in> set qs. tq_list (sm_heap m' ! q) = []) \<and>
     (\<forall>r. r \<notin> snd ` set qs \<longrightarrow> sm_heap m' ! r = sm_heap m ! r)"

lemma emptied_Cons:
  "drained q m m1 \<Longrightarrow> tq_list (sm_heap m1 ! q) = [] \<Longrightarrow> emptied qs m1 m' \<Longrightarrow> q \<notin> snd ` set qs \<Longrightarrow> emptied ((t, q) # qs) m m'"
  by (auto simp: emptied_def drained_def)

lemma egress_queues_spec:
  assumes "wf_queues e" and "distinct (map snd qs)"
    and "\<forall>(t, q) \<in> set qs. q < length (sm_heap (topic_queues e)) \<and>
      (\<forall>i \<in> set (tq_list (sm_heap (topic_queues e) ! q)). item_ok env i)"
  shows "\<exists>had' n' m'. egress_queues env clk qs (had, n, e) =
      Some (had', n', e\<lparr>topic_queues := m', dead_letters :=
        pass_letters env clk (broadcast_ttl e) (sm_heap (topic_queues e)) qs n (dead_letters e)\<rparr>) \<and>
    (had' \<longleftrightarrow> had \<or> (\<exists>(t, q) \<in> set qs. tq_list (sm_heap (topic_queues e) ! q) \<noteq> [])) \<and>
    wf_queues (e\<lparr>topic_queues := m'\<rparr>) \<and> emptied qs (topic_queues e) m'"
  using assms
proof (induction qs arbitrary: had n e)
  case Nil
  then show ?case by (intro exI [of _ had] exI [of _ n] exI [of _ "topic_queues e"]) (simp add: emptied_def)
next
  case (Cons tq qs)
  let ?h = "sm_heap (topic_queues e)"
  obtain t q where tq: "tq = (t, q)" by force
  let ?had = "had \<or> tq_list (?h ! q) \<noteq> []" and ?n = "n + 2 * length (tq_list (?h ! q))"
    and ?dl = "file_expired env clk t (broadcast_ttl e) n (tq_list (?h ! q)) (dead_letters e)"
  have q: "q < length ?h" and ok: "\<forall>i \<in> set (tq_list (?h ! q)). item_ok env i"
    using Cons.prems(3) tq by simp_all
  from egress_drain_spec [OF Cons.prems(1) q refl ok, of clk t had n] obtain m1 where
    m1: "egress_drain env clk t q (had, n, e) = Some (?had, ?n, e\<lparr>topic_queues := m1, dead_letters := ?dl\<rparr>)"
      "wf_queues (e\<lparr>topic_queues := m1\<rparr>)" "drained q (topic_queues e) m1" "tq_list (sm_heap m1 ! q) = []"
    by blast
  define e1 where "e1 = e\<lparr>topic_queues := m1, dead_letters := ?dl\<rparr>"
  have q_out: "q \<notin> snd ` set qs" and d: "distinct (map snd qs)" using Cons.prems(2) tq by simp_all
  then have same: "sm_heap m1 ! r = ?h ! r" if "(x, r) \<in> set qs" for x r
    using that m1(3) by (force simp: drained_def)
  have wf1: "wf_queues e1" and tq1: "topic_queues e1 = m1" using m1(2) by (simp_all add: e1_def)
  have ok1: "\<forall>(t, q) \<in> set qs. q < length (sm_heap (topic_queues e1)) \<and>
      (\<forall>i \<in> set (tq_list (sm_heap (topic_queues e1) ! q)). item_ok env i)"
    using m1(3) Cons.prems(3) same by (auto simp: drained_def e1_def)
  from Cons.IH [OF wf1 d ok1, of ?had ?n] obtain had' n' m' where
    m': "egress_queues env clk qs (?had, ?n, e1) = Some (had', n', e1\<lparr>topic_queues := m', dead_letters :=
          pass_letters env clk (broadcast_ttl e1) (sm_heap m1) qs ?n (dead_letters e1)\<rparr>)"
      "had' \<longleftrightarrow> ?had \<or> (\<exists>(t, q) \<in> set qs. tq_list (sm_heap m1 ! q) \<noteq> [])"
      "wf_queues (e1\<lparr>topic_queues := m'\<rparr>)" "emptied qs m1 m'"
    unfolding tq1 by blast
  have letters: "pass_letters env clk (broadcast_ttl e) (sm_heap m1) qs n2 dl =
      pass_letters env clk (broadcast_ttl e) ?h qs n2 dl" for n2 dl
    by (rule pass_letters_cong) (rule same)
  have "had' \<longleftrightarrow> had \<or> (\<exists>(t, q) \<in> set (tq # qs). tq_list (?h ! q) \<noteq> [])"
    using m'(2) same tq by fastforce
  moreover have "wf_queues (e\<lparr>topic_queues := m'\<rparr>)"
    using m'(3) by (simp add: wf_queues_def capacity_arg_def e1_def)
  moreover have "egress_queues env clk (tq # qs) (had, n, e) = Some (had', n', e\<lparr>topic_queues := m', dead_letters :=
        pass_letters env clk (broadcast_ttl e) ?h (tq # qs) n (dead_letters e)\<rparr>)"
    using m1(1) m'(1) tq by (simp add: letters letters_queues_swap e1_def)
  ultimately show ?case using emptied_Cons [OF m1(3,4) m'(4) q_out, of t] tq by blast
qed

section \<open>The monitor\<close>

lemma unregister_heartbeats:
  assumes reg: "map_of (modules e) mid \<noteq> None"
  shows "unregister_module mid (e\<lparr>heartbeats := h\<rparr>) = (unregister_module mid e)\<lparr>heartbeats := hb_unregister mid h\<rparr>"
proof -
  have reg': "map_of (modules (e\<lparr>heartbeats := h\<rparr>)) mid \<noteq> None" using reg by simp
  show ?thesis unfolding unregister_module_def if_not_P [OF reg] if_not_P [OF reg'] by simp
qed

lemma unregister_all:
  assumes "wf_engine e" and "distinct mids" and "set mids \<subseteq> keys (modules e)"
  shows "wf_engine (fold unregister_module mids e) \<and>
    keys (modules (fold unregister_module mids e)) = keys (modules e) - set mids \<and>
    fold unregister_module mids (e\<lparr>heartbeats := h\<rparr>) =
      (fold unregister_module mids e)\<lparr>heartbeats := fold hb_unregister mids h\<rparr> \<and>
    topic_queues (fold unregister_module mids e) = topic_queues e \<and>
    pending_jobs (fold unregister_module mids e) = pending_jobs e \<and>
    topic_queue_ttl (fold unregister_module mids e) = topic_queue_ttl e \<and>
    (\<forall>c i. map_of (job_tracking (fold unregister_module mids e)) c = Some i \<longrightarrow>
       (\<exists>j. map_of (job_tracking e) c = Some j \<and> message_frame i = message_frame j))"
  using assms
proof (induction mids arbitrary: e h)
  case (Cons mid mids)
  have reg: "map_of (modules e) mid \<noteq> None" using Cons.prems(3) by (simp add: map_of_eq_None_iff)
  note u = unregister_module_spec [OF Cons.prems(1) reg]
  have k: "keys (modules (unregister_module mid e)) = keys (modules e) - {mid}"
    using reg by (auto simp: unregister_module_def)
  have "topic_queues (unregister_module mid e) = topic_queues e" by (simp add: unregister_module_def)
  moreover have "set mids \<subseteq> keys (modules (unregister_module mid e))" "distinct mids"
    unfolding k using Cons.prems(2,3) by auto
  note ih = Cons.IH [OF u(1) this(2,1), of "hb_unregister mid h"]
  ultimately have tq: "topic_queues (fold unregister_module mids (unregister_module mid e)) = topic_queues e"
    using ih by simp
  have ttl: "topic_queue_ttl (unregister_module mid e) = topic_queue_ttl e" by (simp add: unregister_module_def)
  have fr: "message_frame (release_job mid j) = message_frame j" for j by (simp add: release_job_def)
  have jobs: "\<exists>j. map_of (job_tracking e) c = Some j \<and> message_frame i = message_frame j"
    if "map_of (job_tracking (fold unregister_module mids (unregister_module mid e))) c = Some i" for c i
  proof -
    from ih that obtain j where "map_of (job_tracking (unregister_module mid e)) c = Some j"
      "message_frame i = message_frame j" by blast
    with u(5) [of c] fr show ?thesis by (cases "map_of (job_tracking e) c") simp_all
  qed
  show ?case
    unfolding fold_simps list.set unregister_heartbeats [OF reg] comp_def
    using ih tq jobs ttl unfolding k u(6) Diff_insert2 [of _ mid "set mids"] by (intro conjI) simp_all
qed simp

lemma hb_unregister_absent: "mid \<notin> keys (monitors h) \<Longrightarrow> hb_unregister mid h = h"
proof -
  assume "mid \<notin> keys (monitors h)"
  then have "filter (\<lambda>p. fst p \<noteq> mid) (monitors h) = monitors h" by (intro filter_True) auto
  then show ?thesis by (simp add: hb_unregister_def assoc_del_def)
qed

lemma fold_hb_unregister: "(\<forall>mid \<in> set mids. mid \<notin> keys (monitors h)) \<Longrightarrow> fold hb_unregister mids h = h"
  by (induction mids) (simp_all add: hb_unregister_absent)

lemma erase_last_access:
  assumes wf: "sm_wf m" and "x \<noteq> t"
  shows "last_access x (erase_topic t m) = last_access x m"
  using assms sm_wfD(1) [OF wf] by (simp add: last_access_def erase_topic_def Let_def nth_list_update map_of_filter_key)

definition stale :: "time \<Rightarrow> string list \<Rightarrow> engine \<Rightarrow> string \<Rightarrow> bool" where
  "stale tnow active e t \<longleftrightarrow> t \<notin> set active \<and> last_access t (topic_queues e) \<noteq> 0 \<and>
     tnow - last_access t (topic_queues e) > topic_queue_ttl e"

lemma collect_queue_eq:
  "0 \<le> topic_queue_ttl e \<Longrightarrow> collect_queue tnow active tq e =
     (if stale tnow active e (fst tq) then e\<lparr>topic_queues := erase_topic (fst tq) (topic_queues e)\<rparr> else e)"
  by (simp add: collect_queue_def stale_def Let_def)

lemma wf_queues_erase:
  "wf_queues e \<Longrightarrow> wf_queues (e\<lparr>topic_queues := erase_topic t (topic_queues e)\<rparr>)"
  by (simp add: wf_queues_def separate_def capacity_arg_def erase_topic_spec)

lemma collect_all:
  assumes "wf_queues e" and "0 \<le> topic_queue_ttl e" and "distinct (map fst qs)"
  shows "\<exists>m. fold (collect_queue tnow active) qs e = e\<lparr>topic_queues := m\<rparr> \<and> wf_queues (e\<lparr>topic_queues := m\<rparr>) \<and>
    (\<forall>t. find_queue t m = (if t \<in> keys qs \<and> stale tnow active e t then None else find_queue t (topic_queues e)))"
  using assms
proof (induction qs arbitrary: e)
  case Nil
  then show ?case by (intro exI [of _ "topic_queues e"]) simp
next
  case (Cons tq qs)
  let ?m1 = "if stale tnow active e (fst tq) then erase_topic (fst tq) (topic_queues e) else topic_queues e"
  define e1 where "e1 = e\<lparr>topic_queues := ?m1\<rparr>"
  have sm: "sm_wf (topic_queues e)" using Cons.prems(1) by (simp add: wf_queues_def)
  have e1: "collect_queue tnow active tq e = e1" using Cons.prems(2) by (simp add: collect_queue_eq e1_def)
  have wf1: "wf_queues e1"
  proof (cases "stale tnow active e (fst tq)")
    case True
    then have "e1 = e\<lparr>topic_queues := erase_topic (fst tq) (topic_queues e)\<rparr>" by (simp only: e1_def if_True)
    then show ?thesis using wf_queues_erase [OF Cons.prems(1)] by metis
  qed (use Cons.prems(1) in \<open>simp add: e1_def\<close>)
  have st: "stale tnow active e1 t = stale tnow active e t" if "t \<noteq> fst tq" for t
    using that erase_last_access [OF sm that] by (simp add: stale_def e1_def)
  have f1: "find_queue t (topic_queues e1) = (if t = fst tq \<and> stale tnow active e t then None else find_queue t (topic_queues e))" for t
    using erase_topic_spec(2) [OF sm, of t "fst tq"] by (cases "t = fst tq") (simp_all add: e1_def)
  have "0 \<le> topic_queue_ttl e1" "distinct (map fst qs)" using Cons.prems(2,3) by (simp_all add: e1_def)
  from Cons.IH [OF wf1 this] obtain m where
    m: "fold (collect_queue tnow active) qs e1 = e1\<lparr>topic_queues := m\<rparr>" "wf_queues (e1\<lparr>topic_queues := m\<rparr>)"
      "\<And>t. find_queue t m = (if t \<in> keys qs \<and> stale tnow active e1 t then None else find_queue t (topic_queues e1))"
    by blast
  have upd: "e1\<lparr>topic_queues := m\<rparr> = e\<lparr>topic_queues := m\<rparr>" by (simp add: e1_def)
  have "fst tq \<notin> keys qs" using Cons.prems(3) by simp
  then have "find_queue t m = (if t \<in> keys (tq # qs) \<and> stale tnow active e t then None else find_queue t (topic_queues e))" for t
    using m(3) [of t] f1 [of t] st [of t] by (cases "t = fst tq") auto
  with m(1,2) show ?case unfolding fold_simps(2) e1 upd by blast
qed

lemma active_listed:
  assumes "intern_wf (intern_table e)" and "p \<noteq> HANDLE" and "listed e p t \<noteq> []"
  shows "t \<in> set (active_topics e)"
proof -
  from assms(3) obtain tid xs where tid: "map_of (string_to_id (intern_table e)) t = Some tid"
    "map_of (pattern_table e p) tid = Some xs" "xs \<noteq> []"
    by (cases "map_of (string_to_id (intern_table e)) t"; cases "map_of (pattern_table e p)
      (the (map_of (string_to_id (intern_table e)) t))") (auto simp: listed_def members_def)
  have res: "resolve_id tid (intern_table e) = t"
    using assms(1) tid(1) by (auto simp: intern_wf_def resolve_id_def)
  have "(tid, xs) \<in> set (topic_subscribers e) \<or> (tid, xs) \<in> set (topic_producers e)"
    using tid(2) assms(2) by (cases p) (auto simp: pattern_table_def dest: map_of_SomeD)
  then show ?thesis using tid(3) res by (force simp: active_topics_def)
qed

text \<open>The first half of the pass: the modules that have expired are out of the engine and of the heartbeats.\<close>

lemma monitor_expires:
  assumes wf: "wf_engine e" and hb: "hb_tick_all (heartbeats e) = (expired, hb)"
  defines "e1 \<equiv> fold unregister_module expired (e\<lparr>heartbeats := hb\<rparr>)"
  shows "wf_engine e1" and "keys (modules e1) = keys (modules e) - set expired"
    and "topic_queues e1 = topic_queues e" and "pending_jobs e1 = pending_jobs e" and "topic_queue_ttl e1 = topic_queue_ttl e"
    and "map_of (job_tracking e1) c = Some i \<Longrightarrow> \<exists>j. map_of (job_tracking e) c = Some j \<and> message_frame i = message_frame j"
proof -
  note tick = hb_tick_all_spec [OF wf_engineD(8) [OF wf] hb]
  have alive: "live h mid \<noteq> None \<longleftrightarrow> mid \<in> keys (monitors h)" for h mid
    by (simp add: live_def map_of_eq_None_iff)
  have sub: "set expired \<subseteq> keys (modules e)"
    using tick(3) alive [of "heartbeats e"] wf_engineD(9) [OF wf] by auto
  have "live hb mid \<noteq> None \<longleftrightarrow> live (heartbeats e) mid \<noteq> None \<and> mid \<notin> set expired" for mid
    using tick(3) tick(4) [of mid] by (auto split: option.splits)
  then have keys_hb: "keys (monitors hb) = keys (modules e) - set expired"
    using alive [of hb] alive [of "heartbeats e"] unfolding wf_engineD(9) [OF wf] by blast
  define u where "u = fold unregister_module expired e"
  note u = unregister_all [OF wf tick(2) sub, of hb, folded u_def e1_def]
  have "fold hb_unregister expired hb = hb" by (rule fold_hb_unregister) (use keys_hb in auto)
  with u have e1: "e1 = u\<lparr>heartbeats := hb\<rparr>" by simp
  from u have "wf_engine u" "keys (modules u) = keys (modules e) - set expired" by blast+
  then show "wf_engine e1" using keys_hb tick(1) by (simp add: e1 wf_engine_def wf_jobs_def job_ok_def)
  show "keys (modules e1) = keys (modules e) - set expired" "topic_queues e1 = topic_queues e"
    "pending_jobs e1 = pending_jobs e" "topic_queue_ttl e1 = topic_queue_ttl e"
    using u by (simp_all add: e1)
  show "map_of (job_tracking e1) c = Some i \<Longrightarrow> \<exists>j. map_of (job_tracking e) c = Some j \<and> message_frame i = message_frame j"
    using u by (simp add: e1)
qed

lemma monitor_pass_spec:
  fixes tnow :: time
  assumes wf: "wf_engine e" and ttl: "0 \<le> topic_queue_ttl e"
  defines "e' \<equiv> monitor_pass tnow e"
  shows "wf_engine e'" and "keys (modules e') = {mid \<in> keys (modules e). \<forall>l. live (heartbeats e) mid = Some l \<longrightarrow> 1 < l}"
    and "pending_jobs e' = pending_jobs e"
    and "find_queue t (topic_queues e') =
      (if t \<notin> set (active_topics e') \<and> last_access t (topic_queues e) \<noteq> 0 \<and>
          tnow - last_access t (topic_queues e) > topic_queue_ttl e then None else find_queue t (topic_queues e))"
    and "topic_queue_ttl e' = topic_queue_ttl e"
    and "map_of (job_tracking e') c = Some i \<Longrightarrow>
      \<exists>j. map_of (job_tracking e) c = Some j \<and> message_frame i = message_frame j"
proof -
  obtain expired hb where hb: "hb_tick_all (heartbeats e) = (expired, hb)" by force
  note tick = hb_tick_all_spec [OF wf_engineD(8) [OF wf] hb]
  define e1 where "e1 = fold unregister_module expired (e\<lparr>heartbeats := hb\<rparr>)"
  note u = monitor_expires [OF wf hb, folded e1_def]
  have q1: "wf_queues e1" "0 \<le> topic_queue_ttl e1" "distinct (map fst (snapshot (topic_queues e1)))"
    using wf_engineD(1) [OF u(1)] ttl u(5) by (simp_all add: wf_queues_def snapshot_distinct)
  from collect_all [OF q1, of tnow "active_topics e1"] obtain m where
    m: "e' = e1\<lparr>topic_queues := m\<rparr>" "wf_queues (e1\<lparr>topic_queues := m\<rparr>)"
      "\<And>t. find_queue t m = (if t \<in> keys (snapshot (topic_queues e1)) \<and> stale tnow (active_topics e1) e1 t then None
         else find_queue t (topic_queues e1))"
    by (auto simp: e'_def monitor_pass_def hb e1_def [symmetric])
  have act: "active_topics e' = active_topics e1" by (simp add: m(1) active_topics_def)
  show "wf_engine e'" using u(1) m(1,2) by (simp add: wf_engine_def wf_jobs_def job_ok_def)
  show "keys (modules e') = {mid \<in> keys (modules e). \<forall>l. live (heartbeats e) mid = Some l \<longrightarrow> 1 < l}"
    using u(2) tick(3) by (auto simp: m(1) not_le)
  show "pending_jobs e' = pending_jobs e" using u(4) by (simp add: m(1))
  show "topic_queue_ttl e' = topic_queue_ttl e" using u(5) by (simp add: m(1))
  show "map_of (job_tracking e') c = Some i \<Longrightarrow>
      \<exists>j. map_of (job_tracking e) c = Some j \<and> message_frame i = message_frame j"
    using u(6) by (simp add: m(1))
  have "sm_wf (topic_queues e)" using wf_engineD(1) [OF wf] by (simp add: wf_queues_def)
  then have "find_queue t (topic_queues e) = None" if "t \<notin> keys (snapshot (topic_queues e))"
    using that snapshot_iff by (metis fst_conv image_eqI not_Some_eq)
  then show "find_queue t (topic_queues e') =
      (if t \<notin> set (active_topics e') \<and> last_access t (topic_queues e) \<noteq> 0 \<and>
          tnow - last_access t (topic_queues e) > topic_queue_ttl e then None else find_queue t (topic_queues e))"
    using m(3) [of t] u(3,5) unfolding act by (auto simp: m(1) stale_def)
qed

end
