(* ===== verification/Job_Guarantees.thy ===== *)
theory Job_Guarantees
  imports Job_Router
begin

text \<open>
  What the job router guarantees: how requests, responses, timeouts and recoveries are routed,
  that round robin is fair, and that no pending job is dropped without an answer.  A sample
  environment and an engine with one registered handler and one job serve the witnesses.
\<close>

section \<open>A sample router\<close>

definition sample_request :: message where
  "sample_request = default_message\<lparr>msg_type := REQUEST, sender := ''cli'', event := ''order'',
     correlation_id := Some ''c1''\<rparr>"

definition sample_env :: env where
  "sample_env = \<lparr>env_cx = sample_codec [message_doc sample_base sample_request],
     env_fmt = \<lparr>fmt_double = \<lambda>_ _. ''0'', fmt_widen = \<lambda>f. ucast f\<rparr>, env_today = ''2024-01-01'',
     env_stamp = 0, env_can_open = True\<rparr>"

definition sample_frame :: bytes where
  "sample_frame = serialize (env_cx sample_env) sample_request"

definition sample_job :: "string \<Rightarrow> job_tracking_info" where
  "sample_job h = default_tracking\<lparr>requester_id := [7], handler_id := h, jt_topic := ''order'',
     topic_frame := [1], message_frame := sample_frame\<rparr>"

lemma sample_request_fields [simp]:
  "msg_type sample_request = REQUEST" "event sample_request = ''order''" "corr_of sample_request = ''c1''"
  "msg_payload sample_request = []" "correlation_id sample_request = Some ''c1''"
  by (simp_all add: sample_request_def default_message_def corr_of_def)

lemma sample_job_fields [simp]:
  "requester_id (sample_job h) = [7]" "handler_id (sample_job h) = h" "jt_topic (sample_job h) = ''order''"
  "topic_frame (sample_job h) = [1]" "message_frame (sample_job h) = sample_frame"
  "wait_start_time (sample_job h) = 0" "jt_wait_timeout (sample_job h) = float_30"
  by (simp_all add: sample_job_def default_tracking_def)

lemma sample_decode: "decode (env_cx sample_env) sample_frame = Some (Some sample_request)"
proof -
  have "wf_message sample_request"
    by (simp add: wf_message_def sample_request_def default_message_def message_type_from_str_def)
  then have "deserialize (env_cx sample_env) sample_frame =
      Inr (sample_request\<lparr>msg_payload := norm_entries (env_cx sample_env) (msg_payload sample_request)\<rparr>)"
    unfolding sample_frame_def by (intro deserialize_serialize) (simp_all add: sample_env_def)
  then show ?thesis by (simp add: decode_def)
qed

lemma sample_registered:
  obtains e where "wf_engine e" "''gw_00000a'' \<in> set (listed e HANDLE ''order'')"
    "map_of (modules e) = [''gw_00000a'' \<mapsto> sample_info]" "intern_room (intern_table e) 1" "job_tracking e = []"
proof -
  obtain e where e: "sample_engine = Some e" "wf_engine e" "intern_table e = string_intern_new"
    "modules e = []" "job_tracking e = []"
    by (rule sample_engine_wf)
  have room: "intern_room (intern_table e) n" if "n < 2 ^ 32 - 1" for n
    using that by (simp add: e(3) intern_room_def string_intern_new_def)
  have "intern_room (intern_table e) (length (interfaces sample_info))" by (rule room) simp
  note r = register_module_spec [OF e(2) this, of 1]
  have "intern_room (intern_table (register_module 1 sample_info e)) 1"
    by (rule register_module_room [OF e(2)]) (simp add: room)
  with r e that [of "register_module 1 sample_info e"] show thesis
    by (simp add: default_interface_def)
qed

lemma sample_router_env:
  assumes "h = [] \<or> h = ''gw_00000a''" and "decode (env_cx env) fr = Some (Some msg)"
  obtains e where "wf_router env e" "job_tracking e = [(''c1'', (sample_job h)\<lparr>message_frame := fr\<rparr>)]"
    "pending_jobs e = [(''c1'', [7])]" "intern_room (intern_table e) 1"
    "''gw_00000a'' \<in> set (listed e HANDLE ''order'')"
proof -
  obtain e where e: "wf_engine e" "''gw_00000a'' \<in> set (listed e HANDLE ''order'')"
    "map_of (modules e) = [''gw_00000a'' \<mapsto> sample_info]" "intern_room (intern_table e) 1" "job_tracking e = []"
    by (rule sample_registered)
  let ?e = "e\<lparr>job_tracking := [(''c1'', (sample_job h)\<lparr>message_frame := fr\<rparr>)], pending_jobs := [(''c1'', [7])]\<rparr>"
  have mem: "''gw_00000a'' \<in> keys (modules e)"
    using e(3) by (metis domI dom_map_of_conv_image_fst fun_upd_same)
  have "map_of (string_to_id (intern_table e)) ''order'' \<noteq> None"
    using listed_interned [OF e(2)] by blast
  then have "wf_jobs ?e" using assms(1) mem by (auto simp: wf_jobs_def job_ok_def)
  then have "wf_engine ?e" using e(1) by (simp add: wf_engine_def)
  moreover have "keys (modules e) = {''gw_00000a''}"
    using e(3) by (metis dom_map_of_conv_image_fst dom_eq_singleton_conv)
  then have "handlers_small ?e"
    using handlers_small_modules [OF e(1)] by (simp add: handlers_small_def handlers_of_def)
  ultimately have "wf_router env ?e" using assms(2) by (simp add: wf_router_def)
  with e show thesis by (intro that [of ?e]) (simp_all add: listed_def pattern_table_def)
qed

lemma sample_router:
  assumes "h = [] \<or> h = ''gw_00000a''"
  obtains e where "wf_router sample_env e" "job_tracking e = [(''c1'', sample_job h)]"
    "pending_jobs e = [(''c1'', [7])]" "intern_room (intern_table e) 1"
    "''gw_00000a'' \<in> set (listed e HANDLE ''order'')"
  by (rule sample_router_env [OF assms sample_decode]) (simp add: sample_job_def that)

section \<open>Properties\<close>

text \<open>C17: A request whose topic has no handler is answered with an error and not tracked; one whose
  handlers are all unavailable sends nothing and is tracked as waiting; otherwise it is forwarded,
  unchanged, to exactly one available handler and tracked with that handler and the dispatch time.
  In the last two cases the requester is recorded under the correlation id.\<close>

theorem request_routed:
  assumes wf: "wf_router env e" and room: "intern_room (intern_table e) 1"
    and dec: "decode (env_cx env) mframe = Some (Some msg)"
  shows "\<exists>out e'. handle_request (env_cx env) tnow identity tframe mframe msg e = (out, e') \<and> wf_router env e' \<and>
    (let e1 = interned (event msg) e; c = corr_of msg; i = new_job (env_cx env) tnow identity tframe mframe msg
     in if listed e1 HANDLE (event msg) = [] then
          out = [[identity, [], tframe, serialize (env_cx env) (no_handler_error msg)]] \<and> e' = e1
        else map_of (pending_jobs e') c = Some identity \<and>
          (if available (event msg) e1 = [] then out = [] \<and> map_of (job_tracking e') c = Some i
           else \<exists>h \<in> set (available (event msg) e1). out = [[str_bytes h, [], tframe, mframe]] \<and>
             map_of (job_tracking e') c = Some (i\<lparr>handler_id := h, dispatch_time := tnow\<rparr>)))"
proof -
  obtain out e' where step: "handle_request (env_cx env) tnow identity tframe mframe msg e = (out, e')"
    "wf_router env e'"
    by (rule handle_request_step [OF wf room dec])
  show ?thesis
  proof (cases rule: handle_request_cases [OF wf_routerD(1) [OF wf] room wf_routerD(2) [OF wf],
      where msg = msg and cx = "env_cx env" and tnow = tnow and identity = identity
      and tframe = tframe and mframe = mframe])
    case 1
    with step show ?thesis by (simp add: Let_def)
  next
    case (2 e'')
    with step show ?thesis by (simp add: Let_def)
  next
    case (3 hid e'')
    then have "hid \<in> set (listed (interned (event msg) e) HANDLE (event msg))" by (simp add: available_def)
    with 3 step show ?thesis by (auto simp: Let_def)
  qed
qed

theorem request_routed_witness:
  "\<exists>e e'. snd (handle_request (env_cx sample_env) 5 [9] [1] sample_frame sample_request e) = e' \<and>
     wf_router sample_env e'"
proof -
  obtain e where e: "wf_router sample_env e" "intern_room (intern_table e) 1"
    by (rule sample_router [of "[]"]) simp_all
  from request_routed [OF e sample_decode, of 5 "[9]" "[1]"] show ?thesis
    by (auto intro!: exI [of _ e])
qed

text \<open>C35: Round robin is fair: while the available handlers of a topic stay the same, every run of as
  many dispatches as there are handlers gives each of them exactly one job, in turn.\<close>

theorem round_robin_fair:
  assumes "wf_router env e" and "map_of (string_to_id (intern_table e)) topic = Some tid"
    and "available topic e = av" and "av \<noteq> []"
  shows "picks tid av k e = map (\<lambda>i. av ! ((rr_start tid e + i) mod length av)) [0..<k] \<and>
    distinct (picks tid av (length av) e) \<and> set (picks tid av (length av) e) = set av"
proof -
  have len: "length av < 2 ^ 64"
    using available_len [OF wf_routerD(2) [OF assms(1)], of tid topic] available_interned(1) [OF assms(2)] assms(3)
    by simp
  have "distinct av"
    using wf_table_member [OF wf_engineD(6) [OF wf_routerD(1) [OF assms(1)]], of tid] assms(2,3)
    by (auto simp: available_def listed_def members_def pattern_table_def split: option.splits)
  with picks_rotate [OF assms(4) len] picks_all [OF assms(4) len] show ?thesis by blast
qed

theorem round_robin_fair_witness:
  "\<exists>e tid. set (picks tid (available ''order'' e) (length (available ''order'' e)) e) = set (available ''order'' e) \<and>
     available ''order'' e \<noteq> []"
proof -
  obtain e where e: "wf_router sample_env e" "''gw_00000a'' \<in> set (listed e HANDLE ''order'')"
    by (rule sample_router [of "[]"]) simp_all
  let ?e = "e\<lparr>unavailable_handlers := [], module_availability := []\<rparr>"
  have wf: "wf_router sample_env ?e"
    using e(1) by (simp add: wf_router_def wf_engine_def handlers_small_def handlers_of_def wf_jobs_def job_ok_def)
  obtain tid where tid: "map_of (string_to_id (intern_table ?e)) ''order'' = Some tid"
    using listed_interned [OF e(2)] by auto
  have "''gw_00000a'' \<in> set (available ''order'' ?e)"
    using e(2) by (simp add: available_def is_handler_available_def listed_def pattern_table_def)
  then have "available ''order'' ?e \<noteq> []" by force
  with round_robin_fair [OF wf tid refl this] show ?thesis by blast
qed

text \<open>A response is sent, unchanged, to exactly the requester recorded for its correlation id,
  which then is no longer pending or tracked; a second response for it, or one for an unknown job,
  is dropped without any effect.\<close>

lemma response_returned:
  assumes "wf_router env e" and "handle_response tframe mframe msg e = (out, e')"
  shows "wf_router env e' \<and> map_of (pending_jobs e') = (map_of (pending_jobs e))(corr_of msg := None) \<and>
    map_of (job_tracking e') = (map_of (job_tracking e))(corr_of msg := None) \<and>
    out = (case map_of (job_tracking e) (corr_of msg) of None \<Rightarrow> []
           | Some i \<Rightarrow> [[requester_id i, [], tframe, mframe]]) \<and>
    handle_response tframe' mframe' msg e' = ([], e')"
proof -
  have wf': "wf_router env e'" by (rule handle_response_step [OF assms(1), of tframe mframe msg]) (use assms(2) in simp)
  have pend: "map_of (pending_jobs e) (corr_of msg) = map_option requester_id (map_of (job_tracking e) (corr_of msg))"
    using wf_routerD(4) [OF assms(1)] by (simp add: wf_jobs_def)
  show ?thesis
  proof (cases "map_of (job_tracking e) (corr_of msg)")
    case None
    with pend assms(2) wf' show ?thesis by (auto simp: handle_response_def)
  next
    case (Some i)
    with pend assms(2) wf' show ?thesis by (auto simp: handle_response_def)
  qed
qed

lemma response_returned_witness:
  "\<exists>e. map_of (pending_jobs e) ''c1'' = Some [7] \<and>
     fst (handle_response [1] [2] sample_request e) = [[[7], [], [1], [2]]]"
proof -
  obtain e where e: "wf_router sample_env e" "pending_jobs e = [(''c1'', [7])]"
    "job_tracking e = [(''c1'', sample_job [])]"
    by (rule sample_router [of "[]"]) simp_all
  obtain out e' where h: "handle_response [1] [2] sample_request e = (out, e')" by force
  from response_returned [OF e(1) h] e(2,3) h show ?thesis by (auto intro!: exI [of _ e])
qed

text \<open>C18: When a running job times out, its handler is marked unavailable for the topic and the job
  is sent to a different, available handler; if there is none, it goes back to waiting.  Either way
  it stays pending for its requester.\<close>

theorem run_timeout_reassigns:
  assumes "wf_router env e" and "map_of (job_tracking e) c = Some i" and "handler_id i \<noteq> []"
  shows "\<exists>out e'. process_timeout env tnow c ''run_timeout'' e = Some (out, e') \<and> wf_router env e' \<and>
    pending_jobs e' = pending_jobs e \<and> \<not> is_handler_available e' (handler_id i) (jt_topic i) \<and>
    (if available (jt_topic i) e' = [] then out = [] \<and>
       map_of (job_tracking e') c = Some (i\<lparr>handler_id := [], dispatch_time := 0\<rparr>)
     else \<exists>h. h \<noteq> handler_id i \<and> h \<in> set (available (jt_topic i) e') \<and>
       out = [[str_bytes h, [], topic_frame i, message_frame i]] \<and>
       map_of (job_tracking e') c = Some (i\<lparr>handler_id := h, dispatch_time := tnow\<rparr>))"
proof -
  obtain out e' where "process_timeout env tnow c ''run_timeout'' e = Some (out, e')" "wf_router env e'"
    "pending_jobs e' = pending_jobs e" "\<not> is_handler_available e' (handler_id i) (jt_topic i)"
    "(\<exists>h'. h' \<noteq> handler_id i \<and> h' \<in> set (available (jt_topic i) e') \<and>
        out = [[str_bytes h', [], topic_frame i, message_frame i]] \<and>
        map_of (job_tracking e') c = Some (i\<lparr>handler_id := h', dispatch_time := tnow\<rparr>)) \<or>
     (available (jt_topic i) e' = [] \<and> out = [] \<and>
        map_of (job_tracking e') c = Some (i\<lparr>handler_id := [], dispatch_time := 0\<rparr>))"
    by (rule run_timeout_cases [OF assms, of tnow])
  then show ?thesis by (intro exI [of _ out] exI [of _ e']) auto
qed

theorem run_timeout_reassigns_witness:
  "\<exists>e out e'. map_of (job_tracking e) ''c1'' = Some (sample_job ''gw_00000a'') \<and>
     process_timeout sample_env 90 ''c1'' ''run_timeout'' e = Some (out, e') \<and>
     \<not> is_handler_available e' ''gw_00000a'' ''order''"
proof -
  obtain e where e: "wf_router sample_env e" "job_tracking e = [(''c1'', sample_job ''gw_00000a'')]"
    by (rule sample_router [of "''gw_00000a''"]) simp_all
  have "map_of (job_tracking e) ''c1'' = Some (sample_job ''gw_00000a'')"
    "handler_id (sample_job ''gw_00000a'') \<noteq> []" by (simp_all add: e(2))
  from run_timeout_reassigns [OF e(1) this, of 90] this(1) show ?thesis by auto
qed

text \<open>C12: The timeout worker reports exactly the overdue jobs, and a waiting job it reports is
  answered when the router handles the events: its requester gets an error response that names the
  reason and the correlation id, and the job is gone.\<close>

theorem overdue_wait_answered:
  assumes wf: "wf_router env e" and i: "map_of (job_tracking e) c = Some i" and h: "handler_id i = []"
    and late: "exceeds_float (tnow - wait_start_time i) (jt_wait_timeout i)"
    and none: "job_timeout_events e = []"
  shows "set (job_timeout_events (job_timeout_pass tnow e)) =
      {(c, r). \<exists>j. map_of (job_tracking e) c = Some j \<and> job_overdue tnow j = Some r} \<and>
    (\<exists>out e'. process_timeouts env tnow' (job_timeout_events (job_timeout_pass tnow e))
        ((job_timeout_pass tnow e)\<lparr>job_timeout_events := []\<rparr>) = Some (out, e') \<and>
      [requester_id i, [], topic_frame i,
        serialize (env_cx env) (timeout_error (jt_topic i) ''wait_timeout'' c)] \<in> set out \<and>
      map_of (pending_jobs e') c = None \<and> map_of (job_tracking e') c = None)"
proof -
  have d: "distinct (map fst (job_tracking e))" using wf_routerD(4) [OF wf] by (simp add: wf_jobs_def)
  let ?evs = "overdue_events tnow (job_tracking e)"
  have "job_overdue tnow i = Some ''wait_timeout''" using h late by (simp add: job_overdue_def)
  then have "(c, ''wait_timeout'') \<in> set ?evs" using overdue_events_iff [OF d] i by blast
  from waiting_job_answered [OF _ overdue_events_distinct [OF d] this, of env "e\<lparr>job_timeout_events := []\<rparr>" i tnow']
  have "\<exists>out e'. process_timeouts env tnow' ?evs (e\<lparr>job_timeout_events := []\<rparr>) = Some (out, e') \<and>
    [requester_id i, [], topic_frame i, serialize (env_cx env) (timeout_error (jt_topic i) ''wait_timeout'' c)] \<in> set out \<and>
    map_of (job_tracking e') c = None \<and> map_of (pending_jobs e') c = None"
    using wf i h by simp
  with none overdue_events_iff [OF d] show ?thesis by (auto simp: job_timeout_pass_events)
qed

lemma exceeds_float_30: "exceeds_float 31 float_30"
  by (simp add: exceeds_float_def float_30_def float_magnitude_def Let_def)

theorem overdue_wait_answered_witness:
  "\<exists>e out e'. process_timeouts sample_env 31 (job_timeout_events (job_timeout_pass 31 e))
        ((job_timeout_pass 31 e)\<lparr>job_timeout_events := []\<rparr>) = Some (out, e') \<and>
      [[7], [], [1], serialize (env_cx sample_env) (timeout_error ''order'' ''wait_timeout'' ''c1'')] \<in> set out"
proof -
  obtain e where e: "wf_router sample_env e" "job_tracking e = [(''c1'', sample_job [])]"
    by (rule sample_router [of "[]"]) simp_all
  let ?e = "e\<lparr>job_timeout_events := []\<rparr>"
  have "wf_router sample_env ?e" "map_of (job_tracking ?e) ''c1'' = Some (sample_job [])"
    "handler_id (sample_job []) = []" "job_timeout_events ?e = []"
    "exceeds_float (31 - wait_start_time (sample_job [])) (jt_wait_timeout (sample_job []))"
    using e exceeds_float_30 by simp_all
  from overdue_wait_answered [OF this(1-3) this(5,4), of 31] show ?thesis by auto
qed

text \<open>C4: No job is lost: an iteration of the router's loop always completes, keeps the invariant,
  and every job that was pending before it is still pending for the same requester or that
  requester was sent a message, unless the request received in it reuses the job's correlation id.\<close>

theorem no_job_lost:
  assumes "wf_router env e" and "intern_room (intern_table e) 1"
    and "\<And>fs. received = Some fs \<Longrightarrow> message_total env fs"
  shows "\<exists>out e'. router_iteration env tnow received e = Some (out, e') \<and> wf_router env e' \<and>
    (\<forall>c r. map_of (pending_jobs e) c = Some r \<and>
       c \<notin> (case received of None \<Rightarrow> {} | Some fs \<Rightarrow> request_ids env fs) \<longrightarrow>
       map_of (pending_jobs e') c = Some r \<or> (\<exists>tf mf. [r, [], tf, mf] \<in> set out))"
proof -
  obtain out e' where "router_iteration env tnow received e = Some (out, e')" "wf_router env e'"
    "keeps_or_answers (case received of None \<Rightarrow> {} | Some fs \<Rightarrow> request_ids env fs) e out e'"
    by (rule router_iteration_step [where tnow = tnow and received = received, OF assms])
  then show ?thesis unfolding keeps_or_answers_def answered_def by blast
qed

theorem no_job_lost_witness:
  "\<exists>e out e'. map_of (pending_jobs e) ''c1'' = Some [7] \<and>
     router_iteration sample_env 3 None e = Some (out, e') \<and>
     (map_of (pending_jobs e') ''c1'' = Some [7] \<or> (\<exists>tf mf. [[7], [], tf, mf] \<in> set out))"
proof -
  obtain e where e: "wf_router sample_env e" "intern_room (intern_table e) 1" "pending_jobs e = [(''c1'', [7])]"
    by (rule sample_router [of "[]"]) simp_all
  from no_job_lost [OF e(1,2), of None 3] obtain out e' where
    "router_iteration sample_env 3 None e = Some (out, e')"
    "map_of (pending_jobs e) ''c1'' = Some [7] \<longrightarrow>
       map_of (pending_jobs e') ''c1'' = Some [7] \<or> (\<exists>tf mf. [[7], [], tf, mf] \<in> set out)"
    by auto
  with e(3) show ?thesis by (intro exI [of _ e] exI [of _ out] exI [of _ e']) simp
qed

text \<open>When a handler recovers on some topics, every waiting job of those topics that has an
  available handler is sent to one and tracked as running there; no job stops being pending.\<close>

lemma recovery_dispatches:
  assumes "wf_router env e"
  shows "\<exists>out e'. process_recovery tnow ev e = (out, e') \<and> wf_router env e' \<and>
    pending_jobs e' = pending_jobs e \<and>
    (\<forall>c i. map_of (job_tracking e) c = Some i \<and> handler_id i = [] \<and> jt_topic i \<in> set (snd ev) \<and>
       available (jt_topic i) e \<noteq> [] \<longrightarrow> (\<exists>h \<in> set (available (jt_topic i) e).
       [str_bytes h, [], topic_frame i, message_frame i] \<in> set out \<and>
       map_of (job_tracking e') c = Some (i\<lparr>handler_id := h, dispatch_time := tnow\<rparr>)))"
  by (rule process_recovery_step [OF assms])

lemma recovery_dispatches_witness:
  "\<exists>e. pending_jobs e = [(''c1'', [7])] \<and>
     pending_jobs (snd (process_recovery 9 (''gw_00000a'', [''order'']) e)) = pending_jobs e"
proof -
  obtain e where e: "wf_router sample_env e" "pending_jobs e = [(''c1'', [7])]"
    by (rule sample_router [of "[]"]) simp_all
  from recovery_dispatches [OF e(1), of 9 "(''gw_00000a'', [''order''])"] e(2) show ?thesis
    by (auto intro!: exI [of _ e])
qed

end
