(* ===== verification/Event_Guarantees.thy ===== *)
theory Event_Guarantees
  imports Engine_Events Job_Guarantees
begin

text \<open>
  What the event path guarantees: events are queued with their bytes and in order, the proxy
  forwards and counts every message, an egress pass always ends with empty queues and files
  exactly the expired events, and the monitor drops silent modules and collects only queues that
  nobody uses.
\<close>

section \<open>Proxy\<close>

lemma delivered_wf: "delivered e t i t2 e' \<Longrightarrow> wf_queues e'" "delivered e t i t2 e' \<Longrightarrow> event_count e' = event_count e"
  by (auto simp: delivered_def)

lemma enqueue_returns:
  assumes "wf_queues e"
  obtains e' where "enqueue_from_xsub t1 t2 fs e = Some e'" "wf_queues e'" "event_count e' = event_count e"
proof (cases "length fs < 2")
  case True
  with assms that show thesis by (simp add: enqueue_from_xsub_def)
next
  case False
  with enqueue_deliver [OF assms, of fs t1 t2] that show thesis by (auto dest: delivered_wf)
qed

lemma proxy_events_all:
  assumes "wf_queues e" and "[] \<notin> set received"
  shows "\<exists>e'. proxy_events t1 t2 received e = Some (received, length received, e') \<and> wf_queues e' \<and>
    event_count e' = event_count e"
  using assms
proof (induction received arbitrary: e)
  case (Cons fs rest)
  obtain e1 where e1: "enqueue_from_xsub t1 t2 fs e = Some e1" "wf_queues e1" "event_count e1 = event_count e"
    by (rule enqueue_returns [OF Cons.prems(1)])
  have "[] \<notin> set rest" "fs \<noteq> []" using Cons.prems(2) by auto
  from Cons.IH [OF e1(2) this(1)] this(2) e1 show ?case by auto
qed simp

section \<open>Properties\<close>

text \<open>C16: An event, injected by the shared memory bridge as a message or raw or received from the
  XSUB socket, always gets queued: it becomes the last item of its topic's queue (created when
  missing), with the bytes of its frames, dropping the oldest item only when the queue is full;
  every other queue keeps its items, the topic is touched and the egress worker is woken.  From the
  socket only the first four frames are kept.\<close>

theorem events_queued:
  assumes "wf_queues e"
  shows "(\<exists>e'. inject_event t1 t2 topic bs e = Some e' \<and>
      delivered e topic \<lparr>enqueue_time = t1, frames = [frame_new (str_bytes topic), frame_new bs]\<rparr> t2 e') \<and>
    inject_event_raw t1 t2 topic (bs @ rest) (length bs) e = inject_event t1 t2 topic bs e \<and>
    (2 \<le> length fs \<longrightarrow> (\<exists>e'. enqueue_from_xsub t1 t2 fs e = Some e' \<and>
      delivered e (bytes_str (fs ! 0)) \<lparr>enqueue_time = t1, frames = map fixed_frame (take 4 fs)\<rparr> t2 e')) \<and>
    to_vector (frame_new bs) = bs \<and> map to_vector (map fixed_frame (take 4 fs)) = take 4 fs"
proof -
  obtain q e1 where en: "ensure_queue topic e = (q, e1)" by force
  show ?thesis
    using ensure_deliver [OF assms en] enqueue_deliver [OF assms, of fs t1 t2]
    by (simp add: inject_event_def inject_event_raw_def en MAX_FRAMES_def map_idI)
qed

theorem events_queued_witness:
  "\<exists>e e'. sample_engine = Some e \<and> inject_event 1 2 ''tick'' [3, 4] e = Some e' \<and>
     map (\<lambda>i. map to_vector (frames i)) (content (topic_queues e') ''tick'') = [[str_bytes ''tick'', [3, 4]]]"
proof -
  obtain e where e: "sample_engine = Some e" "wf_engine e" "\<And>t. find_queue t (topic_queues e) = None"
    by (rule sample_engine_wf) blast
  from events_queued [OF wf_engineD(1) [OF e(2)], of 1 2 "''tick''" "[3, 4]"] obtain e' where
    "inject_event 1 2 ''tick'' [3, 4] e = Some e'"
    "delivered e ''tick'' \<lparr>enqueue_time = 1, frames = [frame_new (str_bytes ''tick''), frame_new [3, 4]]\<rparr> 2 e'"
    by blast
  with e(1,3) show ?thesis
    by (intro exI [of _ e] exI [of _ e']) (simp add: delivered_def content_def)
qed

text \<open>The proxy forwards every message of a batch to the XPUB socket, unchanged and in order,
  and adds their number to the event counter.\<close>

lemma proxy_forwards_all:
  assumes "wf_queues e" and "[] \<notin> set received"
  shows "\<exists>e'. proxy_batch t1 t2 received e = Some (received, e') \<and> wf_queues e' \<and>
    event_count e' = event_count e + word_of_nat (length received)"
  using proxy_events_all [OF assms, of t1 t2] by (auto simp: proxy_batch_def)

lemma proxy_forwards_all_witness:
  "\<exists>e e'. sample_engine = Some e \<and> proxy_batch 1 2 [[[1], [2]], [[3]]] e = Some ([[[1], [2]], [[3]]], e') \<and>
     event_count e' = event_count e + 2"
proof -
  obtain e where e: "sample_engine = Some e" "wf_engine e" by (rule sample_engine_wf)
  from proxy_forwards_all [OF wf_engineD(1) [OF e(2)], of "[[[1], [2]], [[3]]]" 1 2] e(1) show ?thesis by auto
qed

text \<open>C9: An egress pass returns whatever is queued, as long as the queued messages decode or fail
  to decode without undefined behaviour; it leaves the queue of every topic empty, keeps the map of
  topics, and adds to the dead letters exactly the items older than the time to live, queue by queue
  in the order of the snapshot and in the order they were queued.  It reports work when there was
  an item.\<close>

theorem egress_pass_drains:
  assumes wf: "wf_queues e" and "\<forall>t. \<forall>i \<in> set (content (topic_queues e) t). item_ok env i"
  shows "\<exists>had n e'. egress_pass env clk e = Some (had, n, e') \<and> wf_queues e' \<and>
    (\<forall>t. content (topic_queues e') t = [] \<and> find_queue t (topic_queues e') = find_queue t (topic_queues e)) \<and>
    (had \<longleftrightarrow> (\<exists>t. content (topic_queues e) t \<noteq> [])) \<and>
    dead_letters e' = pass_letters env clk (broadcast_ttl e) (sm_heap (topic_queues e))
      (snapshot (topic_queues e)) 0 (dead_letters e)"
proof -
  let ?m = "topic_queues e" and ?qs = "snapshot (topic_queues e)"
  have sm: "sm_wf ?m" and sep: "separate ?m" using wf by (simp_all add: wf_queues_def)
  note snap = snapshot_iff [OF sm]
  have "inj_on snd (set ?qs)"
  proof (rule inj_onI, clarify)
    fix t q t' q' assume "(t, q) \<in> set ?qs" "(t', q') \<in> set ?qs" "snd (t, q) = snd (t', q')"
    then have "find_queue t ?m = Some q" "find_queue t' ?m = Some q" "q' = q" by (simp_all add: snap)
    with sep show "t = t' \<and> q = q'" unfolding separate_def by blast
  qed
  then have d: "distinct (map snd ?qs)"
    using snapshot_distinct [OF sm] by (simp add: distinct_map)
  have ok: "\<forall>(t, q) \<in> set ?qs. q < length (sm_heap ?m) \<and> (\<forall>i \<in> set (tq_list (sm_heap ?m ! q)). item_ok env i)"
  proof (clarify, intro conjI ballI)
    fix t q assume "(t, q) \<in> set ?qs"
    then have fq: "find_queue t ?m = Some q" by (simp add: snap)
    then show "q < length (sm_heap ?m)" by (rule find_queue_heap [OF sm])
    show "item_ok env i" if "i \<in> set (tq_list (sm_heap ?m ! q))" for i
      using assms(2) fq that by (auto simp: content_def dest: spec [of _ t])
  qed
  from egress_queues_spec [OF wf d ok, of clk False 0] obtain had n m' where
    r: "egress_pass env clk e = Some (had, n, e\<lparr>topic_queues := m', dead_letters :=
        pass_letters env clk (broadcast_ttl e) (sm_heap ?m) ?qs 0 (dead_letters e)\<rparr>)"
      "had \<longleftrightarrow> (\<exists>(t, q) \<in> set ?qs. tq_list (sm_heap ?m ! q) \<noteq> [])"
      "wf_queues (e\<lparr>topic_queues := m'\<rparr>)" "\<forall>t. find_queue t m' = find_queue t ?m"
      "\<forall>(t, q) \<in> set ?qs. tq_list (sm_heap m' ! q) = []"
    unfolding egress_pass_def emptied_def by blast
  have "content m' t = []" for t
    using r(4,5) snap by (fastforce simp: content_def split: option.split)
  moreover have "had \<longleftrightarrow> (\<exists>t. content ?m t \<noteq> [])"
    unfolding r(2) using snap by (fastforce simp: content_def split: option.splits)
  ultimately show ?thesis using r(1,3,4) by auto
qed

theorem egress_pass_drains_witness:
  "\<exists>e had n e'. content (topic_queues e) ''order'' \<noteq> [] \<and>
     egress_pass sample_env (\<lambda>_. 100) e = Some (had, n, e') \<and> content (topic_queues e') ''order'' = [] \<and> had"
proof -
  obtain e0 where e0: "sample_engine = Some e0" "wf_engine e0" "\<And>t. find_queue t (topic_queues e0) = None"
    by (rule sample_engine_wf) blast
  let ?i = "\<lparr>enqueue_time = 1, frames = [frame_new (str_bytes ''order''), frame_new sample_frame]\<rparr>"
  obtain q e1 where en: "ensure_queue ''order'' e0 = (q, e1)" by force
  from ensure_deliver [OF wf_engineD(1) [OF e0(2)] en, of ?i 2] obtain e where
    "delivered e0 ''order'' ?i 2 e" by blast
  then have e: "wf_queues e" "content (topic_queues e) ''order'' = [?i]"
    "\<And>t. t \<noteq> ''order'' \<Longrightarrow> content (topic_queues e) t = []"
    using e0(3) by (auto simp: delivered_def content_def)
  have "item_ok sample_env ?i" by (simp add: item_ok_def payload_frame_def sample_decode)
  then have "item_ok sample_env i" if "i \<in> set (content (topic_queues e) t)" for t i
    using that e(2) e(3) [of t] by (cases "t = ''order''") simp_all
  then have "\<forall>t. \<forall>i \<in> set (content (topic_queues e) t). item_ok sample_env i" by blast
  from egress_pass_drains [OF e(1) this, of "\<lambda>_. 100"] obtain had n e' where
    "egress_pass sample_env (\<lambda>_. 100) e = Some (had, n, e')" "content (topic_queues e') ''order'' = []"
    "had \<longleftrightarrow> (\<exists>t. content (topic_queues e) t \<noteq> [])" by blast
  moreover from this(3) have had by (auto simp: e(2) intro!: exI [of _ "''order''"])
  ultimately show ?thesis using e(2) by (intro exI [of _ e] exI [of _ had] exI [of _ n] exI [of _ e']) simp
qed

text \<open>A pass of the monitor keeps the invariant, unregisters exactly the modules whose heartbeats
  ran out, keeps every pending job, and removes the queue of a topic exactly when no module
  subscribes to or produces the topic and it was accessed, but not within the time to live; so a
  topic that a module subscribes to or produces never loses its queue.\<close>

lemma monitor_pass_effect:
  assumes wf: "wf_engine e" and ttl: "0 \<le> topic_queue_ttl e"
  shows "wf_engine (monitor_pass tnow e) \<and> pending_jobs (monitor_pass tnow e) = pending_jobs e \<and>
    keys (modules (monitor_pass tnow e)) =
      {mid \<in> keys (modules e). \<forall>l. live (heartbeats e) mid = Some l \<longrightarrow> 1 < l} \<and>
    (\<forall>t. find_queue t (topic_queues (monitor_pass tnow e)) =
      (if t \<notin> set (active_topics (monitor_pass tnow e)) \<and> last_access t (topic_queues e) \<noteq> 0 \<and>
          tnow - last_access t (topic_queues e) > topic_queue_ttl e then None else find_queue t (topic_queues e))) \<and>
    (\<forall>t p. p \<noteq> HANDLE \<and> listed (monitor_pass tnow e) p t \<noteq> [] \<longrightarrow>
       find_queue t (topic_queues (monitor_pass tnow e)) = find_queue t (topic_queues e))"
proof -
  note mp = monitor_pass_spec [OF wf ttl, where tnow = tnow]
  have "find_queue t (topic_queues (monitor_pass tnow e)) = find_queue t (topic_queues e)"
    if "p \<noteq> HANDLE" "listed (monitor_pass tnow e) p t \<noteq> []" for t p
    using mp(4) [of t] active_listed [OF wf_engineD(2) [OF mp(1)] that] by simp
  with mp show ?thesis by blast
qed

lemma monitor_pass_effect_witness:
  "\<exists>e. sample_engine = Some e \<and> wf_engine (monitor_pass 9 (register_module 1 sample_info e))"
proof -
  obtain e where e: "sample_engine = Some e" "wf_engine e" "intern_table e = string_intern_new"
    by (rule sample_engine_wf)
  have "intern_room (intern_table e) (length (interfaces sample_info))"
    by (simp add: e(3) intern_room_def string_intern_new_def)
  then have wf: "wf_engine (register_module 1 sample_info e)" by (rule register_module_spec(1) [OF e(2)])
  have "topic_queue_ttl (register_module 1 sample_info e) = topic_queue_ttl e"
    by (simp add: register_module_def register_interface_def ensure_queue_def Let_def default_interface_def
        split: prod.split)
  moreover have "topic_queue_ttl e = 60"
    using e(1) by (auto simp: sample_engine_def engine_new_def split: bind_splits)
  ultimately have "0 \<le> topic_queue_ttl (register_module 1 sample_info e)" by simp
  from monitor_pass_effect [OF wf this] e(1) show ?thesis by blast
qed

end
