(* ===== verification/Engine_Registration.thy ===== *)
theory Engine_Registration
  imports Job_Router
begin

text \<open>
  Registration over the wire, heartbeats and the admin interface of \<^verbatim>\<open>engine.cpp\<close>: the
  registration worker and its egress worker, the heartbeat publisher and receiver, and the replies
  of the admin worker.  A step is \<open>None\<close> when decoding a message has undefined behaviour; an
  exception a worker catches leaves the state as it was.
\<close>

section \<open>Registration\<close>

text \<open>\<^verbatim>\<open>frames[2]\<close> when there is an empty delimiter, else \<^verbatim>\<open>frames[1]\<close>.\<close>

definition message_part :: "bytes list \<Rightarrow> bytes" where
  "message_part fs = (if 3 \<le> length fs \<and> fs ! 1 = [] then fs ! 2 else fs ! 1)"

definition registration_receive :: "bytes list \<Rightarrow> engine \<Rightarrow> engine" where
  "registration_receive fs e =
     (if 2 \<le> length fs then e\<lparr>reg_in_queue := reg_in_queue e @ [(fs ! 0, message_part fs)]\<rparr> else e)"

definition registration_send :: "engine \<Rightarrow> bytes list list \<times> engine" where
  "registration_send e = (reg_out_queue e, e\<lparr>reg_out_queue := []\<rparr>)"

definition interface_field :: "mobj \<times> mobj \<Rightarrow> interface \<Rightarrow> interface" where
  "interface_field kv iface =
     (case fst kv of
        MStr ik \<Rightarrow>
          (case snd kv of
             MStr s \<Rightarrow>
               if ik = ''name'' then iface\<lparr>if_name := s\<rparr>
               else if ik = ''pattern'' then iface\<lparr>if_pattern := interface_pattern_from_str s\<rparr>
               else if ik = ''event_type'' then iface\<lparr>if_event_type := s\<rparr>
               else iface
           | MPos u \<Rightarrow> if ik = ''durability'' then iface\<lparr>if_durability := ucast u\<rparr> else iface
           | MNeg u \<Rightarrow> if ik = ''durability'' then iface\<lparr>if_durability := ucast u\<rparr> else iface
           | _ \<Rightarrow> iface)
      | _ \<Rightarrow> iface)"

definition parse_interface :: "mobj \<Rightarrow> interface list" where
  "parse_interface iobj =
     (case iobj of
        MMap ikvs \<Rightarrow>
          let iface = fold interface_field ikvs default_interface
          in [if if_event_type iface = [] then iface\<lparr>if_event_type := if_name iface\<rparr> else iface]
      | _ \<Rightarrow> [])"

definition payload_interfaces :: "mobj \<times> mobj \<Rightarrow> interface list" where
  "payload_interfaces pkv =
     (case pkv of (MStr pkey, MArr os) \<Rightarrow> if pkey = ''interfaces'' then concat (map parse_interface os) else []
      | _ \<Rightarrow> [])"

definition parse_interfaces :: "mobj \<Rightarrow> interface list" where
  "parse_interfaces obj =
     (case obj of
        MMap kvs \<Rightarrow>
          concat (map (\<lambda>kv. case kv of (MStr key, MMap pkvs) \<Rightarrow>
              if key = ''payload'' then concat (map payload_interfaces pkvs) else [] | _ \<Rightarrow> []) kvs)
      | _ \<Rightarrow> [])"

text \<open>\<open>None\<close> when the cast of the payload's entry to a string throws.\<close>

definition registered_family :: "message \<Rightarrow> string option" where
  "registered_family msg =
     (case map_of (msg_payload msg) ''family_name'' of
        Some (AString s) \<Rightarrow> Some s
      | Some _ \<Rightarrow> None
      | None \<Rightarrow> Some (if sender msg = [] then ''unknown'' else sender msg))"

definition register_ack :: "string \<Rightarrow> engine \<Rightarrow> message" where
  "register_ack mid e = default_message\<lparr>msg_type := ACK, sender := ''engine'', event := ''register_ack'',
     msg_payload :=
       [(''status'', AString ''ok''), (''module_id'', AString mid),
        (''event_pub_port'', AInt (word_of_int (port (event_endpoint e)))),
        (''event_sub_port'', AInt (word_of_int (port (event_sub_endpoint e)))),
        (''job_port'', AInt (word_of_int (port (job_endpoint e)))),
        (''heartbeat_recv_port'', AInt (word_of_int (port (heartbeat_recv_endpoint e))))]\<rparr>"

definition process_registration :: "env \<Rightarrow> time \<Rightarrow> (nat \<Rightarrow> nat) \<Rightarrow> bytes \<Rightarrow> bytes \<Rightarrow> engine \<Rightarrow> engine option" where
  "process_registration env tnow rnd identity bs e =
     (case decode (env_cx env) bs of
        None \<Rightarrow> None
      | Some None \<Rightarrow> Some e
      | Some (Some msg) \<Rightarrow>
          if msg_type msg \<noteq> REGISTER then Some e
          else case (registered_family msg, cx_unpack (env_cx env) bs) of
            (Some family, Some obj) \<Rightarrow>
              let mid = create_module_id family rnd e;
                  e1 = register_module tnow \<lparr>module_id = mid, interfaces = parse_interfaces obj, metadata = []\<rparr> e;
                  e2 = e1\<lparr>register_count := register_count e1 + 1\<rparr>;
                  ack_data = serialize (env_cx env) (register_ack mid e2)
              in Some (e2\<lparr>reg_out_queue := reg_out_queue e2 @ [[identity, [], ack_data]]\<rparr>)
          | _ \<Rightarrow> Some e)"

definition registration_egress :: "env \<Rightarrow> time \<Rightarrow> (nat \<Rightarrow> nat) \<Rightarrow> engine \<Rightarrow> engine option" where
  "registration_egress env tnow rnd e =
     (case reg_in_queue e of
        [] \<Rightarrow> Some e
      | (identity, bs) # rest \<Rightarrow> process_registration env tnow rnd identity bs (e\<lparr>reg_in_queue := rest\<rparr>))"

section \<open>Heartbeats\<close>

definition heartbeat_publish :: "codec \<Rightarrow> double_bits \<Rightarrow> bytes list" where
  "heartbeat_publish cx stamp =
     [str_bytes ''heartbeat'',
      serialize cx (default_message\<lparr>msg_type := HEARTBEAT, sender := ''engine'', event := ''heartbeat'',
        msg_payload := [(''timestamp'', ADouble stamp)]\<rparr>)]"

text \<open>\<open>None\<close> when an entry is no bool: the cast throws and the map is not stored.\<close>

fun availability_map :: "payload \<Rightarrow> (string \<times> bool) list option" where
  "availability_map [] = Some []"
| "availability_map ((k, v) # kvs) =
     (case v of ABool b \<Rightarrow> do { m \<leftarrow> availability_map kvs; Some ((k, b) # m) } | _ \<Rightarrow> None)"

definition store_availability :: "message \<Rightarrow> engine \<Rightarrow> engine" where
  "store_availability msg e =
     (case map_of (msg_payload msg) ''availability'' of
        Some (APayload amap) \<Rightarrow>
          (case availability_map amap of
             Some avail \<Rightarrow> e\<lparr>module_availability := assoc_put (sender msg) avail (module_availability e)\<rparr>
           | None \<Rightarrow> e)
      | _ \<Rightarrow> e)"

definition recover_handler :: "string \<Rightarrow> engine \<Rightarrow> engine" where
  "recover_handler mid e =
     (case map_of (unavailable_handlers e) mid of
        Some topics \<Rightarrow>
          if topics = [] then e
          else e\<lparr>unavailable_handlers := assoc_del mid (unavailable_handlers e),
                 recovery_events := recovery_events e @ [(mid, topics)]\<rparr>
      | None \<Rightarrow> e)"

definition heartbeat_receive :: "env \<Rightarrow> time \<Rightarrow> bytes list \<Rightarrow> engine \<Rightarrow> engine option" where
  "heartbeat_receive env tnow fs e =
     (if length fs < 2 then Some e
      else case decode (env_cx env) (message_part fs) of
        None \<Rightarrow> None
      | Some None \<Rightarrow> Some e
      | Some (Some msg) \<Rightarrow>
          if msg_type msg \<noteq> HEARTBEAT then Some e
          else
            let e1 = e\<lparr>heartbeats := hb_update tnow (sender msg) (heartbeats e)\<rparr>;
                e2 = store_availability msg e1
            in Some (recover_handler (sender msg) e2))"

section \<open>The admin interface\<close>

definition int_size :: "'a list \<Rightarrow> tok" where
  "int_size xs = PInt (sint (word_of_nat (length xs) :: i32))"

definition module_toks :: "engine \<Rightarrow> string \<times> module_info \<Rightarrow> tok list" where
  "module_toks e p =
     (let (mid, info) = p in
      [PMap 4, PStr ''module_id'', PStr mid, PStr ''liveness'', PInt (hb_get_liveness mid (heartbeats e)),
       PStr ''interfaces'', PArray (word_of_nat (length (interfaces info)))] @
      map (\<lambda>i. PStr (if_name i)) (interfaces info) @ [PStr ''availability''] @
      (case map_of (module_availability e) mid of
         Some av \<Rightarrow> PMap (word_of_nat (length av)) # concat (map (\<lambda>(k, v). [PStr k, PBool v]) av)
       | None \<Rightarrow> [PMap 0]))"

definition queue_toks :: "engine \<Rightarrow> string \<times> queue_ref \<Rightarrow> tok list" where
  "queue_toks e p =
     (let (t, r) = p; q = sm_heap (topic_queues e) ! r in
      [PMap 5, PStr ''name'', PStr t, PStr ''size'', PInt (uint (tq_size q)),
       PStr ''capacity'', PInt (uint (tq_capacity q)), PStr ''processed'', PInt (uint (tq_processed q)),
       PStr ''dropped'', PInt (uint (tq_dropped q))])"

definition job_toks :: "codec \<Rightarrow> string \<times> job_tracking_info \<Rightarrow> tok list" where
  "job_toks cx p =
     (let (cid, info) = p in
      [PMap 5, PStr ''correlation_id'', PStr cid, PStr ''topic'', PStr (jt_topic info),
       PStr ''handler_id'', PStr (handler_id info),
       PStr ''wait_timeout'', PDouble (cx_widen cx (jt_wait_timeout info)),
       PStr ''run_timeout'', PDouble (cx_widen cx (jt_run_timeout info))])"

definition listing :: "string \<Rightarrow> ('a \<Rightarrow> tok list) \<Rightarrow> 'a list \<Rightarrow> tok list" where
  "listing name f xs =
     [PMap 1, PStr name, PArray (word_of_nat (length xs))] @ concat (map f xs)"

text \<open>\<open>uptime\<close> is the double \<^verbatim>\<open>_now() - _start_time\<close>.\<close>

definition admin_reply :: "codec \<Rightarrow> double_bits \<Rightarrow> string \<Rightarrow> engine \<Rightarrow> tok list" where
  "admin_reply cx uptime query e =
     (if query = ''STATUS'' then
        [PMap 4, PStr ''status'', PStr ''running'', PStr ''uptime'', PDouble uptime,
         PStr ''module_count'', int_size (modules e), PStr ''event_count'', PInt (uint (event_count e))]
      else if query = ''MODULES'' then listing ''modules'' (module_toks e) (modules e)
      else if query = ''QUEUES'' then listing ''queues'' (queue_toks e) (snapshot (topic_queues e))
      else if query = ''JOBS'' then listing ''jobs'' (job_toks cx) (job_tracking e)
      else if query = ''DEAD_LETTERS'' then
        listing ''dead_letters'' (\<lambda>r. [PStr r]) (replay None None 100 (dead_letters e))
      else if query = ''STATS'' then
        [PMap 3, PStr ''event_count'', PInt (uint (event_count e)),
         PStr ''register_count'', PInt (uint (register_count e)),
         PStr ''module_count'', int_size (modules e)]
      else [PMap 1, PStr ''error'', PStr (''Unknown query: '' @ query)])"

text \<open>The reply to a received multipart message: none when it is too short or does not unpack.\<close>

definition admin_step :: "codec \<Rightarrow> double_bits \<Rightarrow> bytes list \<Rightarrow> engine \<Rightarrow> bytes list list" where
  "admin_step cx uptime fs e =
     (if length fs < 2 then []
      else case cx_unpack cx (message_part fs) of
        None \<Rightarrow> []
      | Some qobj \<Rightarrow> [[fs ! 0, [], cx_wire cx (admin_reply cx uptime (mstr qobj) e)]])"

section \<open>Registration keeps the invariant\<close>

lemma wf_engine_reg_queues [simp]:
  "wf_engine (e\<lparr>reg_in_queue := ri\<rparr>) = wf_engine e"
  "wf_engine (e\<lparr>reg_out_queue := ro\<rparr>) = wf_engine e"
  "wf_engine (e\<lparr>register_count := rc\<rparr>) = wf_engine e"
  "listed (e\<lparr>reg_out_queue := ro\<rparr>) p t = listed e p t"
  "listed (e\<lparr>register_count := rc\<rparr>) p t = listed e p t"
  by (simp_all add: wf_engine_def wf_jobs_def job_ok_def listed_def pattern_table_def split: interface_pattern.split)

lemma process_registration_spec:
  assumes wf: "wf_engine e" and dec: "decode (env_cx env) bs = Some (Some msg)" and reg: "msg_type msg = REGISTER"
    and fam: "registered_family msg = Some family" and obj: "cx_unpack (env_cx env) bs = Some obj"
    and room: "intern_room (intern_table e) (length (parse_interfaces obj))"
    and free: "\<exists>i < 100. map_of (modules e) (module_id_generate family (rnd i)) = None"
  defines "mid \<equiv> create_module_id family rnd e"
  shows "\<exists>e'. process_registration env tnow rnd identity bs e = Some e' \<and> wf_engine e' \<and>
    map_of (modules e) mid = None \<and> map_of (modules e') mid \<noteq> None \<and>
    (\<forall>i \<in> set (parse_interfaces obj). mid \<in> set (listed e' (if_pattern i) (if_event_type i))) \<and>
    register_count e' = register_count e + 1 \<and>
    reg_out_queue e' = reg_out_queue e @ [[identity, [], serialize (env_cx env) (register_ack mid e)]]"
proof -
  let ?info = "\<lparr>module_id = mid, interfaces = parse_interfaces obj, metadata = []\<rparr>"
  let ?e1 = "register_module tnow ?info e"
  have "intern_room (intern_table e) (length (interfaces ?info))" using room by simp
  note r = register_module_spec [OF wf this, of tnow]
  have same: "register_count ?e1 = register_count e" "reg_out_queue ?e1 = reg_out_queue e"
    "register_ack mid (?e1\<lparr>register_count := rc\<rparr>) = register_ack mid e" for rc
    using register_module_frame [of tnow ?info e] by (simp_all add: register_ack_def)
  have "map_of (modules e) mid = None"
    unfolding mid_def create_module_id_def by (rule create_id_fresh) (use free in auto)
  with r same dec reg fam obj show ?thesis
    by (simp add: process_registration_def mid_def [symmetric] Let_def)
qed

section \<open>Heartbeats\<close>

lemma hb_update_keys: "keys (monitors (hb_update tnow mid hm)) = keys (monitors hm)"
proof (cases "map_of (monitors hm) mid")
  case (Some m)
  then have "mid \<in> keys (monitors hm)" by (metis domI dom_map_of_conv_image_fst)
  with Some show ?thesis by (simp add: hb_update_def insert_absorb)
qed (simp add: hb_update_def)

lemma availability_map_of:
  "availability_map kvs = Some m \<Longrightarrow> map_of m k = Some b \<longleftrightarrow> map_of kvs k = Some (ABool b)"
  by (induction kvs arbitrary: m) (auto split: any_val.splits bind_splits)

lemma wf_heartbeat_fields [simp]:
  "wf_router env (e\<lparr>module_availability := av\<rparr>) = wf_router env e"
  "wf_router env (e\<lparr>unavailable_handlers := uh\<rparr>) = wf_router env e"
  by (simp_all add: wf_router_def wf_engine_def handlers_small_def handlers_of_def wf_jobs_def job_ok_def)

lemma wf_router_heartbeat:
  "wf_router env e \<Longrightarrow> wf_router env (e\<lparr>heartbeats := hb_update tnow mid (heartbeats e)\<rparr>)"
  by (simp add: wf_router_def wf_engine_def handlers_small_def handlers_of_def wf_jobs_def job_ok_def hb_update_keys)

lemma store_availability_upd:
  "store_availability msg e = e\<lparr>module_availability := module_availability (store_availability msg e)\<rparr>"
  by (simp add: store_availability_def split: option.split any_val.split)

lemma heartbeat_receive_spec:
  assumes wf: "wf_router env e" and "2 \<le> length fs"
    and "decode (env_cx env) (message_part fs) = Some (Some msg)" and "msg_type msg = HEARTBEAT"
  shows "\<exists>e'. heartbeat_receive env tnow fs e = Some e' \<and> wf_router env e' \<and>
    heartbeats e' = hb_update tnow (sender msg) (heartbeats e) \<and>
    job_tracking e' = job_tracking e \<and> pending_jobs e' = pending_jobs e \<and>
    job_timeout_events e' = job_timeout_events e \<and>
    (\<forall>p t. listed e' p t = listed e p t) \<and> intern_table e' = intern_table e \<and>
    modules e' = modules e \<and> topic_queue_ttl e' = topic_queue_ttl e \<and>
    (\<forall>ts. map_of (unavailable_handlers e) (sender msg) = Some ts \<and> ts \<noteq> [] \<longrightarrow>
       recovery_events e' = recovery_events e @ [(sender msg, ts)] \<and>
       map_of (unavailable_handlers e') (sender msg) = None) \<and>
    (map_of (unavailable_handlers e) (sender msg) = None \<longrightarrow>
       recovery_events e' = recovery_events e \<and> unavailable_handlers e' = unavailable_handlers e)"
proof -
  let ?e1 = "e\<lparr>heartbeats := hb_update tnow (sender msg) (heartbeats e)\<rparr>"
  define e2 where "e2 = store_availability msg ?e1"
  define av where "av = module_availability e2"
  have av: "e2 = ?e1\<lparr>module_availability := av\<rparr>"
    unfolding e2_def av_def by (rule store_availability_upd)
  have wf2: "wf_router env e2" using wf_router_heartbeat [OF wf] by (simp add: av)
  have hr: "heartbeat_receive env tnow fs e = Some (recover_handler (sender msg) e2)"
    using assms(2-4) by (simp add: heartbeat_receive_def e2_def)
  have u2: "unavailable_handlers e2 = unavailable_handlers e" "recovery_events e2 = recovery_events e"
    by (simp_all add: av)
  show ?thesis
  proof (cases "\<exists>ts. map_of (unavailable_handlers e) (sender msg) = Some ts \<and> ts \<noteq> []")
    case True
    then obtain ts where ts: "map_of (unavailable_handlers e) (sender msg) = Some ts" "ts \<noteq> []" by blast
    then have "recover_handler (sender msg) e2 =
        e2\<lparr>unavailable_handlers := assoc_del (sender msg) (unavailable_handlers e2),
           recovery_events := recovery_events e2 @ [(sender msg, ts)]\<rparr>"
      by (simp add: recover_handler_def u2)
    with wf2 hr ts show ?thesis
      by (simp add: av listed_def pattern_table_def split: interface_pattern.split)
  next
    case False
    then have "recover_handler (sender msg) e2 = e2"
      by (auto simp: recover_handler_def u2 split: option.split)
    with wf2 hr False show ?thesis
      by (auto simp: av listed_def pattern_table_def split: interface_pattern.split)
  qed
qed

section \<open>Admin replies are documents\<close>

definition listing_doc :: "string \<Rightarrow> pdoc list \<Rightarrow> pdoc" where
  "listing_doc name ds = DMap [(name, DArr ds)]"

lemma doc_item_toks_map: "doc_item_toks (map d xs) = concat (map (\<lambda>x. doc_toks (d x)) xs)"
  by (induction xs) simp_all

lemma listing_toks:
  "(\<And>x. f x = doc_toks (d x)) \<Longrightarrow> listing name f xs = doc_toks (listing_doc name (map d xs))"
proof -
  assume "\<And>x. f x = doc_toks (d x)"
  then have "f = (\<lambda>x. doc_toks (d x))" by blast
  then show ?thesis by (simp add: listing_def listing_doc_def doc_item_toks_map)
qed

lemma doc_entry_toks_bools:
  "doc_entry_toks (map (\<lambda>(k, v). (k, DBool v)) av) = concat (map (\<lambda>(k, v). [PStr k, PBool v]) av)"
  by (induction av) auto

definition module_doc :: "engine \<Rightarrow> string \<times> module_info \<Rightarrow> pdoc" where
  "module_doc e p = DMap
     [(''module_id'', DStr (fst p)), (''liveness'', DInt (hb_get_liveness (fst p) (heartbeats e))),
      (''interfaces'', DArr (map (\<lambda>i. DStr (if_name i)) (interfaces (snd p)))),
      (''availability'', DMap (case map_of (module_availability e) (fst p) of
         Some av \<Rightarrow> map (\<lambda>(k, v). (k, DBool v)) av | None \<Rightarrow> []))]"

lemma module_toks_doc: "module_toks e p = doc_toks (module_doc e p)"
  by (cases p) (simp add: module_toks_def module_doc_def doc_item_toks_map doc_entry_toks_bools
      split: option.split)

definition queue_doc :: "engine \<Rightarrow> string \<times> queue_ref \<Rightarrow> pdoc" where
  "queue_doc e p = (let q = sm_heap (topic_queues e) ! snd p in DMap
     [(''name'', DStr (fst p)), (''size'', DInt (uint (tq_size q))), (''capacity'', DInt (uint (tq_capacity q))),
      (''processed'', DInt (uint (tq_processed q))), (''dropped'', DInt (uint (tq_dropped q)))])"

definition job_doc :: "codec \<Rightarrow> string \<times> job_tracking_info \<Rightarrow> pdoc" where
  "job_doc cx p = DMap
     [(''correlation_id'', DStr (fst p)), (''topic'', DStr (jt_topic (snd p))), (''handler_id'', DStr (handler_id (snd p))),
      (''wait_timeout'', DDouble (cx_widen cx (jt_wait_timeout (snd p)))),
      (''run_timeout'', DDouble (cx_widen cx (jt_run_timeout (snd p))))]"

lemma queue_job_toks_doc:
  "queue_toks e p = doc_toks (queue_doc e p)" "job_toks cx j = doc_toks (job_doc cx j)"
  by (cases p; cases j; simp add: queue_toks_def queue_doc_def job_toks_def job_doc_def Let_def)+

definition int_size_doc :: "'a list \<Rightarrow> pdoc" where
  "int_size_doc xs = DInt (sint (word_of_nat (length xs) :: i32))"

definition admin_doc :: "codec \<Rightarrow> double_bits \<Rightarrow> string \<Rightarrow> engine \<Rightarrow> pdoc" where
  "admin_doc cx uptime query e =
     (if query = ''STATUS'' then
        DMap [(''status'', DStr ''running''), (''uptime'', DDouble uptime),
          (''module_count'', int_size_doc (modules e)), (''event_count'', DInt (uint (event_count e)))]
      else if query = ''MODULES'' then listing_doc ''modules'' (map (module_doc e) (modules e))
      else if query = ''QUEUES'' then listing_doc ''queues'' (map (queue_doc e) (snapshot (topic_queues e)))
      else if query = ''JOBS'' then listing_doc ''jobs'' (map (job_doc cx) (job_tracking e))
      else if query = ''DEAD_LETTERS'' then
        listing_doc ''dead_letters'' (map DStr (replay None None 100 (dead_letters e)))
      else if query = ''STATS'' then
        DMap [(''event_count'', DInt (uint (event_count e))), (''register_count'', DInt (uint (register_count e))),
          (''module_count'', int_size_doc (modules e))]
      else DMap [(''error'', DStr (''Unknown query: '' @ query))])"

lemma admin_reply_doc: "admin_reply cx uptime query e = doc_toks (admin_doc cx uptime query e)"
  by (simp add: admin_reply_def admin_doc_def module_toks_doc queue_job_toks_doc int_size_def int_size_doc_def
      listing_toks [of "module_toks e" "module_doc e"] listing_toks [of "queue_toks e" "queue_doc e"]
      listing_toks [of "job_toks cx" "job_doc cx"] listing_toks [of "\<lambda>r. [PStr r]" DStr])

end
