(* ===== verification/Flat_Message.thy ===== *)
theory Flat_Message
  imports Message
begin

text \<open>
  The binary format between C++ modules: \<^verbatim>\<open>src/tyche/cpp/flat_message.h\<close> and
  \<^verbatim>\<open>flat_serializer.h\<close>.  A buffer is the bytes behind the caller's pointer (\<open>None\<close> is the null
  pointer); the packed structs are their object representation.  Reading goes through
  \<open>flat_read\<close>, which has no value outside the buffer, so that \<open>deserialize_flat\<close> returning a
  message at all shows that it stays inside.
\<close>

definition sizeof_FlatMessageHeader :: nat where
  "sizeof_FlatMessageHeader = 24"

definition sizeof_FlatQuoteTickData :: nat where
  "sizeof_FlatQuoteTickData = 72"

text \<open>The twenty bytes of the header that are written; the four padding bytes keep what the
  buffer held.\<close>

definition flat_header_bytes :: "u8 \<Rightarrow> u8 \<Rightarrow> u16 \<Rightarrow> u16 \<Rightarrow> u16 \<Rightarrow> u32 \<Rightarrow> double_bits \<Rightarrow> bytes" where
  "flat_header_bytes mt dur sl el pl tot ts =
     [mt, dur] @ le_bytes 2 (unat sl) @ le_bytes 2 (unat el) @ le_bytes 2 (unat pl) @
     le_bytes 4 (unat tot) @ le_bytes 8 (unat ts)"

section \<open>Serialisation\<close>

text \<open>The length pass over a payload value, and the bytes the write pass emits for it.\<close>

fun flat_value_len :: "any_val \<Rightarrow> nat" where
  "flat_value_len (AString s) = 4 + length s"
| "flat_value_len (ADouble _) = 8"
| "flat_value_len (AInt _) = 4"
| "flat_value_len (AInt64 _) = 8"
| "flat_value_len (AUInt64 _) = 8"
| "flat_value_len (AFloat _) = 4"
| "flat_value_len (ABool _) = 1"
| "flat_value_len _ = 0"

definition flat_payload_len :: "payload \<Rightarrow> nat" where
  "flat_payload_len p =
     (if p = [] then 0
      else 4 + sum_list (map (\<lambda>(k, v). (4 + length k) + 1 + flat_value_len v) p))"

fun flat_value_bytes :: "any_val \<Rightarrow> bytes" where
  "flat_value_bytes (AString s) = 0x01 # le_bytes 4 (unat (word_of_nat (length s) :: u32)) @ str_bytes s"
| "flat_value_bytes (ADouble d) = 0x02 # le_bytes 8 (unat d)"
| "flat_value_bytes (AInt i) = 0x03 # le_bytes 4 (unat i)"
| "flat_value_bytes (AInt64 i) = 0x04 # le_bytes 8 (unat i)"
| "flat_value_bytes (AUInt64 u) = 0x05 # le_bytes 8 (unat u)"
| "flat_value_bytes (AFloat f) = 0x06 # le_bytes 4 (unat f)"
| "flat_value_bytes (ABool b) = [0x07, if b then 1 else 0]"
| "flat_value_bytes _ = [0x00]"

definition flat_entry_bytes :: "string \<times> any_val \<Rightarrow> bytes" where
  "flat_entry_bytes kv =
     le_bytes 4 (unat (word_of_nat (length (fst kv)) :: u32)) @ str_bytes (fst kv) @
     flat_value_bytes (snd kv)"

definition flat_payload_bytes :: "payload \<Rightarrow> bytes" where
  "flat_payload_bytes p =
     (if p = [] then []
      else le_bytes 4 (unat (word_of_nat (length p) :: u32)) @ concat (map flat_entry_bytes p))"

definition serialize_flat :: "message \<Rightarrow> bytes option \<Rightarrow> nat \<Rightarrow> nat \<times> bytes option" where
  "serialize_flat msg buffer capacity =
     (case buffer of None \<Rightarrow> (0, None)
      | Some buf \<Rightarrow>
        if capacity < sizeof_FlatMessageHeader then (0, Some buf)
        else
          let sender_len = length (sender msg);
              event_len = length (event msg);
              payload_len = flat_payload_len (msg_payload msg);
              total_size = sizeof_FlatMessageHeader + sender_len + event_len + payload_len
          in if total_size > capacity then (0, Some buf)
          else
            let hdr = flat_header_bytes (message_type_code (msg_type msg)) (ucast (durability msg))
                  (word_of_nat sender_len) (word_of_nat event_len)
                  (word_of_nat (if payload_len > 65535 then 65535 else payload_len))
                  (word_of_nat total_size)
                  (case timestamp msg of None \<Rightarrow> 0 | Some t \<Rightarrow> t);
                out = hdr @ take 4 (drop 20 buf) @ str_bytes (sender msg) @ str_bytes (event msg) @
                  flat_payload_bytes (msg_payload msg)
            in (total_size, Some (out @ drop total_size buf)))"

section \<open>Deserialisation\<close>

definition flat_read :: "bytes \<Rightarrow> nat \<Rightarrow> nat \<Rightarrow> bytes option" where
  "flat_read data off n = (if off + n \<le> length data then Some (take n (drop off data)) else None)"

text \<open>Reads a string of \<open>len\<close> bytes at offset \<open>p\<close> when it is not empty and fits.\<close>

definition flat_read_string :: "bytes \<Rightarrow> nat \<Rightarrow> nat \<Rightarrow> (string \<times> nat) option" where
  "flat_read_string data p len =
     (if len > 0 \<and> p + len \<le> length data
      then do { bs \<leftarrow> flat_read data p len; Some (bytes_str bs, p + len) }
      else Some ([], p))"

definition deserialize_flat :: "bytes option \<Rightarrow> message option" where
  "deserialize_flat buffer =
     (case buffer of None \<Rightarrow> Some (default_message\<lparr>msg_type := COMMAND\<rparr>)
      | Some data \<Rightarrow>
        if length data < sizeof_FlatMessageHeader then Some (default_message\<lparr>msg_type := COMMAND\<rparr>)
        else do {
          total_size \<leftarrow> flat_read data 8 4;
          if le_nat total_size > length data then Some (default_message\<lparr>msg_type := COMMAND\<rparr>)
          else do {
            mt \<leftarrow> flat_read data 0 1;
            dur \<leftarrow> flat_read data 1 1;
            sender_len \<leftarrow> flat_read data 2 2;
            event_len \<leftarrow> flat_read data 4 2;
            payload_len \<leftarrow> flat_read data 6 2;
            ts \<leftarrow> flat_read data 12 8;
            (snd_str, p) \<leftarrow> flat_read_string data sizeof_FlatMessageHeader (le_nat sender_len);
            (ev_str, p) \<leftarrow> flat_read_string data p (le_nat event_len);
            let remaining = length data - p;
            let msg = default_message\<lparr>
              msg_type := message_type_of_code (word_of_nat (le_nat mt)),
              durability := word_of_nat (le_nat dur),
              timestamp := Some (word_of_nat (le_nat ts)),
              sender := snd_str, event := ev_str\<rparr>;
            if remaining > 0 \<and> le_nat payload_len > 0 then do {
              raw \<leftarrow> flat_read data p (min (le_nat payload_len) remaining);
              Some (msg\<lparr>msg_payload := assoc_put ''__flat__'' (ABytes raw) (msg_payload msg)\<rparr>)
            } else Some msg
          }
        })"

section \<open>Quote ticks\<close>

record flat_quote_tick =
  fq_symbol :: bytes
  fq_bid :: double_bits
  fq_ask :: double_bits
  fq_last :: double_bits
  fq_volume :: u64
  fq_timestamp :: double_bits
  fq_local_ts :: double_bits
  fq_tick_count :: u32
  fq_flags :: u8
  fq_pad :: bytes

definition flat_quote_bytes :: "flat_quote_tick \<Rightarrow> bytes" where
  "flat_quote_bytes t =
     fq_symbol t @ le_bytes 8 (unat (fq_bid t)) @ le_bytes 8 (unat (fq_ask t)) @
     le_bytes 8 (unat (fq_last t)) @ le_bytes 8 (unat (fq_volume t)) @
     le_bytes 8 (unat (fq_timestamp t)) @ le_bytes 8 (unat (fq_local_ts t)) @
     le_bytes 4 (unat (fq_tick_count t)) @ [fq_flags t] @ fq_pad t"

definition IS_OPTION :: u8 where
  "IS_OPTION = 0x01"

definition IS_STALE :: u8 where
  "IS_STALE = 0x02"

definition fq_is_option :: "flat_quote_tick \<Rightarrow> bool" where
  "fq_is_option t \<longleftrightarrow> fq_flags t AND IS_OPTION \<noteq> 0"

definition fq_is_stale :: "flat_quote_tick \<Rightarrow> bool" where
  "fq_is_stale t \<longleftrightarrow> fq_flags t AND IS_STALE \<noteq> 0"

definition fq_set_option :: "flat_quote_tick \<Rightarrow> flat_quote_tick" where
  "fq_set_option t = t\<lparr>fq_flags := fq_flags t OR IS_OPTION\<rparr>"

definition fq_set_stale :: "flat_quote_tick \<Rightarrow> flat_quote_tick" where
  "fq_set_stale t = t\<lparr>fq_flags := fq_flags t OR IS_STALE\<rparr>"

text \<open>
  \<open>addr\<close> is the address of the buffer; \<^verbatim>\<open>FlatQuoteTickData\<close> is packed, so its alignment is 1.
\<close>

definition alignof_FlatQuoteTickData :: nat where
  "alignof_FlatQuoteTickData = 1"

definition serialize_flat_quote ::
    "flat_quote_tick \<Rightarrow> nat \<Rightarrow> bytes option \<Rightarrow> nat \<Rightarrow> nat \<times> bytes option" where
  "serialize_flat_quote t addr buffer capacity =
     (case buffer of None \<Rightarrow> (0, None)
      | Some buf \<Rightarrow>
        if capacity < sizeof_FlatQuoteTickData then (0, Some buf)
        else if addr mod alignof_FlatQuoteTickData \<noteq> 0 then (0, Some buf)
        else (sizeof_FlatQuoteTickData,
              Some (flat_quote_bytes t @ drop sizeof_FlatQuoteTickData buf)))"

text \<open>The fields behind the pointer \<^verbatim>\<open>deserialize_flat_quote\<close> returns (\<open>None\<close> is the null pointer).\<close>

definition deserialize_flat_quote :: "nat \<Rightarrow> bytes option \<Rightarrow> flat_quote_tick option" where
  "deserialize_flat_quote addr buffer =
     (case buffer of None \<Rightarrow> None
      | Some data \<Rightarrow>
        if length data < sizeof_FlatQuoteTickData then None
        else if addr mod alignof_FlatQuoteTickData \<noteq> 0 then None
        else
          let f = (\<lambda>off n. le_nat (take n (drop off data))) in
          Some \<lparr>fq_symbol = take 16 data, fq_bid = word_of_nat (f 16 8), fq_ask = word_of_nat (f 24 8),
            fq_last = word_of_nat (f 32 8), fq_volume = word_of_nat (f 40 8),
            fq_timestamp = word_of_nat (f 48 8), fq_local_ts = word_of_nat (f 56 8),
            fq_tick_count = word_of_nat (f 64 4), fq_flags = data ! 68,
            fq_pad = take 3 (drop 69 data)\<rparr>)"

section \<open>Lemmas\<close>

lemma length_flat_value: "length (flat_value_bytes v) = Suc (flat_value_len v)"
  by (cases v) simp_all

lemma length_flat_payload: "length (flat_payload_bytes p) = flat_payload_len p"
proof -
  have "length (concat (map flat_entry_bytes p)) =
      sum_list (map (\<lambda>(k, v). (4 + length k) + 1 + flat_value_len v) p)"
    by (induction p) (auto simp: flat_entry_bytes_def length_flat_value)
  then show ?thesis by (simp add: flat_payload_bytes_def flat_payload_len_def)
qed

lemma length_flat_header [simp]: "length (flat_header_bytes mt dur sl el pl tot ts) = 20"
  by (simp add: flat_header_bytes_def)

lemma unat_bytes_small [simp]:
  "unat (x :: u8) < 256" "unat (x16 :: u16) < 65536" "unat (x32 :: u32) < 4294967296"
  "unat (x64 :: u64) < 18446744073709551616"
  using unsigned_less [of x] unsigned_less [of x16] unsigned_less [of x32] unsigned_less [of x64]
  by simp_all

lemma flat_read_ok: "off + n \<le> length data \<Longrightarrow> flat_read data off n = Some (take n (drop off data))"
  by (simp add: flat_read_def)

lemma flat_read_string_cases:
  assumes "p \<le> length data"
  obtains s p' where "flat_read_string data p len = Some (s, p')" and "p \<le> p'" and "p' \<le> length data"
    and "length s \<le> len"
  using assms by (cases "len > 0 \<and> p + len \<le> length data")
    (auto simp: flat_read_string_def flat_read_def)

lemma flat_header_fields:
  fixes mt dur sl el pl tot ts rest
  defines "data \<equiv> flat_header_bytes mt dur sl el pl tot ts @ rest"
  shows "flat_read data 0 1 = Some [mt]" "flat_read data 1 1 = Some [dur]"
    "flat_read data 2 2 = Some (le_bytes 2 (unat sl))" "flat_read data 4 2 = Some (le_bytes 2 (unat el))"
    "flat_read data 6 2 = Some (le_bytes 2 (unat pl))" "flat_read data 8 4 = Some (le_bytes 4 (unat tot))"
    "flat_read data 12 8 = Some (le_bytes 8 (unat ts))"
  by (simp_all add: data_def flat_read_def flat_header_bytes_def numeral_2_eq_2 [symmetric])

lemma flat_read_string_at:
  assumes "length pre = off"
  shows "flat_read_string (pre @ str_bytes s @ rest) off (length s) = Some (s, off + length s)"
  using assms by (cases s) (auto simp: flat_read_string_def flat_read_def)

text \<open>The bytes of a serialised message, and what they read back as.\<close>

lemma deserialize_flat_bytes:
  assumes data: "data = flat_header_bytes mt dur sl el pl tot ts @ pad @ str_bytes sn @ str_bytes ev @ pay"
    and "length pad = 4" and sl: "unat sl = length sn" and el: "unat el = length ev"
    and pl: "unat pl = length pay" and tot: "unat tot = length data"
  shows "deserialize_flat (Some data) =
    Some (default_message\<lparr>msg_type := message_type_of_code mt, durability := ucast dur,
      timestamp := Some ts, sender := sn, event := ev,
      msg_payload := (if pay = [] then [] else [(''__flat__'', ABytes pay)])\<rparr>)"
proof -
  let ?hdr = "flat_header_bytes mt dur sl el pl tot ts"
  note fields = flat_header_fields [of mt dur sl el pl tot ts
      "pad @ str_bytes sn @ str_bytes ev @ pay", folded data]
  have len: "length data = 24 + length sn + length ev + length pay"
    using assms(2) by (simp add: data)
  have s: "flat_read_string data 24 (length sn) = Some (sn, 24 + length sn)"
    using flat_read_string_at [of "?hdr @ pad" 24 sn] assms(2) by (simp add: data)
  have e: "flat_read_string data (24 + length sn) (length ev) = Some (ev, 24 + length sn + length ev)"
    using flat_read_string_at [of "?hdr @ pad @ str_bytes sn" "24 + length sn" ev] assms(2)
    by (simp add: data)
  have r: "flat_read data (24 + length sn + length ev) (length pay) = Some pay"
    using assms(2) by (simp add: data flat_read_def)
  have "length sn < 256 ^ 2" "length ev < 256 ^ 2" "length pay < 256 ^ 2" "length data < 256 ^ 4"
    using unat_bytes_small(2) [of sl] unat_bytes_small(2) [of el] unat_bytes_small(2) [of pl]
      unat_bytes_small(3) [of tot] by (simp_all add: sl el pl tot)
  then show ?thesis
    using fields s e r tot len
    by (simp add: deserialize_flat_def sizeof_FlatMessageHeader_def sl el pl Let_def default_message_def)
qed

lemma deserialize_flat_total:
  "\<exists>m. deserialize_flat (Some data) = Some m \<and>
    (length data < 24 \<or> le_nat (take 4 (drop 8 data)) > length data \<longrightarrow>
       m = default_message\<lparr>msg_type := COMMAND\<rparr>) \<and>
    length (sender m) \<le> length data \<and> length (sender m) < 65536"
proof (cases "length data < 24 \<or> le_nat (take 4 (drop 8 data)) > length data")
  case True
  then show ?thesis
    by (auto simp: deserialize_flat_def sizeof_FlatMessageHeader_def flat_read_ok default_message_def)
next
  case False
  let ?sl = "le_nat (take 2 (drop 2 data))" and ?el = "le_nat (take 2 (drop 4 data))"
  obtain s p where s: "flat_read_string data 24 ?sl = Some (s, p)" "24 \<le> p" "p \<le> length data"
    "length s \<le> ?sl"
    using False by (auto intro: flat_read_string_cases [of 24 data ?sl])
  obtain e q where e: "flat_read_string data p ?el = Some (e, q)" "q \<le> length data"
    using s(3) by (auto intro: flat_read_string_cases [of p data ?el])
  have "?sl < 65536"
    using le_nat_less [of "take 2 (drop 2 data)"] False by (simp add: min_def split: if_splits)
  moreover have "length s \<le> length data"
    using s by (auto simp: flat_read_string_def flat_read_def split: if_splits)
  ultimately show ?thesis
    using False s e
    by (auto simp: deserialize_flat_def sizeof_FlatMessageHeader_def flat_read_ok Let_def
        default_message_def)
qed

section \<open>Properties\<close>

text \<open>C15: A message that fits the caller's buffer and the 16-bit length fields is written in full,
  the number of bytes is the total size, the rest of the buffer is untouched, and reading the
  written bytes back gives its type, sender, event, timestamp (0.0 when there was none), the low
  byte of its durability, and the encoded payload as raw bytes under the key \<open>__flat__\<close>.\<close>

theorem flat_roundtrip:
  assumes "tot = 24 + length (sender msg) + length (event msg) + flat_payload_len (msg_payload msg)"
    and "tot \<le> capacity" and "capacity \<le> length buf" and "tot < 2 ^ 32"
    and "length (sender msg) < 65536" and "length (event msg) < 65536"
    and "flat_payload_len (msg_payload msg) < 65536"
  shows "\<exists>out. serialize_flat msg (Some buf) capacity = (tot, Some (out @ drop tot buf)) \<and>
    length out = tot \<and>
    deserialize_flat (Some out) = Some (default_message\<lparr>
      msg_type := message_type_of_code (message_type_code (msg_type msg)),
      durability := ucast (ucast (durability msg) :: u8),
      timestamp := Some (case timestamp msg of None \<Rightarrow> 0 | Some t \<Rightarrow> t),
      sender := sender msg, event := event msg,
      msg_payload := (if msg_payload msg = [] then []
        else [(''__flat__'', ABytes (flat_payload_bytes (msg_payload msg)))])\<rparr>)"
proof -
  let ?pay = "flat_payload_bytes (msg_payload msg)"
  define out where "out = flat_header_bytes (message_type_code (msg_type msg)) (ucast (durability msg))
    (word_of_nat (length (sender msg))) (word_of_nat (length (event msg))) (word_of_nat (length ?pay))
    (word_of_nat tot) (case timestamp msg of None \<Rightarrow> 0 | Some t \<Rightarrow> t) @ take 4 (drop 20 buf) @
    str_bytes (sender msg) @ str_bytes (event msg) @ ?pay"
  have pad: "length (take 4 (drop 20 buf)) = 4"
    using assms(1-3) by simp
  have len: "length out = tot"
    using pad assms(1) by (simp add: out_def length_flat_payload)
  have "serialize_flat msg (Some buf) capacity = (tot, Some (out @ drop tot buf))"
    using assms(1,2,7) by (simp add: serialize_flat_def sizeof_FlatMessageHeader_def Let_def
        out_def length_flat_payload)
  moreover have "?pay = [] \<longleftrightarrow> msg_payload msg = []"
    by (cases "msg_payload msg") (simp_all add: flat_payload_bytes_def)
  ultimately show ?thesis
    using deserialize_flat_bytes [OF out_def pad] len assms(4-7) by (auto simp: length_flat_payload)
qed

theorem flat_roundtrip_witness:
  "\<exists>out. serialize_flat sample_message (Some (replicate 200 7)) 200 = (68, Some (out @ replicate 132 7)) \<and>
    length out = 68 \<and> (\<exists>m'. deserialize_flat (Some out) = Some m' \<and> sender m' = ''gw'')"
  using flat_roundtrip [of 68 sample_message 200 "replicate 200 7"]
  by (auto simp: flat_payload_len_def)

text \<open>C33: \<^verbatim>\<open>deserialize_flat\<close> never reads outside the buffer, whatever bytes it is given:
  it always returns a message.  A buffer shorter than the header, or one that announces a larger
  total size, gives the error marker.\<close>

theorem deserialize_flat_in_bounds:
  "\<exists>m. deserialize_flat (Some data) = Some m \<and>
    (length data < 24 \<or> le_nat (take 4 (drop 8 data)) > length data \<longrightarrow>
       m = default_message\<lparr>msg_type := COMMAND\<rparr>) \<and>
    length (sender m) \<le> length data \<and> length (sender m) < 65536"
  by (rule deserialize_flat_total)

theorem deserialize_flat_in_bounds_witness:
  "\<exists>m. deserialize_flat (Some [1, 2, 3]) = Some m \<and> m = default_message\<lparr>msg_type := COMMAND\<rparr>"
  using deserialize_flat_in_bounds [of "[1, 2, 3]"] by simp

text \<open>A sender of 65536 characters or more is accepted and reported as written, but its
  length is cut to 16 bits in the header, so it does not come back.\<close>

lemma flat_long_sender_lost:
  assumes "65536 \<le> length (sender msg)" and "capacity \<le> length buf"
    and "24 + length (sender msg) + length (event msg) + flat_payload_len (msg_payload msg) \<le> capacity"
  shows "\<exists>n buf' m'. serialize_flat msg (Some buf) capacity = (n, Some buf') \<and> n > 0 \<and>
    deserialize_flat (Some (take n buf')) = Some m' \<and> sender m' \<noteq> sender msg"
proof -
  obtain n buf' where "serialize_flat msg (Some buf) capacity = (n, Some buf')" "n > 0"
    using assms by (auto simp: serialize_flat_def sizeof_FlatMessageHeader_def Let_def)
  moreover obtain m' where "deserialize_flat (Some (take n buf')) = Some m'" "length (sender m') < 65536"
    using deserialize_flat_total [of "take n buf'"] by blast
  ultimately show ?thesis using assms(1) by (metis not_less)
qed

lemma flat_long_sender_lost_witness:
  "\<exists>n buf' m'. serialize_flat (default_message\<lparr>sender := replicate 65536 (CHR ''x'')\<rparr>)
      (Some (replicate 70000 0)) 70000 = (n, Some buf') \<and> n > 0 \<and>
    deserialize_flat (Some (take n buf')) = Some m' \<and> sender m' \<noteq> replicate 65536 (CHR ''x'')"
  using flat_long_sender_lost [of "default_message\<lparr>sender := replicate 65536 (CHR ''x'')\<rparr>" 70000
      "replicate 70000 0"]
  by (simp add: default_message_def flat_payload_len_def)

text \<open>A quote tick written by \<^verbatim>\<open>serialize_flat_quote\<close> at any address reads back field by
  field, the alignment check never rejects it, and setting one flag keeps the other.\<close>

lemma flat_quote_roundtrip:
  assumes "length (fq_symbol t) = 16" and "length (fq_pad t) = 3" and "72 \<le> capacity"
    and "capacity \<le> length buf"
  shows "\<exists>out. serialize_flat_quote t addr (Some buf) capacity = (72, Some (out @ drop 72 buf)) \<and>
    deserialize_flat_quote addr' (Some out) = Some t \<and>
    fq_is_option (fq_set_option t) \<and> fq_is_stale (fq_set_option t) = fq_is_stale t \<and>
    fq_is_stale (fq_set_stale t) \<and> fq_is_option (fq_set_stale t) = fq_is_option t"
proof (intro exI conjI)
  show "serialize_flat_quote t addr (Some buf) capacity = (72, Some (flat_quote_bytes t @ drop 72 buf))"
    using assms(3) by (simp add: serialize_flat_quote_def sizeof_FlatQuoteTickData_def
        alignof_FlatQuoteTickData_def)
  show "deserialize_flat_quote addr' (Some (flat_quote_bytes t)) = Some t"
    using assms(1,2) by (simp add: deserialize_flat_quote_def flat_quote_bytes_def Let_def
        sizeof_FlatQuoteTickData_def alignof_FlatQuoteTickData_def nth_append)
qed (simp_all add: fq_is_option_def fq_set_option_def fq_is_stale_def fq_set_stale_def IS_OPTION_def
    IS_STALE_def bit.conj_disj_distrib2)

lemma flat_quote_roundtrip_witness:
  "\<exists>out. serialize_flat_quote \<lparr>fq_symbol = replicate 16 65, fq_bid = 1, fq_ask = 2, fq_last = 3,
      fq_volume = 4, fq_timestamp = 5, fq_local_ts = 6, fq_tick_count = 7, fq_flags = 0,
      fq_pad = [0, 0, 0]\<rparr> 3 (Some (replicate 80 9)) 80 = (72, Some (out @ replicate 8 9))"
  using flat_quote_roundtrip [of "\<lparr>fq_symbol = replicate 16 65, fq_bid = 1, fq_ask = 2, fq_last = 3,
      fq_volume = 4, fq_timestamp = 5, fq_local_ts = 6, fq_tick_count = 7, fq_flags = 0,
      fq_pad = [0, 0, 0]\<rparr>" 80 "replicate 80 9" 3]
  by auto

end
