(* ===== verification/Tyche_Module.thy ===== *)
theory Tyche_Module
  imports Message String_Intern Flat_Message
begin

text \<open>
  The client side, \<^verbatim>\<open>src/tyche/cpp/module.h\<close> and \<^verbatim>\<open>module.cpp\<close>: registering interfaces, the
  registration request and its acknowledgement, publishing and dispatching events, heartbeats, and
  job requests and responses.  A socket is the endpoint it is connected to, or \<open>None\<close>; what is sent
  is returned.  An event handler is a token, the empty \<^verbatim>\<open>std::function\<close> is \<open>None\<close>, and dispatching
  yields the handler that is called with its argument; a job handler is a function that returns a
  payload or throws.  Pending requests are shared objects, so they live on a heap.
\<close>

datatype job_outcome = JReturn payload | JException string | JUnknown

type_synonym job_handler = "payload \<Rightarrow> job_outcome"

record pending_request =
  pr_result :: payload
  pr_ready :: bool

record tyche_module =
  family_name :: string
  own_id :: string
  tm_engine_endpoint :: endpoint
  heartbeat_receive_endpoint :: "endpoint option"
  tm_running :: bool
  tm_registered :: bool
  tm_interfaces :: "interface list"
  tm_intern :: string_intern
  tm_handlers :: "(intern_id \<times> nat option \<times> interface_pattern) list"
  tm_job_handlers :: "(intern_id \<times> job_handler) list"
  pending_heap :: "pending_request list"
  pending_requests :: "(string \<times> nat) list"
  engine_pub_port :: i32
  engine_sub_port :: i32
  engine_job_port :: i32
  pub_socket :: "string option"
  sub_socket :: "string option"
  subscriptions :: "string list"
  heartbeat_socket :: "string option"
  job_socket :: "(string \<times> string) option"

definition module_new :: "endpoint \<Rightarrow> string \<Rightarrow> endpoint option \<Rightarrow> tyche_module" where
  "module_new ep family hb = \<lparr>family_name = family, own_id = [], tm_engine_endpoint = ep,
     heartbeat_receive_endpoint = hb, tm_running = False, tm_registered = False, tm_interfaces = [],
     tm_intern = string_intern_new, tm_handlers = [], tm_job_handlers = [], pending_heap = [],
     pending_requests = [], engine_pub_port = 0, engine_sub_port = 0, engine_job_port = 0,
     pub_socket = None, sub_socket = None, subscriptions = [], heartbeat_socket = None, job_socket = None\<rparr>"

definition shown_id :: "tyche_module \<Rightarrow> string" where
  "shown_id m = (if own_id m = [] then family_name m else own_id m)"

section \<open>Registering interfaces\<close>

text \<open>\<^verbatim>\<open>name.rfind(p, 0) == 0\<close>: \<open>p\<close> is a prefix of the name.\<close>

definition has_prefix :: "string \<Rightarrow> string \<Rightarrow> bool" where
  "has_prefix p s \<longleftrightarrow> take (length p) s = p"

definition handler_event :: "string \<Rightarrow> string" where
  "handler_event nm = (if has_prefix ''on_'' nm then drop 3 nm
     else if has_prefix ''handle_'' nm then drop 7 nm else nm)"

definition job_event :: "string \<Rightarrow> string" where
  "job_event nm = (if has_prefix ''handle_'' nm then drop 7 nm else nm)"

definition producer_event :: "string \<Rightarrow> string" where
  "producer_event nm = (if has_prefix ''send_'' nm then drop 5 nm
     else if has_prefix ''request_'' nm then drop 8 nm else nm)"

definition new_interface :: "string \<Rightarrow> interface_pattern \<Rightarrow> string \<Rightarrow> durability_level \<Rightarrow> interface" where
  "new_interface nm pat ev dur = default_interface\<lparr>if_name := nm, if_pattern := pat, if_event_type := ev,
     if_durability := dur\<rparr>"

definition register_handler :: "string \<Rightarrow> nat option \<Rightarrow> interface_pattern \<Rightarrow> durability_level \<Rightarrow>
    tyche_module \<Rightarrow> tyche_module" where
  "register_handler nm handler pat dur m =
     (let bare = handler_event nm; (i, tbl) = intern bare (tm_intern m)
      in m\<lparr>tm_intern := tbl, tm_handlers := assoc_put i (handler, pat) (tm_handlers m),
           tm_interfaces := tm_interfaces m @ [new_interface nm pat bare dur]\<rparr>)"

definition register_job_handler :: "string \<Rightarrow> job_handler \<Rightarrow> durability_level \<Rightarrow> tyche_module \<Rightarrow> tyche_module" where
  "register_job_handler nm handler dur m =
     (let bare = job_event nm; (i, tbl) = intern bare (tm_intern m)
      in m\<lparr>tm_intern := tbl, tm_job_handlers := assoc_put i handler (tm_job_handlers m),
           tm_interfaces := tm_interfaces m @ [new_interface nm HANDLE bare dur]\<rparr>)"

definition register_producer :: "string \<Rightarrow> interface_pattern \<Rightarrow> durability_level \<Rightarrow> tyche_module \<Rightarrow> tyche_module" where
  "register_producer nm pat dur m =
     m\<lparr>tm_interfaces := tm_interfaces m @ [new_interface nm pat (producer_event nm) dur]\<rparr>"

section \<open>Registering with the engine\<close>

definition interface_toks :: "interface \<Rightarrow> tok list" where
  "interface_toks iface =
     [PMap 4, PStr ''name'', PStr (if_name iface),
      PStr ''pattern'', PStr (interface_pattern_to_str (if_pattern iface)),
      PStr ''event_type'', PStr (if_event_type iface),
      PStr ''durability'', PInt (sint (if_durability iface))]"

definition registration_toks :: "tyche_module \<Rightarrow> tok list" where
  "registration_toks m =
     [PMap 8, PStr ''msg_type'', PStr ''reg'', PStr ''sender'', PStr (family_name m),
      PStr ''event'', PStr ''register'', PStr ''payload'', PMap 3,
      PStr ''family_name'', PStr (family_name m),
      PStr ''interfaces'', PArray (word_of_nat (length (tm_interfaces m)))] @
     concat (map interface_toks (tm_interfaces m)) @
     [PStr ''metadata'', PMap 0, PStr ''recipient'', PNil,
      PStr ''durability'', PInt (sint ASYNC_FLUSH), PStr ''timestamp'', PNil, PStr ''correlation_id'', PNil]"

text \<open>Taking a port from the acknowledgement; \<open>None\<close> when the cast throws.\<close>

definition port_value :: "any_val \<Rightarrow> i32 option" where
  "port_value v = (case v of AInt i \<Rightarrow> Some i | _ \<Rightarrow> None)"

text \<open>The flag \<^verbatim>\<open>_register_with_engine\<close> returns, and the module as it leaves it; every member set
  before a cast throws stays set.\<close>

definition take_ports :: "payload \<Rightarrow> tyche_module \<Rightarrow> bool \<times> tyche_module" where
  "take_ports p m =
     (case (map_of p ''event_pub_port'', map_of p ''event_sub_port'') of
        (Some pub, Some sub) \<Rightarrow>
          (case port_value pub of
             None \<Rightarrow> (False, m)
           | Some pp \<Rightarrow>
               let m1 = m\<lparr>engine_pub_port := pp\<rparr> in
               (case port_value sub of
                  None \<Rightarrow> (False, m1)
                | Some sp \<Rightarrow>
                    let m2 = m1\<lparr>engine_sub_port := sp\<rparr> in
                    (case map_of p ''job_port'' of
                       None \<Rightarrow> (True, m2)
                     | Some j \<Rightarrow>
                         (case port_value j of None \<Rightarrow> (False, m2)
                          | Some jp \<Rightarrow> (True, m2\<lparr>engine_job_port := jp\<rparr>)))))
      | _ \<Rightarrow> (False, m))"

definition handle_ack :: "message \<Rightarrow> tyche_module \<Rightarrow> bool \<times> tyche_module" where
  "handle_ack resp m =
     (if msg_type resp \<noteq> ACK then (False, m)
      else case map_of (msg_payload resp) ''module_id'' of
        Some (AString mid) \<Rightarrow> take_ports (msg_payload resp) (m\<lparr>own_id := mid\<rparr>)
      | _ \<Rightarrow> (False, m))"

text \<open>\<open>reply\<close> is what the REQ socket receives within its timeout; the result is \<open>None\<close> when decoding
  it has undefined behaviour.\<close>

definition register_with_engine :: "codec \<Rightarrow> bytes option \<Rightarrow> tyche_module \<Rightarrow> (bool \<times> tyche_module) option" where
  "register_with_engine cx reply m =
     (case reply of
        None \<Rightarrow> Some (False, m)
      | Some bs \<Rightarrow>
          (case deserialize cx bs of
             Inl UndefinedKeyRead \<Rightarrow> None
           | Inl UnpackThrows \<Rightarrow> Some (False, m)
           | Inr resp \<Rightarrow> Some (handle_ack resp m)))"

definition tcp_endpoint :: "tyche_module \<Rightarrow> i32 \<Rightarrow> string" where
  "tcp_endpoint m p = ''tcp://'' @ host (tm_engine_endpoint m) @ '':'' @ show_int (sint p)"

definition subscribed_topics :: "tyche_module \<Rightarrow> string list" where
  "subscribed_topics m = map (\<lambda>(i, _). resolve_id i (tm_intern m)) (tm_handlers m)"

definition start_workers :: "codec \<Rightarrow> bytes option \<Rightarrow> tyche_module \<Rightarrow> tyche_module option" where
  "start_workers cx reply m =
     do { (ok, m1) \<leftarrow> register_with_engine cx reply (m\<lparr>tm_running := True\<rparr>);
          if \<not> ok then Some (m1\<lparr>tm_running := False\<rparr>)
          else
            let m2 = m1\<lparr>tm_registered := True,
                  pub_socket := Some (tcp_endpoint m1 (engine_sub_port m1)),
                  sub_socket := Some (tcp_endpoint m1 (engine_pub_port m1)),
                  subscriptions := subscribed_topics m1,
                  heartbeat_socket := map_option endpoint_to_string (heartbeat_receive_endpoint m1)\<rparr>
            in Some (if sint (engine_job_port m2) > 0
                     then m2\<lparr>job_socket := Some (own_id m2, tcp_endpoint m2 (engine_job_port m2))\<rparr> else m2) }"

text \<open>Stopping wakes every pending request, which the waiter sees through its own pointer.\<close>

definition stop_module :: "tyche_module \<Rightarrow> tyche_module" where
  "stop_module m =
     (let woken = fold (\<lambda>(c, r) h. h[r := (h ! r)\<lparr>pr_ready := True\<rparr>]) (pending_requests m) (pending_heap m)
      in m\<lparr>tm_running := False, pending_heap := woken, pending_requests := [], pub_socket := None,
           sub_socket := None, heartbeat_socket := None, job_socket := None, tm_registered := False\<rparr>)"

section \<open>Events\<close>

definition send_event :: "codec \<Rightarrow> string \<Rightarrow> payload \<Rightarrow> string option \<Rightarrow> tyche_module \<Rightarrow> bytes list list" where
  "send_event cx ev p rcpt m =
     (if pub_socket m = None \<or> \<not> tm_running m then []
      else [[str_bytes ev, serialize cx (default_message\<lparr>msg_type := EVENT, sender := own_id m, event := ev,
               msg_payload := p, recipient := rcpt\<rparr>)]])"

definition flat_topic :: "string \<Rightarrow> string" where
  "flat_topic ev = ''__flat__:'' @ ev"

definition send_event_flat_tick :: "string \<Rightarrow> flat_quote_tick \<Rightarrow> tyche_module \<Rightarrow> bytes list list" where
  "send_event_flat_tick ev tick m =
     (if pub_socket m = None \<or> \<not> tm_running m then []
      else [[str_bytes (flat_topic ev), flat_quote_bytes tick]])"

text \<open>\<open>None\<close> is the null pointer.\<close>

definition send_event_flat :: "string \<Rightarrow> bytes option \<Rightarrow> nat \<Rightarrow> tyche_module \<Rightarrow> bytes list list" where
  "send_event_flat ev bs sz m =
     (if pub_socket m = None \<or> \<not> tm_running m \<or> bs = None \<or> sz = 0 then []
      else [[str_bytes (flat_topic ev), take sz (the bs)]])"

definition dispatch :: "string \<Rightarrow> payload \<Rightarrow> tyche_module \<Rightarrow> (nat \<times> payload) list" where
  "dispatch topic p m =
     (let key = (if has_prefix ''on_'' topic then drop 3 topic else topic);
          i = lookup_id key (tm_intern m)
      in if i = INVALID_INTERN_ID then []
         else case map_of (tm_handlers m) i of
           Some (Some h, _) \<Rightarrow> [(h, p)]
         | _ \<Rightarrow> [])"

text \<open>One receive of the event loop.  \<open>None\<close>: undefined behaviour in decoding.\<close>

definition event_receive :: "codec \<Rightarrow> bytes list \<Rightarrow> tyche_module \<Rightarrow> (nat \<times> payload) list option" where
  "event_receive cx fs m =
     (if length fs < 2 then Some []
      else case deserialize cx (fs ! 1) of
        Inl UndefinedKeyRead \<Rightarrow> None
      | Inl UnpackThrows \<Rightarrow> Some []
      | Inr msg \<Rightarrow> if sender msg = own_id m then Some [] else Some (dispatch (bytes_str (fs ! 0)) (msg_payload msg) m))"

definition heartbeat_send :: "codec \<Rightarrow> tyche_module \<Rightarrow> bytes list" where
  "heartbeat_send cx m =
     [serialize cx (default_message\<lparr>msg_type := HEARTBEAT, sender := own_id m, event := ''heartbeat'',
        msg_payload := [(''status'', AString ''alive'')]\<rparr>)]"

section \<open>Jobs\<close>

text \<open>The identifier from 32 random hexadecimal digits.\<close>

definition generate_correlation_id :: "(nat \<Rightarrow> nat) \<Rightarrow> string" where
  "generate_correlation_id rnd =
     (let block = (\<lambda>a n. map (\<lambda>i. ''0123456789abcdef'' ! rnd i) [a..<a + n])
      in block 0 8 @ ''-'' @ block 8 4 @ ''-'' @ block 12 4 @ ''-'' @ block 16 4 @ ''-'' @ block 20 12)"

definition job_request :: "string \<Rightarrow> string \<Rightarrow> payload \<Rightarrow> tyche_module \<Rightarrow> message" where
  "job_request cid ev p m = default_message\<lparr>msg_type := REQUEST, sender := own_id m, event := ev,
     msg_payload := p, correlation_id := Some cid\<rparr>"

text \<open>The first half of \<^verbatim>\<open>request_event\<close>: the error it throws, or what it sends, its pointer and the
  module.\<close>

definition request_begin :: "codec \<Rightarrow> string \<Rightarrow> string \<Rightarrow> payload \<Rightarrow> tyche_module \<Rightarrow>
    string + (bytes list \<times> nat \<times> tyche_module)" where
  "request_begin cx cid ev p m =
     (if job_socket m = None \<or> \<not> tm_running m
      then Inl (''['' @ own_id m @ ''] Cannot request: job socket not connected'')
      else
        let r = length (pending_heap m);
            m1 = m\<lparr>pending_heap := pending_heap m @ [\<lparr>pr_result = [], pr_ready = False\<rparr>],
                   pending_requests := assoc_put cid r (pending_requests m)\<rparr>
        in Inr ([[], str_bytes ev, serialize cx (job_request cid ev p m)], r, m1))"

text \<open>The second half, once the wait ended: \<open>shown\<close> is the timeout as text.\<close>

definition request_finish :: "string \<Rightarrow> string \<Rightarrow> nat \<Rightarrow> string \<Rightarrow> tyche_module \<Rightarrow> (string + payload) \<times> tyche_module" where
  "request_finish cid ev r shown m =
     (let m1 = m\<lparr>pending_requests := assoc_del cid (pending_requests m)\<rparr>
      in (if pr_ready (pending_heap m ! r) then Inr (pr_result (pending_heap m ! r))
          else Inl (''Job request '' @ [CHR 0x27] @ ev @ [CHR 0x27] @ '' timed out after '' @ shown @ ''s''), m1))"

definition job_response :: "string \<Rightarrow> payload \<Rightarrow> string option \<Rightarrow> tyche_module \<Rightarrow> message" where
  "job_response ev p cid m = default_message\<lparr>msg_type := RESPONSE, sender := own_id m, event := ev,
     msg_payload := p, correlation_id := cid\<rparr>"

definition job_payload :: "job_outcome \<Rightarrow> payload" where
  "job_payload r =
     (case r of JReturn p \<Rightarrow> [(''result'', APayload p)]
      | JException what \<Rightarrow> [(''error'', AString what)]
      | JUnknown \<Rightarrow> [(''error'', AString ''Unknown handler error'')])"

definition handle_job_request :: "codec \<Rightarrow> string \<Rightarrow> payload \<Rightarrow> string option \<Rightarrow> tyche_module \<Rightarrow> bytes list list" where
  "handle_job_request cx ev p cid m =
     (let resp = (case map_of (tm_job_handlers m) (lookup_id ev (tm_intern m)) of
            None \<Rightarrow> [(''error'', AString (''No handler for job '' @ [CHR 0x27] @ ev @ [CHR 0x27]))]
          | Some handler \<Rightarrow> job_payload (handler p))
      in [[[], str_bytes ev, serialize cx (job_response ev resp cid m)]])"

definition handle_job_response :: "payload \<Rightarrow> string option \<Rightarrow> tyche_module \<Rightarrow> tyche_module" where
  "handle_job_response p cid m =
     (case cid of
        None \<Rightarrow> m
      | Some c \<Rightarrow>
          (case map_of (pending_requests m) c of
             None \<Rightarrow> m
           | Some r \<Rightarrow> m\<lparr>pending_heap := (pending_heap m)[r := \<lparr>pr_result = p, pr_ready = True\<rparr>]\<rparr>))"

definition job_receive :: "codec \<Rightarrow> bytes list \<Rightarrow> tyche_module \<Rightarrow> (bytes list list \<times> tyche_module) option" where
  "job_receive cx fs m =
     (if length fs < 3 then Some ([], m)
      else case deserialize cx (fs ! 2) of
        Inl UndefinedKeyRead \<Rightarrow> None
      | Inl UnpackThrows \<Rightarrow> Some ([], m)
      | Inr msg \<Rightarrow>
          if msg_type msg = REQUEST
            then Some (handle_job_request cx (event msg) (msg_payload msg) (correlation_id msg) m, m)
          else if msg_type msg = RESPONSE
            then Some ([], handle_job_response (msg_payload msg) (correlation_id msg) m)
          else Some ([], m))"

section \<open>Handlers\<close>

definition wf_module :: "tyche_module \<Rightarrow> bool" where
  "wf_module m \<longleftrightarrow> intern_wf (tm_intern m) \<and> (\<forall>(c, r) \<in> set (pending_requests m). r < length (pending_heap m)) \<and>
     distinct (map fst (pending_requests m)) \<and> distinct (map snd (pending_requests m))"

lemma intern_id_valid: "intern_wf s \<Longrightarrow> map_of (string_to_id s) k = Some i \<Longrightarrow> i \<noteq> 0"
  by (metis intern_wf_def less_irrefl unat_0)

lemma lookup_id_spec:
  assumes "intern_wf s"
  shows "lookup_id k s = INVALID_INTERN_ID \<longleftrightarrow> map_of (string_to_id s) k = None"
  using intern_id_valid [OF assms, of k] by (auto simp: lookup_id_def INVALID_INTERN_ID_def split: option.split)

lemma intern_inj:
  "intern_wf s \<Longrightarrow> map_of (string_to_id s) k = Some i \<Longrightarrow> map_of (string_to_id s) k' = Some i \<Longrightarrow> k = k'"
  by (auto simp: intern_wf_def)

lemma intern_effect:
  assumes "intern_wf s" and "intern_room s 1"
  obtains i s' where "intern k s = (i, s')" "intern_wf s'"
    "map_of (string_to_id s') = (map_of (string_to_id s))(k \<mapsto> i)"
proof (cases "map_of (string_to_id s) k")
  case None
  have "intern_room s (Suc 0)" using assms(2) by simp
  from intern_miss [OF assms(1) this None] that show thesis by blast
next
  case (Some i)
  moreover from this have "(map_of (string_to_id s))(k \<mapsto> i) = map_of (string_to_id s)" by auto
  ultimately show thesis using that [of i s] assms(1) by (simp add: intern_def)
qed

definition event_of_topic :: "string \<Rightarrow> string" where
  "event_of_topic topic = (if has_prefix ''on_'' topic then drop 3 topic else topic)"

lemma dispatch_interned:
  assumes "intern_wf (tm_intern m)"
  shows "dispatch topic p m =
    (case map_of (string_to_id (tm_intern m)) (event_of_topic topic) of None \<Rightarrow> []
     | Some i \<Rightarrow> (case map_of (tm_handlers m) i of Some (Some h, _) \<Rightarrow> [(h, p)] | _ \<Rightarrow> []))"
  using lookup_id_spec [OF assms, of "event_of_topic topic"]
  by (auto simp: dispatch_def event_of_topic_def [symmetric] Let_def lookup_id_def split: option.splits)

lemma register_handler_dispatch:
  assumes wf: "intern_wf (tm_intern m)" and room: "intern_room (tm_intern m) 1"
  shows "intern_wf (tm_intern (register_handler nm h pat dur m))"
    and "dispatch topic p (register_handler nm h pat dur m) =
      (if event_of_topic topic = handler_event nm then (case h of Some h \<Rightarrow> [(h, p)] | None \<Rightarrow> [])
       else dispatch topic p m)"
proof -
  obtain i s' where i: "intern (handler_event nm) (tm_intern m) = (i, s')" "intern_wf s'"
    "map_of (string_to_id s') = (map_of (string_to_id (tm_intern m)))(handler_event nm \<mapsto> i)"
    by (rule intern_effect [OF wf room])
  show w: "intern_wf (tm_intern (register_handler nm h pat dur m))"
    using i by (simp add: register_handler_def)
  have "j \<noteq> i" if "map_of (string_to_id (tm_intern m)) k = Some j" "k \<noteq> handler_event nm" for k j
    using intern_inj [OF i(2), of k i "handler_event nm"] that by (auto simp: i(3))
  then show "dispatch topic p (register_handler nm h pat dur m) =
      (if event_of_topic topic = handler_event nm then (case h of Some h \<Rightarrow> [(h, p)] | None \<Rightarrow> [])
       else dispatch topic p m)"
    unfolding dispatch_interned [OF w] dispatch_interned [OF wf]
    by (auto simp: register_handler_def i(1,3) split: option.splits)
qed

text \<open>The job handler for an event.\<close>

definition job_handler_of :: "string \<Rightarrow> tyche_module \<Rightarrow> job_handler option" where
  "job_handler_of ev m = map_of (tm_job_handlers m) (lookup_id ev (tm_intern m))"

lemma register_job_handler_of:
  assumes wf: "intern_wf (tm_intern m)" and room: "intern_room (tm_intern m) 1"
  shows "intern_wf (tm_intern (register_job_handler nm f dur m))"
    and "job_handler_of (job_event nm) (register_job_handler nm f dur m) = Some f"
    and "ev \<noteq> job_event nm \<Longrightarrow> job_handler_of ev (register_job_handler nm f dur m) = job_handler_of ev m"
proof -
  obtain i s' where i: "intern (job_event nm) (tm_intern m) = (i, s')" "intern_wf s'"
    "map_of (string_to_id s') = (map_of (string_to_id (tm_intern m)))(job_event nm \<mapsto> i)"
    by (rule intern_effect [OF wf room])
  show "intern_wf (tm_intern (register_job_handler nm f dur m))"
    using i by (simp add: register_job_handler_def)
  show "job_handler_of (job_event nm) (register_job_handler nm f dur m) = Some f"
    by (simp add: job_handler_of_def register_job_handler_def i(1,3) lookup_id_def)
  assume ev: "ev \<noteq> job_event nm"
  have "lookup_id ev (tm_intern m) \<noteq> i"
  proof (cases "map_of (string_to_id (tm_intern m)) ev")
    case None
    have "i \<noteq> 0" using intern_id_valid [OF i(2), of "job_event nm" i] i(3) by simp
    with None show ?thesis by (simp add: lookup_id_def INVALID_INTERN_ID_def)
  next
    case (Some j)
    with intern_inj [OF i(2), of ev i "job_event nm"] ev show ?thesis by (auto simp: i(3) lookup_id_def)
  qed
  with ev show "job_handler_of ev (register_job_handler nm f dur m) = job_handler_of ev m"
    by (simp add: job_handler_of_def register_job_handler_def i(1,3) lookup_id_def)
qed

section \<open>Pending requests\<close>

lemma request_begin_wf:
  assumes "wf_module m" and "request_begin cx cid ev p m = Inr (fs, r, m1)"
    and "cid \<notin> keys (pending_requests m)"
  shows "wf_module m1" "map_of (pending_requests m1) cid = Some r" "r < length (pending_heap m1)"
    "\<not> pr_ready (pending_heap m1 ! r)" "own_id m1 = own_id m" "tm_intern m1 = tm_intern m"
    "fs = [[], str_bytes ev, serialize cx (job_request cid ev p m)]"
proof -
  have r: "r = length (pending_heap m)" and fs: "fs = [[], str_bytes ev, serialize cx (job_request cid ev p m)]"
    and m1: "m1 = m\<lparr>pending_heap := pending_heap m @ [\<lparr>pr_result = [], pr_ready = False\<rparr>],
      pending_requests := pending_requests m @ [(cid, r)]\<rparr>"
    using assms(2,3) by (auto simp: request_begin_def Let_def assoc_put_fresh split: if_splits)
  have "r \<notin> snd ` set (pending_requests m)" using assms(1) r by (force simp: wf_module_def)
  with assms(1,3) show "wf_module m1" by (auto simp: wf_module_def m1 r)
  have "map_of (pending_requests m) cid = None" using assms(3) by (simp add: map_of_eq_None_iff)
  then show "map_of (pending_requests m1) cid = Some r" by (simp add: m1 map_add_def)
  show "r < length (pending_heap m1)" "\<not> pr_ready (pending_heap m1 ! r)" "own_id m1 = own_id m"
    "tm_intern m1 = tm_intern m" "fs = [[], str_bytes ev, serialize cx (job_request cid ev p m)]"
    by (simp_all add: m1 r fs)
qed

text \<open>A response reaches exactly the request with its correlation identifier.\<close>

lemma handle_job_response_spec:
  assumes wf: "wf_module m" and r: "map_of (pending_requests m) c = Some r"
  shows "wf_module (handle_job_response p (Some c) m)"
    and "pending_heap (handle_job_response p (Some c) m) ! r = \<lparr>pr_result = p, pr_ready = True\<rparr>"
    and "r' \<noteq> r \<Longrightarrow> pending_heap (handle_job_response p (Some c) m) ! r' = pending_heap m ! r'"
proof -
  have "(c, r) \<in> set (pending_requests m)" using r by (rule map_of_SomeD)
  with wf have "r < length (pending_heap m)" by (auto simp: wf_module_def)
  then show "pending_heap (handle_job_response p (Some c) m) ! r = \<lparr>pr_result = p, pr_ready = True\<rparr>"
    using r by (simp add: handle_job_response_def)
qed (use wf r in \<open>auto simp: handle_job_response_def wf_module_def\<close>)

section \<open>The registration request as a document\<close>

definition interface_doc :: "interface \<Rightarrow> pdoc" where
  "interface_doc iface = DMap [(''name'', DStr (if_name iface)),
     (''pattern'', DStr (interface_pattern_to_str (if_pattern iface))),
     (''event_type'', DStr (if_event_type iface)), (''durability'', DInt (sint (if_durability iface)))]"

definition registration_doc :: "tyche_module \<Rightarrow> pdoc" where
  "registration_doc m = DMap [(''msg_type'', DStr ''reg''), (''sender'', DStr (family_name m)),
     (''event'', DStr ''register''),
     (''payload'', DMap [(''family_name'', DStr (family_name m)),
        (''interfaces'', DArr (map interface_doc (tm_interfaces m))), (''metadata'', DMap [])]),
     (''recipient'', DNil), (''durability'', DInt (sint ASYNC_FLUSH)), (''timestamp'', DNil), (''correlation_id'', DNil)]"

lemma interface_toks_doc: "interface_toks i = doc_toks (interface_doc i)"
  by (simp add: interface_toks_def interface_doc_def)

lemma doc_item_toks_interfaces: "doc_item_toks (map interface_doc is) = concat (map interface_toks is)"
  by (induction "is") (simp_all add: interface_toks_doc)

lemma registration_toks_doc: "registration_toks m = doc_toks (registration_doc m)"
  by (simp add: registration_toks_def registration_doc_def doc_item_toks_interfaces)

section \<open>Properties\<close>

text \<open>Registering an event handler under a name makes it, and it alone, the receiver of every
  event whose topic, after an optional \<^verbatim>\<open>on_\<close>, is the bare name; events of other topics go where
  they went before, and a module never handles its own events.\<close>

lemma handler_receives_its_events:
  assumes "intern_wf (tm_intern m)" and "intern_room (tm_intern m) 1"
    and "deserialize cx mf = Inr msg"
  shows "event_receive cx [str_bytes topic, mf] (register_handler nm (Some h) pat dur m) =
    Some (if sender msg = own_id m then []
          else if event_of_topic topic = handler_event nm then [(h, msg_payload msg)]
          else dispatch topic (msg_payload msg) m)"
proof -
  have "own_id (register_handler nm (Some h) pat dur m) = own_id m"
    by (simp add: register_handler_def Let_def split: prod.split)
  then show ?thesis
    using assms(3) register_handler_dispatch(2) [OF assms(1,2), of topic "msg_payload msg" nm "Some h" pat dur]
    by (simp add: event_receive_def)
qed

lemma handler_receives_its_events_witness:
  "event_receive (sample_codec [message_doc sample_base sample_message])
     [str_bytes ''tick'', serialize (sample_codec [message_doc sample_base sample_message]) sample_message]
     (register_handler ''on_tick'' (Some 4) ON ASYNC_FLUSH (module_new \<lparr>host = ''h'', port = 1\<rparr> ''fam'' None)) =
   Some [(4, norm_entries (sample_codec [message_doc sample_base sample_message]) (msg_payload sample_message))]"
proof -
  let ?cx = "sample_codec [message_doc sample_base sample_message]"
  let ?m = "module_new \<lparr>host = ''h'', port = 1\<rparr> ''fam'' None"
  have w: "intern_wf (tm_intern ?m)" "intern_room (tm_intern ?m) 1"
    by (simp_all add: module_new_def) (simp add: intern_room_def string_intern_new_def)
  have d: "deserialize ?cx (serialize ?cx sample_message) =
      Inr (sample_message\<lparr>msg_payload := norm_entries ?cx (msg_payload sample_message)\<rparr>)"
    by (rule deserialize_serialize) simp_all
  show ?thesis
    using handler_receives_its_events [OF w d, of "''tick''" "''on_tick''" 4 ON ASYNC_FLUSH]
    by (simp add: module_new_def event_of_topic_def handler_event_def has_prefix_def)
qed

end
