(* ===== verification/Engine_Modules.thy ===== *)
theory Engine_Modules
  imports Event_Guarantees Engine_Registration Tyche_Module
begin

text \<open>
  The engine and its modules together: a module's registration request and the acknowledgement it
  gets back, a job from the requester through the router to a handler and back, and a heartbeat
  that makes a handler available again.  A ROUTER socket puts the sender's identity in front of
  what a module sends and removes it from what goes to the module.
\<close>

section \<open>The registration request, as the engine reads it\<close>

definition interface_any :: "interface \<Rightarrow> any_val" where
  "interface_any i = APayload [(''name'', AString (if_name i)),
     (''pattern'', AString (interface_pattern_to_str (if_pattern i))),
     (''event_type'', AString (if_event_type i)), (''durability'', AInt (if_durability i))]"

definition registration_payload :: "tyche_module \<Rightarrow> payload" where
  "registration_payload m = [(''family_name'', AString (family_name m)),
     (''interfaces'', AVecAny (map interface_any (tm_interfaces m))), (''metadata'', APayload [])]"

lemma interface_any_doc: "any_doc cx (interface_any i) = interface_doc i"
  by (simp add: interface_any_def interface_doc_def)

lemma items_doc_interfaces: "items_doc cx (map interface_any is) = map interface_doc is"
  by (induction "is") (simp_all add: interface_any_doc)

lemma wf_items_interfaces: "wf_items (map interface_any is)"
  by (induction "is") (simp_all add: interface_any_def)

text \<open>What the engine makes of an interface: queue depth and back pressure are not sent.\<close>

definition seen_interface :: "interface \<Rightarrow> interface" where
  "seen_interface i = default_interface\<lparr>if_name := if_name i, if_pattern := if_pattern i,
     if_event_type := (if if_event_type i = [] then if_name i else if_event_type i),
     if_durability := if_durability i\<rparr>"

lemma parse_interface_doc: "parse_interface (doc_obj cx (interface_doc i)) = [seen_interface i]"
proof -
  have "(ucast (word_of_int (sint d) :: u64) :: i32) = d" for d :: i32 by (simp add: ucast_of_int)
  then show ?thesis
    by (simp add: parse_interface_def interface_doc_def interface_field_def seen_interface_def
        interface_pattern_roundtrip default_interface_def)
qed

lemma parse_interfaces_items:
  "concat (map parse_interface (doc_item_objs cx (map interface_doc is))) = map seen_interface is"
  by (induction "is") (simp_all add: parse_interface_doc)

lemma parse_interfaces_doc:
  "parse_interfaces (doc_obj cx (registration_doc m)) = map seen_interface (tm_interfaces m)"
  by (simp add: parse_interfaces_def registration_doc_def payload_interfaces_def parse_interfaces_items)

lemma registration_decoded:
  assumes "codec_ok cx (registration_doc m)" and "codec_numbers cx"
  obtains msg where "deserialize cx (cx_wire cx (registration_toks m)) = Inr msg" "msg_type msg = REGISTER"
    "registered_family msg = Some (family_name m)"
proof -
  let ?p = "registration_payload m"
  have "entries_doc cx ?p = [(''family_name'', DStr (family_name m)),
      (''interfaces'', DArr (map interface_doc (tm_interfaces m))), (''metadata'', DMap [])]"
    by (simp add: registration_payload_def items_doc_interfaces)
  moreover have "read_payload (doc_entry_objs cx (entries_doc cx ?p)) [] = Inr (norm_entries cx ?p)"
    using read_payload_packed [OF assms(2), of ?p "[]"]
    by (simp add: registration_payload_def wf_items_interfaces)
  ultimately have pay: "read_payload [(MStr ''family_name'', MStr (family_name m)),
      (MStr ''interfaces'', MArr (doc_item_objs cx (map interface_doc (tm_interfaces m)))),
      (MStr ''metadata'', MMap [])] [] = Inr (norm_entries cx ?p)" by simp
  let ?msg = "default_message\<lparr>msg_type := REGISTER, sender := family_name m, event := ''register'',
    msg_payload := norm_entries cx ?p\<rparr>"
  have "cx_unpack cx (cx_wire cx (registration_toks m)) = Some (doc_obj cx (registration_doc m))"
    using assms(1) by (simp add: codec_ok_def registration_toks_doc)
  then have "deserialize cx (cx_wire cx (registration_toks m)) = Inr ?msg"
    using pay by (simp add: deserialize_def registration_doc_def read_field_def default_message_def
        message_type_from_str_def ASYNC_FLUSH_def del: read_payload.simps)
  moreover have "registered_family ?msg = Some (family_name m)"
    by (simp add: registered_family_def registration_payload_def)
  ultimately show thesis by (intro that [of ?msg]) simp_all
qed

lemma ack_decoded:
  assumes "codec_ok cx (message_doc cx (register_ack mid e))" and "codec_numbers cx"
  shows "\<exists>m'. register_with_engine cx (Some (serialize cx (register_ack mid e))) m = Some (True, m') \<and>
    own_id m' = mid \<and> engine_pub_port m' = word_of_int (port (event_endpoint e)) \<and>
    engine_sub_port m' = word_of_int (port (event_sub_endpoint e)) \<and>
    engine_job_port m' = word_of_int (port (job_endpoint e)) \<and> tm_interfaces m' = tm_interfaces m"
proof -
  have "wf_message (register_ack mid e)"
    by (simp add: wf_message_def register_ack_def default_message_def message_type_from_str_def)
  moreover have "keeps_floats cx (register_ack mid e)"
    by (simp add: keeps_floats_def register_ack_def default_message_def)
  ultimately have "deserialize cx (serialize cx (register_ack mid e)) =
      Inr ((register_ack mid e)\<lparr>msg_payload := norm_entries cx (msg_payload (register_ack mid e))\<rparr>)"
    by (rule deserialize_serialize [OF assms])
  then show ?thesis
    by (simp add: register_with_engine_def handle_ack_def take_ports_def port_value_def register_ack_def)
qed

section \<open>Messages of jobs\<close>

lemma job_message_decoded:
  assumes "codec_ok cx (message_doc cx msg)" and "codec_numbers cx" and "wf_message msg"
    and "timestamp msg = None" and "wait_timeout msg = None" and "run_timeout msg = None"
  shows "deserialize cx (serialize cx msg) = Inr (msg\<lparr>msg_payload := norm_entries cx (msg_payload msg)\<rparr>)"
  by (rule deserialize_serialize) (use assms in \<open>simp_all add: keeps_floats_def\<close>)

lemma job_message_fields [simp]:
  "msg_type (job_request cid ev p m) = REQUEST" "event (job_request cid ev p m) = ev"
  "correlation_id (job_request cid ev p m) = Some cid" "msg_payload (job_request cid ev p m) = p"
  "timestamp (job_request cid ev p m) = None" "wait_timeout (job_request cid ev p m) = None"
  "run_timeout (job_request cid ev p m) = None"
  "msg_type (job_response ev p c m) = RESPONSE" "event (job_response ev p c m) = ev"
  "correlation_id (job_response ev p c m) = c" "msg_payload (job_response ev p c m) = p"
  "timestamp (job_response ev p c m) = None" "wait_timeout (job_response ev p c m) = None"
  "run_timeout (job_response ev p c m) = None"
  by (simp_all add: job_request_def job_response_def default_message_def)

text \<open>A request goes to the only available handler.\<close>

lemma request_to_handler:
  assumes wf: "wf_router env e" and room: "intern_room (intern_table e) 1"
    and dec: "decode (env_cx env) mf = Some (Some msg)" and "msg_type msg = REQUEST"
    and "correlation_id msg = Some cid" and av: "available (event msg) (interned (event msg) e) = [h]"
  obtains e1 where "router_receive env tnow [idn, [], tf, mf] e = Some ([[str_bytes h, [], tf, mf]], e1)"
    "wf_router env e1" "map_of (pending_jobs e1) cid = Some idn"
proof -
  obtain out e1 where h: "handle_request (env_cx env) tnow idn tf mf msg e = (out, e1)" "wf_router env e1"
    by (rule handle_request_step [OF wf room dec])
  have corr: "corr_of msg = cid" using assms(5) by (simp add: corr_of_def)
  have rr: "router_receive env tnow [idn, [], tf, mf] e = Some (out, e1)"
    using dec assms(4) h(1) by (simp add: router_receive_def)
  show thesis
  proof (cases rule: handle_request_cases [OF wf_routerD(1) [OF wf] room wf_routerD(2) [OF wf],
      where msg = msg and cx = "env_cx env" and tnow = tnow and identity = idn and tframe = tf and mframe = mf])
    case 1
    with av show thesis by (simp add: available_def)
  next
    case (2 e')
    with av show thesis by simp
  next
    case (3 hid e')
    with av rr h corr show thesis by (intro that [of e1]) auto
  qed
qed

lemma response_to_requester:
  assumes wf: "wf_router env e" and dec: "decode (env_cx env) mf = Some (Some msg)" and "msg_type msg = RESPONSE"
    and "correlation_id msg = Some cid" and p: "map_of (pending_jobs e) cid = Some idn"
  obtains e1 where "router_receive env tnow [hid, [], tf, mf] e = Some ([[idn, [], tf, mf]], e1)"
    "wf_router env e1" "map_of (pending_jobs e1) cid = None" "map_of (job_tracking e1) cid = None"
proof -
  obtain out e1 where h: "handle_response tf mf msg e = (out, e1)" "wf_router env e1"
    by (rule handle_response_step [OF wf])
  have corr: "corr_of msg = cid" using assms(4) by (simp add: corr_of_def)
  with h(1) p have "out = [[idn, [], tf, mf]]" "map_of (pending_jobs e1) cid = None" "map_of (job_tracking e1) cid = None"
    by (auto simp: handle_response_def)
  moreover have "router_receive env tnow [hid, [], tf, mf] e = Some (out, e1)"
    using dec assms(3) h(1) by (simp add: router_receive_def)
  ultimately show thesis using that h(2) by blast
qed

section \<open>Properties\<close>

text \<open>C10: Registration works end to end: the request a module sends is accepted, the engine gives the
  module an identifier no other module has, lists it under the topic and pattern of each of its
  interfaces and queues one acknowledgement to the sender; from that acknowledgement the module
  learns exactly its identifier and the engine's event and job ports.\<close>

theorem registration_end_to_end:
  assumes wf: "wf_engine e" and num: "codec_numbers (env_cx env)"
    and req_ok: "codec_ok (env_cx env) (registration_doc m)"
    and ack_ok: "codec_ok (env_cx env) (message_doc (env_cx env) (register_ack mid e))"
    and mid: "mid = create_module_id (family_name m) rnd e"
    and room: "intern_room (intern_table e) (length (tm_interfaces m))"
    and free: "\<exists>i < 100. map_of (modules e) (module_id_generate (family_name m) (rnd i)) = None"
  shows "\<exists>e' reply m'. process_registration env tnow rnd identity (cx_wire (env_cx env) (registration_toks m)) e = Some e' \<and>
    wf_engine e' \<and> map_of (modules e) mid = None \<and> map_of (modules e') mid \<noteq> None \<and>
    (\<forall>i \<in> set (tm_interfaces m). mid \<in> set (listed e' (if_pattern i)
       (if if_event_type i = [] then if_name i else if_event_type i))) \<and>
    reg_out_queue e' = reg_out_queue e @ [[identity, [], reply]] \<and>
    register_with_engine (env_cx env) (Some reply) m = Some (True, m') \<and> own_id m' = mid \<and>
    engine_pub_port m' = word_of_int (port (event_endpoint e)) \<and>
    engine_sub_port m' = word_of_int (port (event_sub_endpoint e)) \<and>
    engine_job_port m' = word_of_int (port (job_endpoint e))"
proof -
  let ?cx = "env_cx env" and ?obj = "doc_obj (env_cx env) (registration_doc m)"
  let ?bs = "cx_wire ?cx (registration_toks m)"
  obtain msg where msg: "deserialize ?cx ?bs = Inr msg" "msg_type msg = REGISTER"
    "registered_family msg = Some (family_name m)"
    by (rule registration_decoded [OF req_ok num])
  have obj: "cx_unpack ?cx ?bs = Some ?obj" using req_ok by (simp add: codec_ok_def registration_toks_doc)
  have dec: "decode ?cx ?bs = Some (Some msg)" by (simp add: decode_def msg(1))
  have room': "intern_room (intern_table e) (length (parse_interfaces ?obj))"
    using room by (simp add: parse_interfaces_doc)
  from process_registration_spec [OF wf dec msg(2,3) obj room' free, of tnow identity, folded mid] obtain e' where
    e': "process_registration env tnow rnd identity ?bs e = Some e'" "wf_engine e'"
      "map_of (modules e) mid = None" "map_of (modules e') mid \<noteq> None"
      "\<forall>i \<in> set (parse_interfaces ?obj). mid \<in> set (listed e' (if_pattern i) (if_event_type i))"
      "reg_out_queue e' = reg_out_queue e @ [[identity, [], serialize ?cx (register_ack mid e)]]"
    by blast
  have "\<forall>i \<in> set (tm_interfaces m). mid \<in> set (listed e' (if_pattern i)
      (if if_event_type i = [] then if_name i else if_event_type i))"
    using e'(5) by (simp add: parse_interfaces_doc seen_interface_def)
  with e' ack_decoded [OF ack_ok num, of m] show ?thesis by blast
qed

definition sample_module :: tyche_module where
  "sample_module = register_job_handler ''handle_order'' (\<lambda>p. JReturn p) ASYNC_FLUSH
     (module_new \<lparr>host = ''h'', port = 5555\<rparr> ''gw'' None)"

lemma sample_module_simps [simp]:
  "family_name sample_module = ''gw''"
  "tm_interfaces sample_module = [new_interface ''handle_order'' HANDLE ''order'' ASYNC_FLUSH]"
  by (simp_all add: sample_module_def register_job_handler_def module_new_def job_event_def has_prefix_def
      Let_def split: prod.split)

theorem registration_end_to_end_witness:
  "\<exists>env e e' reply m'. sample_engine = Some e \<and>
     process_registration env 1 (\<lambda>_. 10) [9] (cx_wire (env_cx env) (registration_toks sample_module)) e = Some e' \<and>
     own_id m' = ''gw_00000a'' \<and> register_with_engine (env_cx env) (Some reply) sample_module = Some (True, m') \<and>
     ''gw_00000a'' \<in> set (listed e' HANDLE ''order'')"
proof -
  obtain e where e: "sample_engine = Some e" "wf_engine e" "modules e = []" "intern_table e = string_intern_new"
    by (rule sample_engine_wf)
  let ?d1 = "registration_doc sample_module" and ?d2 = "message_doc sample_base (register_ack ''gw_00000a'' e)"
  let ?env = "sample_env\<lparr>env_cx := sample_codec [?d1, ?d2]\<rparr>"
  have id: "module_id_generate ''gw'' 10 = ''gw_00000a''"
    by code_simp
  then have mid: "''gw_00000a'' = create_module_id (family_name sample_module) (\<lambda>_. 10) e"
    using e(3) by (simp add: create_module_id_def create_id_from.simps [of _ _ _ 0] Let_def)
  have "codec_ok (sample_codec [?d1, ?d2]) ?d2"
    unfolding registration_doc_def message_doc_def by (rule sample_codec_ok_second) simp_all
  then have ack: "codec_ok (env_cx ?env) (message_doc (env_cx ?env) (register_ack ''gw_00000a'' e))" by simp
  have req: "codec_ok (env_cx ?env) (registration_doc sample_module)" by simp
  have num: "codec_numbers (env_cx ?env)" by simp
  have room: "intern_room (intern_table e) (length (tm_interfaces sample_module))"
    by (simp add: e(4) intern_room_def string_intern_new_def)
  have free: "\<exists>i < (100 :: nat). map_of (modules e) (module_id_generate (family_name sample_module) ((\<lambda>_. 10) i)) = None"
    using e(3) by (intro exI [of _ 0]) simp
  from registration_end_to_end [OF e(2) num req ack mid room free, of 1 "[9]"] e(1)
  show ?thesis by (fastforce simp: new_interface_def)
qed

text \<open>C3: A job makes the round trip: a request of module \<open>a\<close> is forwarded by the router to the one
  available handler \<open>b\<close>, whose job handler is applied to the payload; the response comes back
  through the router to \<open>a\<close> and its pending request returns exactly the handler's result, or the
  error it threw, as messages carry it; the engine then no longer tracks the job.\<close>

theorem job_round_trip:
  assumes wf: "wf_router env e" and room: "intern_room (intern_table e) 1"
    and wfa: "wf_module a" and new: "cid \<notin> keys (pending_requests a)"
    and req: "request_begin cx cid ev p a = Inr (fs, r, a1)" and cx: "cx = env_cx env"
    and av: "available ev (interned ev e) = [own_id b]" and h: "job_handler_of ev b = Some f"
    and num: "codec_numbers cx"
    and ok1: "codec_ok cx (message_doc cx (job_request cid ev p a))"
    and ok2: "codec_ok cx (message_doc cx (job_response ev (job_payload (f (norm_entries cx p))) (Some cid) b))"
    and w1: "wf_message (job_request cid ev p a)"
    and w2: "wf_message (job_response ev (job_payload (f (norm_entries cx p))) (Some cid) b)"
  shows "\<exists>to_b e1 resp to_a e2 a2 a3.
    router_receive env t1 (idn # fs) e = Some ([str_bytes (own_id b) # to_b], e1) \<and>
    job_receive cx to_b b = Some ([resp], b) \<and>
    router_receive env t2 (str_bytes (own_id b) # resp) e1 = Some ([idn # to_a], e2) \<and>
    job_receive cx to_a a1 = Some ([], a2) \<and>
    request_finish cid ev r shown a2 = (Inr (norm_entries cx (job_payload (f (norm_entries cx p)))), a3) \<and>
    wf_router env e2 \<and> map_of (pending_jobs e2) cid = None \<and> map_of (job_tracking e2) cid = None"
proof -
  let ?q = "job_request cid ev p a" and ?s = "job_response ev (job_payload (f (norm_entries cx p))) (Some cid) b"
  let ?q' = "?q\<lparr>msg_payload := norm_entries cx p\<rparr>"
  let ?s' = "?s\<lparr>msg_payload := norm_entries cx (job_payload (f (norm_entries cx p)))\<rparr>"
  let ?mf = "serialize cx ?q" and ?rf = "serialize cx ?s" and ?tf = "str_bytes ev"
  note a1 = request_begin_wf [OF wfa req new]
  have dq: "deserialize cx ?mf = Inr ?q'" using job_message_decoded [OF ok1 num w1] by simp
  have ds: "deserialize cx ?rf = Inr ?s'" using job_message_decoded [OF ok2 num w2] by simp
  obtain e1 where e1: "router_receive env t1 [idn, [], ?tf, ?mf] e = Some ([[str_bytes (own_id b), [], ?tf, ?mf]], e1)"
    "wf_router env e1" "map_of (pending_jobs e1) cid = Some idn"
    by (rule request_to_handler [OF wf room, of ?mf ?q' cid "own_id b" t1 idn ?tf])
      (use dq av cx in \<open>simp_all add: decode_def\<close>)
  obtain e2 where e2: "router_receive env t2 [str_bytes (own_id b), [], ?tf, ?rf] e1 = Some ([[idn, [], ?tf, ?rf]], e2)"
    "wf_router env e2" "map_of (pending_jobs e2) cid = None" "map_of (job_tracking e2) cid = None"
    by (rule response_to_requester [OF e1(2), of ?rf ?s' cid idn t2 "str_bytes (own_id b)" ?tf])
      (use ds e1(3) cx in \<open>simp_all add: decode_def\<close>)
  have b: "job_receive cx [[], ?tf, ?mf] b = Some ([[[], ?tf, ?rf]], b)"
    using h by (simp add: job_receive_def dq handle_job_request_def job_handler_of_def Let_def)
  define a2 where "a2 = handle_job_response (msg_payload ?s') (Some cid) a1"
  have a2: "job_receive cx [[], ?tf, ?rf] a1 = Some ([], a2)"
    by (simp add: job_receive_def ds a2_def)
  have "pending_heap a2 ! r = \<lparr>pr_result = msg_payload ?s', pr_ready = True\<rparr>"
    unfolding a2_def by (rule handle_job_response_spec(2) [OF a1(1,2)])
  then have "request_finish cid ev r shown a2 = (Inr (msg_payload ?s'), a2\<lparr>pending_requests := assoc_del cid (pending_requests a2)\<rparr>)"
    by (simp add: request_finish_def Let_def)
  with e1(1) e2 b a2 a1(7) show ?thesis by (fastforce intro!: exI)
qed

lemma sample_only_handler:
  obtains e where "wf_router env e" "intern_room (intern_table e) 1"
    "available ''order'' (interned ''order'' e) = [''gw_00000a'']"
proof -
  obtain e0 where e0: "wf_engine e0" "''gw_00000a'' \<in> set (listed e0 HANDLE ''order'')"
    "map_of (modules e0) = [''gw_00000a'' \<mapsto> sample_info]" "intern_room (intern_table e0) 1" "job_tracking e0 = []"
    by (rule sample_registered)
  define e where "e = e0\<lparr>unavailable_handlers := [], module_availability := []\<rparr>"
  have wf: "wf_engine e" using e0(1) by (simp add: e_def wf_engine_def wf_jobs_def job_ok_def)
  have keys: "keys (modules e0) = {''gw_00000a''}"
    using e0(3) by (metis dom_map_of_conv_image_fst dom_eq_singleton_conv)
  then have "handlers_small e" using handlers_small_modules [OF wf] by (simp add: e_def)
  with wf e0(5) have r: "wf_router env e" by (simp add: wf_router_def e_def)
  obtain tid where tid: "map_of (string_to_id (intern_table e)) ''order'' = Some tid"
    using listed_interned [OF e0(2)] by (auto simp: e_def)
  have int: "interned ''order'' e = e"
    using si.ensure_hit [OF wf_engineD(2) [OF wf] tid] by (simp add: interned_def)
  have l: "listed e HANDLE ''order'' = listed e0 HANDLE ''order''" by (simp add: e_def listed_def pattern_table_def)
  obtain hs where hs: "map_of (job_handlers e) tid = Some hs" "listed e HANDLE ''order'' = hs"
    using e0(2) tid unfolding l [symmetric]
    by (cases "map_of (job_handlers e) tid") (simp_all add: listed_def members_def pattern_table_def)
  from wf_table_member [OF wf_engineD(6) [OF wf] hs(1)] e0(2) keys
  have "distinct hs" "set hs = {''gw_00000a''}" by (auto simp: e_def hs(2) [unfolded l, symmetric])
  then have "hs = [''gw_00000a'']" by (metis distinct_card length_0_conv length_Suc_conv One_nat_def
        card_1_singleton_iff insertI1 list.set_intros(1) singletonD is_singletonI' is_singleton_altdef)
  then have "available ''order'' (interned ''order'' e) = [''gw_00000a'']"
    unfolding int available_def hs(2) by (simp add: is_handler_available_def e_def)
  with r e0(4) that [of e] show thesis by (simp add: e_def)
qed

theorem job_round_trip_witness:
  "\<exists>cx env e a a1 b fs r to_b e1 resp to_a e2 a2 a3.
    request_begin cx ''c7'' ''order'' [(''qty'', AInt 3)] a = Inr (fs, r, a1) \<and>
    router_receive env 1 ([7] # fs) e = Some ([str_bytes ''gw_00000a'' # to_b], e1) \<and>
    job_receive cx to_b b = Some ([resp], b) \<and>
    router_receive env 2 (str_bytes ''gw_00000a'' # resp) e1 = Some ([[7] # to_a], e2) \<and>
    job_receive cx to_a a1 = Some ([], a2) \<and>
    request_finish ''c7'' ''order'' r ''5'' a2 = (Inr [(''result'', APayload [(''qty'', AInt 3)])], a3)"
proof -
  let ?p = "[(''qty'', AInt 3)]"
  let ?a = "(module_new \<lparr>host = ''h'', port = 5555\<rparr> ''cli'' None)\<lparr>own_id := ''cli_1'', tm_running := True,
    job_socket := Some (''cli_1'', ''tcp'')\<rparr>"
  let ?b = "sample_module\<lparr>own_id := ''gw_00000a''\<rparr>"
  let ?q = "job_request ''c7'' ''order'' ?p ?a" and ?s = "job_response ''order'' (job_payload (JReturn ?p)) (Some ''c7'') ?b"
  let ?cx = "sample_codec [message_doc sample_base ?q, message_doc sample_base ?s]"
  let ?env = "sample_env\<lparr>env_cx := ?cx\<rparr>"
  obtain e where e: "wf_router ?env e" "intern_room (intern_table e) 1"
    "available ''order'' (interned ''order'' e) = [''gw_00000a'']"
    by (rule sample_only_handler)
  have av: "available ''order'' (interned ''order'' e) = [own_id ?b]" using e(3) by simp
  have wfa: "wf_module ?a" "''c7'' \<notin> keys (pending_requests ?a)" by (simp_all add: wf_module_def module_new_def)
  obtain fs r a1 where req: "request_begin ?cx ''c7'' ''order'' ?p ?a = Inr (fs, r, a1)"
    by (simp add: request_begin_def Let_def)
  have "intern_wf string_intern_new" by simp
  moreover have "intern_room string_intern_new 1" by (simp add: intern_room_def string_intern_new_def)
  ultimately have h: "job_handler_of ''order'' ?b = Some (\<lambda>p. JReturn p)"
    using register_job_handler_of(2) [of "module_new \<lparr>host = ''h'', port = 5555\<rparr> ''gw'' None" "''handle_order''"
        "\<lambda>p. JReturn p" ASYNC_FLUSH]
    by (simp add: sample_module_def job_handler_of_def module_new_def job_event_def has_prefix_def)
  have "cx_wire sample_base (doc_toks (message_doc sample_base ?q)) ! 22 \<noteq>
      cx_wire sample_base (doc_toks (message_doc sample_base ?s)) ! 22"
    by (simp add: sample_wire_type)
  then have "codec_ok ?cx (message_doc sample_base ?s)" by (intro sample_codec_ok_distinct) metis
  then have ok2: "codec_ok ?cx (message_doc ?cx (job_response ''order''
      (job_payload (JReturn (norm_entries ?cx ?p))) (Some ''c7'') ?b))" by simp
  have ok1: "codec_ok ?cx (message_doc ?cx ?q)" by simp
  have w: "wf_message ?q" "wf_message (job_response ''order'' (job_payload (JReturn (norm_entries ?cx ?p))) (Some ''c7'') ?b)"
    by (simp_all add: wf_message_def job_payload_def message_type_from_str_def)
  have cx: "?cx = env_cx ?env" and num: "codec_numbers ?cx" by simp_all
  from job_round_trip [OF e(1,2) wfa req cx av h num ok1 ok2 w, of 1 "[7]" 2 "''5''"] req
  show ?thesis by (fastforce simp: job_payload_def)
qed

section \<open>A heartbeat brings a handler back\<close>

lemma heartbeat_decoded:
  assumes "codec_ok cx (message_doc cx hb)" and "codec_numbers cx"
    and "hb = default_message\<lparr>msg_type := HEARTBEAT, sender := own_id b, event := ''heartbeat'',
        msg_payload := [(''status'', AString ''alive'')]\<rparr>"
  shows "heartbeat_send cx b = [serialize cx hb]" "decode cx (serialize cx hb) = Some (Some hb)"
proof -
  have "wf_message hb" "timestamp hb = None" "wait_timeout hb = None" "run_timeout hb = None"
    by (simp_all add: assms(3) default_message_def wf_message_def message_type_from_str_def)
  from job_message_decoded [OF assms(1,2) this]
  show "decode cx (serialize cx hb) = Some (Some hb)" by (simp add: decode_def assms(3))
qed (simp add: heartbeat_send_def assms(3))

text \<open>C14: A job that waits because its handler was marked unavailable is dispatched once the handler
  is heard of again: the handler's heartbeat makes it available and queues a recovery event, and the
  next iteration of the router sends the job to an available handler.\<close>

theorem heartbeat_revives_jobs:
  assumes wf: "wf_router env e" and hb: "hb = default_message\<lparr>msg_type := HEARTBEAT, sender := own_id b,
      event := ''heartbeat'', msg_payload := [(''status'', AString ''alive'')]\<rparr>"
    and ok: "codec_ok (env_cx env) (message_doc (env_cx env) hb)" and num: "codec_numbers (env_cx env)"
    and job: "map_of (job_tracking e) c = Some i" "handler_id i = []"
    and un: "map_of (unavailable_handlers e) (own_id b) = Some ts" "jt_topic i \<in> set ts"
    and reg: "own_id b \<in> set (listed e HANDLE (jt_topic i))"
    and self: "map_of (module_availability e) (own_id b) = None"
    and idle: "recovery_events e = []" "job_timeout_events e = []"
  shows "\<exists>e1 out e2. heartbeat_receive env t1 (idn # heartbeat_send (env_cx env) b) e = Some e1 \<and>
    is_handler_available e1 (own_id b) (jt_topic i) \<and>
    router_iteration env t2 None e1 = Some (out, e2) \<and> wf_router env e2 \<and>
    (\<exists>h \<in> set (available (jt_topic i) e1). [str_bytes h, [], topic_frame i, message_frame i] \<in> set out \<and>
       map_of (job_tracking e2) c = Some (i\<lparr>handler_id := h, dispatch_time := t2\<rparr>))"
proof -
  let ?fs = "idn # heartbeat_send (env_cx env) b"
  note d = heartbeat_decoded [OF ok num hb]
  have fs: "2 \<le> length ?fs" "decode (env_cx env) (message_part ?fs) = Some (Some hb)" "msg_type hb = HEARTBEAT"
    and snd_hb: "sender hb = own_id b"
    using d by (simp_all add: message_part_def hb)
  have ts: "ts \<noteq> []" using un(2) by auto
  from heartbeat_receive_spec [OF wf fs, of t1] un(1) ts idle obtain e1 where
    e1: "heartbeat_receive env t1 ?fs e = Some e1" "wf_router env e1" "job_tracking e1 = job_tracking e"
      "\<forall>p t. listed e1 p t = listed e p t" "recovery_events e1 = [(own_id b, ts)]"
      "map_of (unavailable_handlers e1) (own_id b) = None" "job_timeout_events e1 = []"
    unfolding snd_hb by auto
  have "module_availability e1 = module_availability e"
    using e1(1) fs d by (auto simp: heartbeat_receive_def store_availability_def recover_handler_def hb Let_def
        split: option.splits if_splits)
  then have av: "is_handler_available e1 (own_id b) (jt_topic i)"
    using e1(6) self by (simp add: is_handler_available_def)
  then have "own_id b \<in> set (available (jt_topic i) e1)" using reg e1(4) by (simp add: available_def)
  then have ne: "available (jt_topic i) e1 \<noteq> []" by force
  let ?e = "e1\<lparr>job_timeout_events := [], recovery_events := []\<rparr>"
  have wf1: "wf_router env ?e" using e1(2) by simp
  have av_eq: "available (jt_topic i) ?e = available (jt_topic i) e1"
    by (simp add: available_def is_handler_available_def listed_def pattern_table_def)
  from process_recovery_step [OF wf1, of t2 "(own_id b, ts)"] obtain out e2 where
    pr: "process_recovery t2 (own_id b, ts) ?e = (out, e2)" "wf_router env e2"
      "\<forall>c i. map_of (job_tracking ?e) c = Some i \<and> handler_id i = [] \<and> jt_topic i \<in> set (snd (own_id b, ts)) \<and>
        available (jt_topic i) ?e \<noteq> [] \<longrightarrow> (\<exists>h \<in> set (available (jt_topic i) ?e).
        [str_bytes h, [], topic_frame i, message_frame i] \<in> set out \<and>
        map_of (job_tracking e2) c = Some (i\<lparr>handler_id := h, dispatch_time := t2\<rparr>))"
    by blast
  have "router_iteration env t2 None e1 = Some (out, e2)"
    using e1(5,7) pr(1) by (simp add: router_iteration_def)
  moreover have "\<exists>h \<in> set (available (jt_topic i) e1). [str_bytes h, [], topic_frame i, message_frame i] \<in> set out \<and>
       map_of (job_tracking e2) c = Some (i\<lparr>handler_id := h, dispatch_time := t2\<rparr>)"
    using pr(3) [rule_format, of c i] job un(2) ne av_eq e1(3) by simp
  ultimately show ?thesis using e1(1) av pr(2) by blast
qed

theorem heartbeat_revives_jobs_witness:
  "\<exists>env b e e1 out e2 h. heartbeat_receive env 8 ([5] # heartbeat_send (env_cx env) b) e = Some e1 \<and>
     router_iteration env 9 None e1 = Some (out, e2) \<and> map_of (unavailable_handlers e) (own_id b) = Some [''order''] \<and>
     str_bytes h \<in> set (map hd out)"
proof -
  let ?b = "sample_module\<lparr>own_id := ''gw_00000a''\<rparr>"
  define hb where "hb = default_message\<lparr>msg_type := HEARTBEAT, sender := own_id ?b, event := ''heartbeat'',
    msg_payload := [(''status'', AString ''alive'')]\<rparr>"
  let ?env = "sample_env\<lparr>env_cx := sample_codec [message_doc sample_base hb]\<rparr>"
  have ok: "codec_ok (env_cx ?env) (message_doc (env_cx ?env) hb)" "codec_numbers (env_cx ?env)" by simp_all
  note d = heartbeat_decoded [OF ok hb_def]
  let ?i = "(sample_job [])\<lparr>message_frame := serialize (env_cx ?env) hb\<rparr>"
  obtain e0 where e0: "wf_router ?env e0" "job_tracking e0 = [(''c1'', ?i)]"
    "''gw_00000a'' \<in> set (listed e0 HANDLE ''order'')"
    by (rule sample_router_env [of "[]" ?env, OF _ d(2)]) simp_all
  let ?e = "e0\<lparr>unavailable_handlers := [(''gw_00000a'', [''order''])], module_availability := [],
    recovery_events := [], job_timeout_events := []\<rparr>"
  have e: "wf_router ?env ?e" using e0(1) by simp
  have i: "map_of (job_tracking ?e) ''c1'' = Some ?i" "handler_id ?i = []"
    and u: "map_of (unavailable_handlers ?e) (own_id ?b) = Some [''order'']" "jt_topic ?i \<in> set [''order'']"
    and r: "own_id ?b \<in> set (listed ?e HANDLE (jt_topic ?i))"
    and n: "map_of (module_availability ?e) (own_id ?b) = None" "recovery_events ?e = []" "job_timeout_events ?e = []"
    using e0(2,3) by (simp_all add: listed_def pattern_table_def)
  from heartbeat_revives_jobs [OF e hb_def ok i u r n, of 8 "[5]" 9] obtain e1 out e2 h where
    "heartbeat_receive ?env 8 ([5] # heartbeat_send (env_cx ?env) ?b) ?e = Some e1"
    "router_iteration ?env 9 None e1 = Some (out, e2)"
    "[str_bytes h, [], topic_frame ?i, message_frame ?i] \<in> set out"
    by blast
  then show ?thesis using u(1) by (intro exI conjI) (assumption | force simp: image_iff)+
qed

end
