(* ===== verification/Engine_Runs.thy ===== *)
theory Engine_Runs
  imports Engine_Modules
begin

text \<open>
  The engine as a system of interleaved workers.  A step of \<open>engine_step\<close> is one iteration of one
  worker thread on what it received; \<open>D\<close> are the correlation identifiers of the requests received
  in the step and \<open>out\<close> what the job router sent.  The guards say that the 32-bit interning
  counter and the 64-bit number of modules have not run out and that received bytes are decoded
  without undefined behaviour.  \<open>engine_run\<close> is a sequence of steps.
\<close>

definition can_register :: "env \<Rightarrow> engine \<Rightarrow> bool" where
  "can_register env e \<longleftrightarrow> card (keys (modules e)) + 1 < 2 ^ 64 \<and>
     (\<forall>idn bs rest. reg_in_queue e = (idn, bs) # rest \<longrightarrow> decode (env_cx env) bs \<noteq> None \<and>
        (\<forall>obj. cx_unpack (env_cx env) bs = Some obj \<longrightarrow>
           intern_room (intern_table e) (length (parse_interfaces obj))))"

inductive engine_step :: "env \<Rightarrow> engine \<Rightarrow> string set \<Rightarrow> bytes list list \<Rightarrow> engine \<Rightarrow> bool" where
  step_inject: "inject_event t1 t2 topic bs e = Some e' \<Longrightarrow> engine_step env e {} [] e'"
| step_proxy: "proxy_batch t1 t2 received e = Some (fwd, e') \<Longrightarrow> engine_step env e {} [] e'"
| step_egress: "egress_pass env clk e = Some (had, n, e') \<Longrightarrow> engine_step env e {} [] e'"
| step_reg_receive: "engine_step env e {} [] (registration_receive fs e)"
| step_reg_send: "engine_step env e {} [] (snd (registration_send e))"
| step_reg_egress: "can_register env e \<Longrightarrow> registration_egress env tnow rnd e = Some e' \<Longrightarrow>
    engine_step env e {} [] e'"
| step_heartbeat: "heartbeat_receive env tnow fs e = Some e' \<Longrightarrow> engine_step env e {} [] e'"
| step_monitor: "engine_step env e {} [] (monitor_pass tnow e)"
| step_timeouts: "engine_step env e {} [] (job_timeout_pass tnow e)"
| step_router: "intern_room (intern_table e) 1 \<Longrightarrow>
    (\<And>fs. received = Some fs \<Longrightarrow> message_total env fs) \<Longrightarrow>
    router_iteration env tnow received e = Some (out, e') \<Longrightarrow>
    engine_step env e (case received of None \<Rightarrow> {} | Some fs \<Rightarrow> request_ids env fs) out e'"

inductive engine_run :: "env \<Rightarrow> engine \<Rightarrow> string set \<Rightarrow> bytes list list \<Rightarrow> engine \<Rightarrow> bool" for env e where
  run_start: "engine_run env e {} [] e"
| run_step: "engine_run env e D out e1 \<Longrightarrow> engine_step env e1 D1 out1 e2 \<Longrightarrow>
    engine_run env e (D \<union> D1) (out @ out1) e2"

section \<open>The system invariant\<close>

definition frames_ok :: "env \<Rightarrow> engine \<Rightarrow> bool" where
  "frames_ok env e \<longleftrightarrow> (\<forall>c i. map_of (job_tracking e) c = Some i \<longrightarrow>
     (\<exists>m. decode (env_cx env) (message_frame i) = Some (Some m)))"

definition sys_inv :: "env \<Rightarrow> engine \<Rightarrow> bool" where
  "sys_inv env e \<longleftrightarrow> wf_engine e \<and> card (keys (modules e)) < 2 ^ 64 \<and> frames_ok env e \<and> 0 \<le> topic_queue_ttl e"

lemma sys_inv_router: "sys_inv env e \<Longrightarrow> wf_router env e"
  by (simp add: sys_inv_def wf_router_def handlers_small_modules frames_ok_def)

lemma sys_invI:
  assumes "wf_engine e'" and "sys_inv env e" and "modules e' = modules e" and "job_tracking e' = job_tracking e"
    and "topic_queue_ttl e' = topic_queue_ttl e"
  shows "sys_inv env e'"
  using assms by (simp add: sys_inv_def frames_ok_def)

lemma wf_engine_queues:
  assumes "wf_engine e" and "wf_queues (e\<lparr>topic_queues := m\<rparr>)"
  shows "wf_engine (e\<lparr>topic_queues := m, egress_wakeup_flag := b, dead_letters := dl, event_count := n\<rparr>)"
  using assms by (simp add: wf_engine_def wf_jobs_def job_ok_def)

text \<open>Steps that change nothing but queues, counters and dead letters.\<close>

definition events_only :: "engine \<Rightarrow> engine \<Rightarrow> bool" where
  "events_only e e' \<longleftrightarrow> wf_queues e' \<and>
     (\<exists>m b dl n. e' = e\<lparr>topic_queues := m, egress_wakeup_flag := b, dead_letters := dl, event_count := n\<rparr>)"

lemma events_only_refl: "wf_queues e \<Longrightarrow> events_only e e"
  unfolding events_only_def by (intro conjI exI [of _ "topic_queues e"] exI [of _ "egress_wakeup_flag e"]
      exI [of _ "dead_letters e"] exI [of _ "event_count e"]) simp_all

lemma events_only_trans: "events_only e e1 \<Longrightarrow> events_only e1 e2 \<Longrightarrow> events_only e e2"
proof -
  assume "events_only e e1" "events_only e1 e2"
  then obtain m b dl n m' b' dl' n' where "wf_queues e2"
    "e1 = e\<lparr>topic_queues := m, egress_wakeup_flag := b, dead_letters := dl, event_count := n\<rparr>"
    "e2 = e1\<lparr>topic_queues := m', egress_wakeup_flag := b', dead_letters := dl', event_count := n'\<rparr>"
    by (auto simp: events_only_def)
  then show ?thesis unfolding events_only_def
    by (intro conjI exI [of _ m'] exI [of _ b'] exI [of _ dl'] exI [of _ n']) simp_all
qed

lemma events_only_inv:
  assumes "sys_inv env e" and "events_only e e'"
  shows "sys_inv env e'" "pending_jobs e' = pending_jobs e"
proof -
  obtain m b dl n where e': "e' = e\<lparr>topic_queues := m, egress_wakeup_flag := b, dead_letters := dl, event_count := n\<rparr>"
    and "wf_queues e'" using assms(2) by (auto simp: events_only_def)
  then have "wf_queues (e\<lparr>topic_queues := m\<rparr>)" by (simp add: wf_queues_def capacity_arg_def)
  with assms(1) have "wf_engine e'" unfolding e' by (intro wf_engine_queues) (simp_all add: sys_inv_def)
  then show "sys_inv env e'" by (rule sys_invI [OF _ assms(1)]) (simp_all add: e')
  show "pending_jobs e' = pending_jobs e" by (simp add: e')
qed

lemma delivered_events: "delivered e t i t2 e' \<Longrightarrow> events_only e e'"
proof -
  assume "delivered e t i t2 e'"
  then obtain m where m: "wf_queues e'" "e' = e\<lparr>topic_queues := m, egress_wakeup_flag := True\<rparr>"
    unfolding delivered_def by blast
  then show ?thesis unfolding events_only_def
    by (intro conjI exI [of _ m] exI [of _ True] exI [of _ "dead_letters e"] exI [of _ "event_count e"]) simp_all
qed

lemma enqueue_events:
  assumes "wf_queues e" and "enqueue_from_xsub t1 t2 fs e = Some e'"
  shows "events_only e e'"
proof (cases "length fs < 2")
  case True
  with assms show ?thesis by (simp add: enqueue_from_xsub_def events_only_refl)
next
  case False
  with enqueue_deliver [OF assms(1), of fs t1 t2] assms(2) show ?thesis by (auto intro: delivered_events)
qed

lemma inject_events:
  assumes "wf_queues e" and "inject_event t1 t2 topic bs e = Some e'"
  shows "events_only e e'"
proof -
  obtain q e1 where en: "ensure_queue topic e = (q, e1)" by force
  from ensure_deliver [OF assms(1) en, of "\<lparr>enqueue_time = t1, frames = [frame_new (str_bytes topic), frame_new bs]\<rparr>" t2]
    assms(2) show ?thesis by (auto simp: inject_event_def en intro: delivered_events)
qed

lemma proxy_events_only:
  "proxy_events t1 t2 received e = Some (out, n, e') \<Longrightarrow> wf_queues e \<Longrightarrow> events_only e e'"
proof (induction received arbitrary: e out n)
  case (Cons fs rest)
  show ?case
  proof (cases "fs = []")
    case False
    with Cons.prems(1) obtain e1 out1 n1 where
      e1: "enqueue_from_xsub t1 t2 fs e = Some e1" "proxy_events t1 t2 rest e1 = Some (out1, n1, e')"
      by (auto split: bind_splits)
    have o1: "events_only e e1" by (rule enqueue_events [OF Cons.prems(2) e1(1)])
    then have "wf_queues e1" by (simp add: events_only_def)
    from events_only_trans [OF o1 Cons.IH [OF e1(2) this]] show ?thesis .
  qed (use Cons.prems in \<open>simp add: events_only_refl\<close>)
qed (simp add: events_only_refl)

lemma proxy_batch_events:
  assumes "wf_queues e" and "proxy_batch t1 t2 received e = Some (out, e')"
  shows "events_only e e'"
proof -
  from assms(2) obtain batch e1 where b: "proxy_events t1 t2 received e = Some (out, batch, e1)"
    "e' = (if batch > 0 then e1\<lparr>event_count := event_count e1 + word_of_nat batch\<rparr> else e1)"
    by (auto simp: proxy_batch_def split: bind_splits)
  have o1: "events_only e e1" by (rule proxy_events_only [OF b(1) assms(1)])
  have "events_only e1 (e1\<lparr>event_count := n\<rparr>)" for n
    using o1 unfolding events_only_def
    by (intro conjI exI [of _ "topic_queues e1"] exI [of _ "egress_wakeup_flag e1"]
      exI [of _ "dead_letters e1"] exI [of _ n]) simp_all
  with events_only_trans [OF o1] o1 show ?thesis by (simp add: b(2))
qed

lemma dead_letter_events:
  assumes "wf_queues e" and "dead_letter env mf topic reason e = Some e'"
  shows "events_only e e'"
proof -
  obtain dl where "e' = e\<lparr>dead_letters := dl\<rparr>"
  proof (cases "decode (env_cx env) mf")
    case (Some d)
    with assms(2) that [of "dead_letters e"] that show thesis
      by (cases d) (auto simp: dead_letter_def)
  qed (use assms(2) in \<open>simp add: dead_letter_def\<close>)
  with assms(1) show ?thesis unfolding events_only_def
    by (intro conjI exI [of _ "topic_queues e"] exI [of _ "egress_wakeup_flag e"]
      exI [of _ dl] exI [of _ "event_count e"]) simp_all
qed

lemma set_queue_events:
  assumes wf: "wf_queues e" and get: "tq_get (sm_heap (topic_queues e) ! q) = (r, tq)"
  shows "events_only e (e\<lparr>topic_queues := (topic_queues e)\<lparr>sm_heap := (sm_heap (topic_queues e))[q := tq]\<rparr>\<rparr>)"
    (is "events_only e ?e1")
proof -
  have "wf_queues ?e1"
  proof (cases "q < length (sm_heap (topic_queues e))")
    case True
    have inv: "tq_inv (sm_heap (topic_queues e) ! q)" "tq_strategy (sm_heap (topic_queues e) ! q) = DROP_OLDEST"
      using wf_queues_heap [OF wf True] by simp_all
    have "tq_inv tq \<and> tq_strategy tq = DROP_OLDEST"
      by (rule tq_get_cases [OF inv(1)]) (use get inv in auto)
    then show ?thesis by (intro wf_queues_set [OF wf]) simp_all
  next
    case False
    then have "(sm_heap (topic_queues e))[q := tq] = sm_heap (topic_queues e)" by (simp add: list_update_beyond)
    with wf show ?thesis by simp
  qed
  then show ?thesis unfolding events_only_def
    by (intro conjI exI [of _ "topic_queues ?e1"] exI [of _ "egress_wakeup_flag e"]
      exI [of _ "dead_letters e"] exI [of _ "event_count e"]) simp_all
qed

lemma touch_events: "wf_queues e \<Longrightarrow> events_only e (touch_topic topic tnow e)"
  unfolding events_only_def
  by (intro conjI wf_queues_touch exI [of _ "topic_queues (touch_topic topic tnow e)"] exI [of _ "egress_wakeup_flag e"]
      exI [of _ "dead_letters e"] exI [of _ "event_count e"]) (simp_all add: touch_topic_def)

lemma expire_events:
  assumes "wf_queues e" and "expire_item env topic item e = Some e'"
  shows "events_only e e'"
  using assms dead_letter_events by (auto simp: expire_item_def split: list.splits)

lemma events_only_wf: "events_only e e' \<Longrightarrow> wf_queues e'"
  by (simp add: events_only_def)

lemma egress_drain_events:
  assumes "egress_drain env clk topic q s = Some s'" and "wf_queues (snd (snd s))"
  shows "events_only (snd (snd s)) (snd (snd s'))"
proof -
  have "wf_queues (snd (snd s)) \<longrightarrow> events_only (snd (snd s)) (snd (snd s'))"
  proof (rule egress_drain.raw_induct [where P = "\<lambda>env clk topic q s s'. wf_queues (snd (snd s)) \<longrightarrow>
      events_only (snd (snd s)) (snd (snd s'))", OF _ assms(1)], intro impI, goal_cases)
  case (1 drain env clk topic q s y)
  obtain had n e where s: "s = (had, n, e)" by (cases s)
  obtain r tq where get: "tq_get (sm_heap (topic_queues e) ! q) = (r, tq)" by force
  define e1 where "e1 = e\<lparr>topic_queues := (topic_queues e)\<lparr>sm_heap := (sm_heap (topic_queues e))[q := tq]\<rparr>\<rparr>"
  have wf: "wf_queues e" using 1(3) s by simp
  have o1: "events_only e e1" unfolding e1_def by (rule set_queue_events [OF wf get])
  show ?case
  proof (cases r)
    case None
    with 1(2) get o1 s show ?thesis by (auto simp: e1_def Let_def)
  next
    case (Some item)
    with 1(2) get s obtain e2 where
      e2: "(if clk n - enqueue_time item > broadcast_ttl e1 then expire_item env topic item e1 else Some e1) = Some e2"
        "drain env clk topic q (True, n + 2, touch_topic topic (clk (n + 1)) e2) = Some y"
      unfolding e1_def [symmetric] s prod.case Let_def get by (auto simp flip: e1_def split: bind_splits)
    have o2: "events_only e1 e2"
      using e2(1) expire_events [OF events_only_wf [OF o1]] events_only_refl [OF events_only_wf [OF o1]]
      by (auto split: if_splits)
    have o3: "events_only e2 (touch_topic topic (clk (n + 1)) e2)"
      by (rule touch_events [OF events_only_wf [OF o2]])
    have "events_only (touch_topic topic (clk (n + 1)) e2) (snd (snd y))"
      using 1(1) [OF e2(2)] events_only_wf [OF o3] by simp
    with events_only_trans o1 o2 o3 show ?thesis unfolding s snd_conv by blast
  qed
  qed
  with assms(2) show ?thesis by blast
qed

lemma egress_queues_events:
  "egress_queues env clk qs s = Some s' \<Longrightarrow> wf_queues (snd (snd s)) \<Longrightarrow> events_only (snd (snd s)) (snd (snd s'))"
proof (induction env clk qs s rule: egress_queues.induct)
  case (2 env clk topic q qs s)
  from "2.prems"(1) obtain s1 where s1: "egress_drain env clk topic q s = Some s1" "egress_queues env clk qs s1 = Some s'"
    by (auto split: bind_splits)
  have o1: "events_only (snd (snd s)) (snd (snd s1))" by (rule egress_drain_events [OF s1(1) "2.prems"(2)])
  from "2.IH" [OF s1(1,2) events_only_wf [OF o1]] events_only_trans [OF o1] show ?case by blast
qed (simp add: events_only_refl)

section \<open>The workers keep the invariant\<close>

lemma registration_inv:
  assumes inv: "sys_inv env e" and can: "can_register env e" and r: "registration_egress env tnow rnd e = Some e'"
  shows "sys_inv env e'" "pending_jobs e' = pending_jobs e"
proof -
  have wf: "wf_engine e" using inv by (simp add: sys_inv_def)
  have "sys_inv env e' \<and> pending_jobs e' = pending_jobs e"
  proof (cases "reg_in_queue e")
    case Nil
    with r inv show ?thesis by (simp add: registration_egress_def)
  next
    case (Cons x rest)
    obtain idn bs where x: "x = (idn, bs)" by force
    define e0 where "e0 = e\<lparr>reg_in_queue := rest\<rparr>"
    have e0: "sys_inv env e0" "pending_jobs e0 = pending_jobs e"
      using inv by (simp_all add: e0_def sys_inv_def frames_ok_def)
    have pr: "process_registration env tnow rnd idn bs e0 = Some e'"
      using r Cons x by (simp add: registration_egress_def e0_def)
    consider "e' = e0" | msg family obj where "decode (env_cx env) bs = Some (Some msg)" "msg_type msg = REGISTER"
        "registered_family msg = Some family" "cx_unpack (env_cx env) bs = Some obj"
      using pr by (auto simp: process_registration_def split: option.splits if_splits)
    then show ?thesis
    proof cases
      case 2
      let ?mid = "create_module_id family rnd e0"
      let ?info = "\<lparr>module_id = ?mid, interfaces = parse_interfaces obj, metadata = []\<rparr>"
      define e1 where "e1 = register_module tnow ?info e0"
      have "intern_room (intern_table e0) (length (interfaces ?info))"
        using can Cons x 2(4) by (auto simp: can_register_def e0_def)
      note rm = register_module_spec [OF _ this, of tnow, folded e1_def]
      have wf0: "wf_engine e0" using e0(1) by (simp add: sys_inv_def)
      have "keys (modules e1) = insert ?mid (keys (modules e0))"
        using rm(4) [OF wf0] by (metis dom_map_of_conv_image_fst dom_fun_upd module_info.select_convs(1) option.distinct(1))
      then have "card (keys (modules e1)) < 2 ^ 64"
        using can by (auto simp: can_register_def e0_def card_insert_if)
      then have "sys_inv env e1"
        using rm(1,6) [OF wf0] e0(1) register_module_frame(7) [of tnow ?info e0]
        by (simp add: sys_inv_def frames_ok_def e1_def)
      moreover obtain rc ro where "e' = e1\<lparr>register_count := rc, reg_out_queue := ro\<rparr>"
        using pr 2 by (auto simp: process_registration_def Let_def e1_def)
      ultimately show ?thesis
        using rm(7) [OF wf0] e0(2) by (simp add: sys_inv_def frames_ok_def)
    qed (use e0 in simp)
  qed
  then show "sys_inv env e'" "pending_jobs e' = pending_jobs e" by blast+
qed

lemma heartbeat_inv:
  assumes inv: "sys_inv env e" and r: "heartbeat_receive env tnow fs e = Some e'"
  shows "sys_inv env e'" "pending_jobs e' = pending_jobs e"
proof -
  consider "e' = e" | msg where "2 \<le> length fs" "decode (env_cx env) (message_part fs) = Some (Some msg)"
      "msg_type msg = HEARTBEAT"
    using r by (auto simp: heartbeat_receive_def split: option.splits if_splits)
  then have "sys_inv env e' \<and> pending_jobs e' = pending_jobs e"
  proof cases
    case 2
    from heartbeat_receive_spec [OF sys_inv_router [OF inv] 2, of tnow] r
    show ?thesis using sys_invI [OF wf_routerD(1) inv] by auto
  qed (use inv in simp)
  then show "sys_inv env e'" "pending_jobs e' = pending_jobs e" by blast+
qed

lemma monitor_inv:
  assumes inv: "sys_inv env e"
  shows "sys_inv env (monitor_pass tnow e)" "pending_jobs (monitor_pass tnow e) = pending_jobs e"
proof -
  have wf: "wf_engine e" "0 \<le> topic_queue_ttl e" using inv by (simp_all add: sys_inv_def)
  note mp = monitor_pass_spec [OF wf, where tnow = tnow]
  have "card (keys (modules (monitor_pass tnow e))) \<le> card (keys (modules e))"
    unfolding mp(2) by (rule card_mono) auto
  moreover have "frames_ok env (monitor_pass tnow e)"
    using inv mp(6) unfolding sys_inv_def frames_ok_def by metis
  ultimately show "sys_inv env (monitor_pass tnow e)" using mp(1,5) inv by (simp add: sys_inv_def)
  show "pending_jobs (monitor_pass tnow e) = pending_jobs e" by (rule mp(3))
qed


section \<open>The router and the rest of the engine\<close>

definition same_registry :: "engine \<Rightarrow> engine \<Rightarrow> bool" where
  "same_registry e e' \<longleftrightarrow> modules e' = modules e \<and> topic_queue_ttl e' = topic_queue_ttl e"

lemma same_registry_refl: "same_registry e e"
  by (simp add: same_registry_def)

lemma same_registry_trans: "same_registry e e1 \<Longrightarrow> same_registry e1 e2 \<Longrightarrow> same_registry e e2"
  by (simp add: same_registry_def)

lemma next_handler_same: "next_handler tid av e = (h, e') \<Longrightarrow> same_registry e e'"
  by (auto simp: next_handler_def Let_def same_registry_def)

lemma retry_job_same: "retry_job tnow c info e = (ok, info', out, e') \<Longrightarrow> same_registry e e'"
  by (auto simp: retry_job_def next_handler_def Let_def same_registry_def split: prod.splits if_splits)

lemma handle_request_same: "handle_request cx tnow idn tf mf msg e = (out, e') \<Longrightarrow> same_registry e e'"
  by (auto simp: handle_request_def next_handler_def Let_def same_registry_def split: prod.splits if_splits)

lemma handle_response_same: "handle_response tf mf msg e = (out, e') \<Longrightarrow> same_registry e e'"
  by (auto simp: handle_response_def same_registry_def split: option.splits)

lemma router_receive_same: "router_receive env tnow fs e = Some (out, e') \<Longrightarrow> same_registry e e'"
  by (auto simp: router_receive_def same_registry_refl handle_request_same handle_response_same
      split: if_splits option.splits)

lemma process_timeout_same: "process_timeout env tnow c reason e = Some (out, e') \<Longrightarrow> same_registry e e'"
proof -
  assume p: "process_timeout env tnow c reason e = Some (out, e')"
  have dl: "same_registry x y" if "dead_letter env mf topic r x = Some y" for x y mf topic r
    using that by (auto simp: dead_letter_def same_registry_def split: option.splits)
  show ?thesis
  proof (cases "map_of (job_tracking e) c")
    case None
    with p show ?thesis by (simp add: process_timeout_def same_registry_refl)
  next
    case (Some info)
    define e1 where "e1 = e\<lparr>job_tracking := assoc_del c (job_tracking e)\<rparr>"
    define e2 where "e2 = add_unavailable (handler_id info) (jt_topic info) e1"
    obtain ok info' o3 e3 where r: "retry_job tnow c info e2 = (ok, info', o3, e3)" by (cases "retry_job tnow c info e2") auto
    have s: "same_registry e e1" "same_registry e1 e2"
      by (simp_all add: e1_def e2_def add_unavailable_def same_registry_def)
    note s3 = same_registry_trans [OF same_registry_trans [OF s] retry_job_same [OF r]]
    show ?thesis
    proof (cases "reason = ''run_timeout'' \<and> handler_id info \<noteq> []")
      case True
      with p Some r s3 show ?thesis
        by (auto simp: process_timeout_def Let_def same_registry_def simp flip: e1_def e2_def split: if_splits)
    next
      case False
      with p Some obtain e4 where "(if reason = ''wait_timeout''
          then dead_letter env (message_frame info) (jt_topic info) ''wait_timeout'' e1 else Some e1) = Some e4"
        "e' = e4\<lparr>pending_jobs := assoc_del c (pending_jobs e4)\<rparr>"
        by (auto simp: process_timeout_def Let_def simp flip: e1_def split: bind_splits)
      with dl s(1) show ?thesis by (force simp: same_registry_def split: if_splits)
    qed
  qed
qed

lemma process_timeouts_same: "process_timeouts env tnow evs e = Some (out, e') \<Longrightarrow> same_registry e e'"
proof (induction env tnow evs e arbitrary: out rule: process_timeouts.induct)
  case (2 env tnow c reason evs e)
  from "2.prems" obtain o1 e1 o2 where p: "process_timeout env tnow c reason e = Some (o1, e1)"
    "process_timeouts env tnow evs e1 = Some (o2, e')" by (auto split: bind_splits)
  from same_registry_trans [OF process_timeout_same [OF p(1)] "2.IH" [OF p(1) refl p(2)]] show ?case .
qed (simp add: same_registry_refl)

lemma dispatch_waiting_same: "same_registry (snd acc) (snd (dispatch_waiting tnow ci acc))"
proof -
  obtain c i out e where ci: "ci = (c, i)" "acc = (out, e)" by (cases ci; cases acc)
  define e1 where "e1 = e\<lparr>job_tracking := assoc_del c (job_tracking e)\<rparr>"
  obtain ok i' o1 e2 where r: "retry_job tnow c i e1 = (ok, i', o1, e2)" by (cases "retry_job tnow c i e1") auto
  have "same_registry e e1" by (simp add: e1_def same_registry_def)
  from same_registry_trans [OF this retry_job_same [OF r]] r show ?thesis
    by (auto simp: ci dispatch_waiting_def Let_def same_registry_def simp flip: e1_def)
qed

lemma process_recovery_same: "process_recovery tnow ev e = (out, e') \<Longrightarrow> same_registry e e'"
proof -
  have "same_registry (snd acc) (snd (fold (dispatch_waiting tnow) js acc))" for js acc
  proof (induction js arbitrary: acc)
    case (Cons j js)
    from same_registry_trans [OF dispatch_waiting_same Cons.IH] show ?case by simp
  qed (simp add: same_registry_refl)
  from this [of "([], e)"] show "process_recovery tnow ev e = (out, e') \<Longrightarrow> same_registry e e'"
    unfolding process_recovery_def by (metis snd_conv)
qed

lemma process_recoveries_same: "process_recoveries tnow evs e = (out, e') \<Longrightarrow> same_registry e e'"
proof (induction evs arbitrary: e out)
  case (Cons ev evs)
  obtain o1 e1 where p: "process_recovery tnow ev e = (o1, e1)" by force
  with Cons.prems obtain o2 where "process_recoveries tnow evs e1 = (o2, e')" by (auto split: prod.splits)
  from same_registry_trans [OF process_recovery_same [OF p] Cons.IH [OF this]] show ?case .
qed (simp add: same_registry_refl)

lemma router_iteration_same:
  assumes "router_iteration env tnow received e = Some (out, e')"
  shows "same_registry e e'"
proof -
  from assms obtain o1 e1 o2 e2 o3 where
    r1: "(case received of None \<Rightarrow> Some ([], e) | Some fs \<Rightarrow> router_receive env tnow fs e) = Some (o1, e1)"
    and r2: "process_timeouts env tnow (job_timeout_events e1) (e1\<lparr>job_timeout_events := []\<rparr>) = Some (o2, e2)"
    and r3: "process_recoveries tnow (recovery_events e2) (e2\<lparr>recovery_events := []\<rparr>) = (o3, e')"
    by (auto simp: router_iteration_def Let_def split: bind_splits prod.splits)
  have "same_registry e e1" using r1 router_receive_same by (auto simp: same_registry_refl split: option.splits)
  then show ?thesis
    using process_timeouts_same [OF r2] process_recoveries_same [OF r3] by (simp add: same_registry_def)
qed

section \<open>Every step keeps the invariant and the ledger of jobs\<close>

lemma router_inv:
  assumes inv: "sys_inv env e" and room: "intern_room (intern_table e) 1"
    and tot: "\<And>fs. received = Some fs \<Longrightarrow> message_total env fs"
    and r: "router_iteration env tnow received e = Some (out, e')"
  shows "sys_inv env e'"
    "keeps_or_answers (case received of None \<Rightarrow> {} | Some fs \<Rightarrow> request_ids env fs) e out e'"
proof -
  have w: "wf_router env e'" and k: "keeps_or_answers (case received of None \<Rightarrow> {} | Some fs \<Rightarrow> request_ids env fs) e out e'"
    using router_iteration_step [where tnow = tnow, OF sys_inv_router [OF inv] room tot] r by fastforce+
  show "sys_inv env e'"
    using w inv router_iteration_same [OF r] by (simp add: sys_inv_def wf_router_def frames_ok_def same_registry_def)
  show "keeps_or_answers (case received of None \<Rightarrow> {} | Some fs \<Rightarrow> request_ids env fs) e out e'" by (rule k)
qed

lemma registration_queues_inv:
  "sys_inv env e \<Longrightarrow> sys_inv env (registration_receive fs e)"
  "pending_jobs (registration_receive fs e) = pending_jobs e"
  "sys_inv env e \<Longrightarrow> sys_inv env (snd (registration_send e))"
  "pending_jobs (snd (registration_send e)) = pending_jobs e"
  "sys_inv env e \<Longrightarrow> sys_inv env (job_timeout_pass tnow e)"
  "pending_jobs (job_timeout_pass tnow e) = pending_jobs e"
  by (auto simp: registration_receive_def registration_send_def job_timeout_pass_def sys_inv_def frames_ok_def
      wf_engine_def wf_jobs_def job_ok_def)

lemma engine_step_inv:
  assumes "engine_step env e D out e'" and "sys_inv env e"
  shows "sys_inv env e' \<and> keeps_or_answers D e out e'"
  using assms
proof cases
  case (step_inject t1 t2 topic bs)
  with assms(2) have "events_only e e'"
    using inject_events [OF wf_engineD(1)] by (simp add: sys_inv_def)
  with events_only_inv [OF assms(2)] step_inject show ?thesis by simp
next
  case (step_proxy t1 t2 received fwd)
  have "events_only e e'" using proxy_batch_events [OF _ step_proxy(3)] assms(2) by (simp add: sys_inv_def wf_engineD)
  with events_only_inv [OF assms(2)] step_proxy show ?thesis by simp
next
  case (step_egress clk had n)
  have "events_only e e'"
    using egress_queues_events [of env clk "snapshot (topic_queues e)" "(False, 0, e)" "(had, n, e')"] step_egress(3) assms(2)
    by (simp add: egress_pass_def sys_inv_def wf_engineD)
  with events_only_inv [OF assms(2)] step_egress show ?thesis by simp
next
  case (step_reg_egress tnow rnd)
  with registration_inv [OF assms(2)] show ?thesis by simp
next
  case (step_heartbeat tnow fs)
  with heartbeat_inv [OF assms(2)] show ?thesis by simp
next
  case (step_router received tnow)
  with router_inv [OF assms(2)] show ?thesis by blast
qed (use assms(2) registration_queues_inv monitor_inv in simp_all)


lemma engine_run_inv: "engine_run env e D out e' \<Longrightarrow> sys_inv env e \<Longrightarrow> sys_inv env e' \<and> keeps_or_answers D e out e'"
proof (induction rule: engine_run.induct)
  case (run_step D out e1 D1 out1 e2)
  from run_step have ih: "sys_inv env e1" "keeps_or_answers D e out e1" by blast+
  from engine_step_inv [OF run_step.hyps(2) ih(1)]
  have st: "sys_inv env e2" "keeps_or_answers D1 e1 out1 e2" by blast+
  have "keeps_or_answers (D \<union> D1) e (out @ out1) e2"
    by (rule keeps_trans [of _ _ _ e1]) (use ih(2) st(2) in \<open>auto simp: keeps_or_answers_def\<close>)
  with st(1) show ?case by blast
qed simp

lemma listed_registered:
  assumes "wf_engine e" and "mid \<in> set (listed e p t)"
  shows "mid \<in> keys (modules e)"
proof -
  have "wf_table (keys (modules e)) (pattern_table e p)"
    using wf_engineD(4-6) [OF assms(1)] by (cases p) (simp_all add: pattern_table_def)
  moreover obtain tid xs where "map_of (pattern_table e p) tid = Some xs" "mid \<in> set xs"
    using assms(2) by (force simp: listed_def members_def split: option.splits)
  ultimately show ?thesis using wf_table_member by blast
qed

lemma engine_new_inv:
  assumes "engine_new reg ev hb hbr adm job cap dir tnow = Some e" and "unat (scast cap :: u64) \<le> 2 ^ 63"
  shows "sys_inv env e"
proof -
  obtain e0 where e0: "engine_new reg ev hb hbr adm job cap dir tnow = Some e0" "wf_engine e0"
    "modules e0 = []" "job_tracking e0 = []"
    by (rule engine_new_wf [OF assms(2)])
  have "0 \<le> topic_queue_ttl e" using assms(1) by (auto simp: engine_new_def split: bind_splits)
  with e0 assms(1) show ?thesis by (simp add: sys_inv_def frames_ok_def)
qed


lemma handle_request_events:
  "handle_request cx tnow idn tf mf msg e = (out, e') \<Longrightarrow>
     job_timeout_events e' = job_timeout_events e \<and> recovery_events e' = recovery_events e"
  by (auto simp: handle_request_def next_handler_def Let_def split: prod.splits if_splits)

lemma engine_run_one: "engine_step env e D out e' \<Longrightarrow> engine_run env e D out e'"
  using run_step [OF run_start] by fastforce

text \<open>A run from the sample engine: a module registers as a job handler and a request arrives.\<close>

definition run_env :: env where
  "run_env = sample_env\<lparr>env_cx := sample_codec [registration_doc sample_module, message_doc sample_base sample_request]\<rparr>"

lemma run_env_decodes:
  "decode (env_cx run_env) (serialize (env_cx run_env) sample_request) = Some (Some sample_request)"
  "codec_ok (env_cx run_env) (registration_doc sample_module)" "codec_numbers (env_cx run_env)"
proof -
  have "codec_ok (env_cx run_env) (message_doc (env_cx run_env) sample_request)"
    unfolding run_env_def by (simp, unfold registration_doc_def message_doc_def, rule sample_codec_ok_second) simp_all
  moreover have "wf_message sample_request"
    by (simp add: wf_message_def sample_request_def default_message_def message_type_from_str_def)
  ultimately have "deserialize (env_cx run_env) (serialize (env_cx run_env) sample_request) =
      Inr (sample_request\<lparr>msg_payload := norm_entries (env_cx run_env) (msg_payload sample_request)\<rparr>)"
    by (intro job_message_decoded) (simp_all add: run_env_def sample_request_def default_message_def)
  then show "decode (env_cx run_env) (serialize (env_cx run_env) sample_request) = Some (Some sample_request)"
    by (simp add: decode_def)
qed (simp_all add: run_env_def)

lemma sample_run_registered:
  obtains e0 e where "sample_engine = Some e0" "engine_run run_env e0 {} [] e" "sys_inv run_env e"
    "intern_room (intern_table e) 1" "listed (interned ''order'' e) HANDLE ''order'' \<noteq> []"
    "job_timeout_events e = []" "recovery_events e = []"
proof -
  let ?cx = "env_cx run_env"
  obtain e0 where e0: "sample_engine = Some e0" "wf_engine e0" "modules e0 = []" "intern_table e0 = string_intern_new"
    by (rule sample_engine_wf)
  have q0: "reg_in_queue e0 = []" "job_timeout_events e0 = []" "recovery_events e0 = []"
    using e0(1) by (auto simp: sample_engine_def engine_new_def split: bind_splits)
  let ?bs = "cx_wire ?cx (registration_toks sample_module)"
  let ?e1 = "registration_receive [[9], [], ?bs] e0"
  let ?obj = "doc_obj ?cx (registration_doc sample_module)"
  let ?mid = "create_module_id ''gw'' (\<lambda>_. 10) e0"
  let ?info = "\<lparr>module_id = ?mid, interfaces = parse_interfaces ?obj, metadata = []\<rparr>"
  obtain msg where msg: "deserialize ?cx ?bs = Inr msg" "msg_type msg = REGISTER" "registered_family msg = Some ''gw''"
    using registration_decoded [OF run_env_decodes(2,3)] by auto
  have obj: "cx_unpack ?cx ?bs = Some ?obj"
    using run_env_decodes(2) by (simp add: codec_ok_def registration_toks_doc)
  have e1: "reg_in_queue ?e1 = [([9], ?bs)]" "?e1\<lparr>reg_in_queue := []\<rparr> = e0"
    using q0(1) by (simp_all add: registration_receive_def message_part_def)
  have room: "intern_room (intern_table e0) n" if "n < 2 ^ 32 - 1" for n
    using that by (simp add: e0(4) intern_room_def string_intern_new_def)
  have len: "length (interfaces ?info) = 1" by (simp add: parse_interfaces_doc)
  have "can_register run_env ?e1"
    using e1(1) e0(3) room len obj msg(1) by (simp add: can_register_def decode_def registration_receive_def)
  moreover define e2 where "e2 = register_module 1 ?info e0"
  define e3 where "e3 = e2\<lparr>register_count := register_count e2 + 1, reg_out_queue := reg_out_queue e2 @
    [[[9], [], serialize ?cx (register_ack ?mid (e2\<lparr>register_count := register_count e2 + 1\<rparr>))]]\<rparr>"
  have "registration_egress run_env 1 (\<lambda>_. 10) ?e1 = Some e3"
    using msg obj by (simp add: registration_egress_def e1 process_registration_def decode_def Let_def e3_def e2_def)
  ultimately have s2: "engine_step run_env ?e1 {} [] e3" by (rule step_reg_egress)
  have inv0: "sys_inv run_env e0" using engine_new_inv [of _ _ _ _ _ _ 16] e0(1) unfolding sample_engine_def by simp
  have run2: "engine_run run_env e0 ({} \<union> {}) ([] @ []) e3"
    using engine_run.run_step [OF engine_run_one [OF step_reg_receive] s2] .
  have inv3: "sys_inv run_env e3" using engine_run_inv [OF run2 inv0] by blast
  have room3: "intern_room (intern_table e3) 1"
    using register_module_room [OF e0(2), of ?info 1] room len by (simp add: e3_def e2_def)
  have "seen_interface (new_interface ''handle_order'' HANDLE ''order'' ASYNC_FLUSH) \<in> set (interfaces ?info)"
    by (simp add: parse_interfaces_doc)
  with register_module_spec(2) [OF e0(2), of ?info 1] room len
  have "?mid \<in> set (listed e2 HANDLE ''order'')"
    by (force simp: e2_def seen_interface_def new_interface_def)
  then have mem: "?mid \<in> set (listed e3 HANDLE ''order'')" by (simp add: e3_def listed_def pattern_table_def)
  obtain tid where "map_of (string_to_id (intern_table e3)) ''order'' = Some tid"
    using listed_interned [OF mem] by blast
  with si.ensure_hit [OF wf_engineD(2), of e3] inv3 have "interned ''order'' e3 = e3"
    by (simp add: interned_def sys_inv_def)
  with mem have lst: "listed (interned ''order'' e3) HANDLE ''order'' \<noteq> []" by force
  have ev: "job_timeout_events e3 = []" "recovery_events e3 = []"
    using q0 by (simp_all add: e3_def e2_def register_module_frame)
  from run2 have "engine_run run_env e0 {} [] e3" by simp
  from that [OF e0(1) this inv3 room3 lst ev] show thesis .
qed

lemma sample_run:
  obtains e0 D out e where "sample_engine = Some e0" "engine_run run_env e0 D out e"
    "map_of (pending_jobs e) ''c1'' = Some [7]"
proof -
  let ?cx = "env_cx run_env"
  let ?f = "serialize ?cx sample_request"
  let ?fs = "[[7], [], [1], ?f]"
  obtain e0 e3 where e0: "sample_engine = Some e0" and run2: "engine_run run_env e0 {} [] e3"
    and inv3: "sys_inv run_env e3" and room3: "intern_room (intern_table e3) 1"
    and lst: "listed (interned ''order'' e3) HANDLE ''order'' \<noteq> []"
    and ev: "job_timeout_events e3 = []" "recovery_events e3 = []"
    by (rule sample_run_registered)
  obtain out e4 where h: "handle_request ?cx 2 [7] [1] ?f sample_request e3 = (out, e4)" by force
  have "map_of (pending_jobs e4) ''c1'' = Some [7]"
  proof (cases rule: handle_request_cases [OF wf_routerD(1) [OF sys_inv_router [OF inv3]] room3
      wf_routerD(2) [OF sys_inv_router [OF inv3]], where msg = sample_request and cx = ?cx and tnow = 2
      and identity = "[7]" and tframe = "[1]" and mframe = ?f])
    case 1
    with lst show ?thesis by simp
  qed (use h in simp_all)
  moreover have "router_iteration run_env 2 (Some ?fs) e3 = Some (out, e4)"
    using h handle_request_events [OF h] ev run_env_decodes(1) by (simp add: router_iteration_def router_receive_def)
  then have "engine_step run_env e3 (case Some ?fs of None \<Rightarrow> {} | Some fs \<Rightarrow> request_ids run_env fs) out e4"
    using room3 run_env_decodes(1) by (intro step_router) (auto simp: message_total_def)
  from engine_run.run_step [OF run2 this] have "engine_run run_env e0 (request_ids run_env ?fs) out e4" by simp
  ultimately show thesis by (intro that [OF e0])
qed

text \<open>C1: Over any run of the engine, of any length and with any interleaving of its workers, a job
  that was pending is still pending for the same requester at the end or that requester was sent
  a message during the run, unless a request of the run reused the job's correlation id.\<close>

theorem job_ledger_run:
  assumes "engine_new reg ev hb hbr adm job cap dir t0 = Some e0" and "unat (scast cap :: u64) \<le> 2 ^ 63"
    and "engine_run env e0 D0 out0 e" and "engine_run env e D out e'"
    and "map_of (pending_jobs e) c = Some r" and "c \<notin> D"
  shows "map_of (pending_jobs e') c = Some r \<or> (\<exists>tf mf. [r, [], tf, mf] \<in> set out)"
proof -
  have "sys_inv env e" using engine_run_inv [OF assms(3) engine_new_inv [OF assms(1,2)]] by blast
  with engine_run_inv [OF assms(4)] have "keeps_or_answers D e out e'" by blast
  with assms(5,6) show ?thesis unfolding keeps_or_answers_def answered_def by blast
qed


theorem job_ledger_run_witness:
  "\<exists>e0 D out e. sample_engine = Some e0 \<and> engine_run run_env e0 D out e \<and>
     map_of (pending_jobs e) ''c1'' = Some [7] \<and>
     (map_of (pending_jobs (job_timeout_pass 99 e)) ''c1'' = Some [7] \<or> (\<exists>tf mf. [[7], [], tf, mf] \<in> set ([] :: bytes list list)))"
proof -
  obtain e0 D out e where r: "sample_engine = Some e0" "engine_run run_env e0 D out e"
    "map_of (pending_jobs e) ''c1'' = Some [7]"
    by (rule sample_run)
  have "unat (scast (16 :: i32) :: u64) \<le> 2 ^ 63" by simp
  from job_ledger_run [OF r(1) [unfolded sample_engine_def] this r(2) engine_run_one [OF step_timeouts] r(3), of 99] r
  show ?thesis by blast
qed

end
