(* ===== verification/Shm_Queue.thy ===== *)
theory Shm_Queue
  imports Fifo_Spec
begin

text \<open>
  The inter-process queue of \<^verbatim>\<open>src/tyche/cpp/engine/shared_memory_queue.{h,cpp}\<close>.  A handle
  (\<open>shm_queue\<close>) holds the configuration and the validity flag of one end; the segment
  (\<open>shm_segment\<close>) is the shared memory both ends map: the header and the slots.  The
  operating system's part of the constructor (creating or opening the mapping) is the
  argument \<open>mapping\<close>.  A call that spins for ever or traps has the value \<open>None\<close>.
\<close>

section \<open>State and operations\<close>

record shm_config =
  cfg_name :: string
  cfg_slot_count :: u32
  cfg_max_msg_size :: u32

record shm_slot =
  sl_sequence :: u32
  sl_size :: u32
  sl_data :: bytes

record shm_segment =
  write_seq :: u32
  read_seq :: u32
  h_slot_count :: u32
  h_max_msg_size :: u32
  h_magic :: u32
  h_version :: u32
  seg_slots :: "shm_slot list"

record shm_queue =
  config :: shm_config
  owner :: bool
  valid :: bool

definition MAGIC :: u32 where
  "MAGIC = 0x54594843"

definition VERSION :: u32 where
  "VERSION = 1"

text \<open>Layout: a 64-byte header, then slots of an 8-byte header and the data, 8-aligned.\<close>

definition slot_stride :: "shm_config \<Rightarrow> u64" where
  "slot_stride cfg = (let slot_size = 8 + ucast (cfg_max_msg_size cfg) in (slot_size + 7) AND NOT 7)"

definition total_size :: "shm_config \<Rightarrow> u64" where
  "total_size cfg = 64 + ucast (cfg_slot_count cfg) * slot_stride cfg"

text \<open>The byte offset of a slot's header in the mapping; \<open>None\<close> is the null pointer.\<close>

definition slot_header :: "shm_config \<Rightarrow> u32 \<Rightarrow> u64 option" where
  "slot_header cfg index =
     (if index \<ge> cfg_slot_count cfg then None else Some (64 + ucast index * slot_stride cfg))"

definition slot_data :: "shm_config \<Rightarrow> u32 \<Rightarrow> u64 option" where
  "slot_data cfg index =
     (if index \<ge> cfg_slot_count cfg then None else Some (64 + ucast index * slot_stride cfg + 8))"

definition init_segment :: "shm_config \<Rightarrow> shm_segment" where
  "init_segment cfg =
     \<lparr>write_seq = 0, read_seq = 0,
      h_slot_count = cfg_slot_count cfg, h_max_msg_size = cfg_max_msg_size cfg,
      h_magic = MAGIC, h_version = VERSION,
      seg_slots = map (\<lambda>i. \<lparr>sl_sequence = word_of_nat i, sl_size = 0,
                             sl_data = replicate (unat (cfg_max_msg_size cfg)) 0\<rparr>)
                      [0..<unat (cfg_slot_count cfg)]\<rparr>"

text \<open>
  The constructor.  \<open>mapping\<close> is what the platform calls gave: \<open>None\<close> when one of them
  failed, else the memory as it was mapped.  The owner initialises it, the other end
  verifies it.
\<close>

definition shm_open ::
    "shm_config \<Rightarrow> bool \<Rightarrow> shm_segment option \<Rightarrow> shm_queue \<times> shm_segment option" where
  "shm_open cfg own mapping =
     (case mapping of
        None \<Rightarrow> (\<lparr>config = cfg, owner = own, valid = False\<rparr>, None)
      | Some h \<Rightarrow>
          if own then (\<lparr>config = cfg, owner = own, valid = True\<rparr>, Some (init_segment cfg))
          else if h_magic h \<noteq> MAGIC \<or> h_version h \<noteq> VERSION
            then (\<lparr>config = cfg, owner = own, valid = False\<rparr>, Some h)
          else if h_slot_count h \<noteq> cfg_slot_count cfg \<or> h_max_msg_size h \<noteq> cfg_max_msg_size cfg
            then (\<lparr>config = cfg, owner = own, valid = False\<rparr>, Some h)
          else (\<lparr>config = cfg, owner = own, valid = True\<rparr>, Some h))"

definition seq_diff32 :: "u32 \<Rightarrow> u32 \<Rightarrow> int" where
  "seq_diff32 s p = sint (s - p)"

text \<open>\<^verbatim>\<open>memcpy\<close> of a message over the front of a slot's data area.\<close>

definition overlay :: "bytes \<Rightarrow> bytes \<Rightarrow> bytes" where
  "overlay new old = new @ drop (length new) old"

partial_function (option) shm_write_loop ::
    "shm_config \<Rightarrow> bytes \<Rightarrow> u32 \<Rightarrow> shm_segment \<Rightarrow> (bool \<times> shm_segment) option" where
  "shm_write_loop cfg msg pos h =
     (if h_slot_count h = 0 then None
      else
        let idx = pos mod h_slot_count h
        in case slot_header cfg idx of
             None \<Rightarrow> Some (False, h)
           | Some _ \<Rightarrow>
               let sh = seg_slots h ! unat idx; diff = seq_diff32 (sl_sequence sh) pos
               in if diff = 0 then
                    (if write_seq h = pos
                     then Some (True, h\<lparr>write_seq := pos + 1,
                            seg_slots := (seg_slots h)[unat idx :=
                              \<lparr>sl_sequence = pos + 1, sl_size = word_of_nat (length msg),
                               sl_data = overlay msg (sl_data sh)\<rparr>]\<rparr>)
                     else shm_write_loop cfg msg (write_seq h) h)
                  else if diff < 0 then Some (False, h)
                  else shm_write_loop cfg msg (write_seq h) h)"

definition shm_write :: "shm_queue \<Rightarrow> bytes \<Rightarrow> shm_segment \<Rightarrow> (bool \<times> shm_segment) option" where
  "shm_write q msg h =
     (if \<not> valid q \<or> length msg = 0 \<or> length msg > unat (cfg_max_msg_size (config q))
      then Some (False, h)
      else shm_write_loop (config q) msg (write_seq h) h)"

text \<open>
  \<^verbatim>\<open>read\<close>.  The slot is released with the sequence number \<^verbatim>\<open>pos + slot_count + 1\<close>, as the
  source stores it.
\<close>

definition shm_read :: "shm_queue \<Rightarrow> shm_segment \<Rightarrow> (bytes option \<times> shm_segment) option" where
  "shm_read q h =
     (if \<not> valid q then Some (None, h)
      else if h_slot_count h = 0 then None
      else
        let pos = read_seq h; idx = pos mod h_slot_count h
        in case slot_header (config q) idx of
             None \<Rightarrow> Some (None, h)
           | Some _ \<Rightarrow>
               let sh = seg_slots h ! unat idx
               in if seq_diff32 (sl_sequence sh) (pos + 1) = 0
                  then let msg_size = min (sl_size sh) (cfg_max_msg_size (config q))
                       in Some (Some (take (unat msg_size) (sl_data sh)),
                                h\<lparr>read_seq := pos + 1,
                                  seg_slots := (seg_slots h)[unat idx :=
                                    sh\<lparr>sl_sequence := pos + h_slot_count h + 1\<rparr>]\<rparr>)
                  else Some (None, h))"

definition shm_empty :: "shm_queue \<Rightarrow> shm_segment \<Rightarrow> bool" where
  "shm_empty q h \<longleftrightarrow> \<not> valid q \<or> write_seq h = read_seq h"

definition shm_size :: "shm_queue \<Rightarrow> shm_segment \<Rightarrow> nat" where
  "shm_size q h =
     (if \<not> valid q then 0
      else if write_seq h \<ge> read_seq h then unat (write_seq h - read_seq h) else 0)"

definition shm_capacity :: "shm_queue \<Rightarrow> u32" where
  "shm_capacity q = cfg_slot_count (config q)"

section \<open>Layout\<close>

lemma align8:
  fixes s :: u64
  shows "unat (s AND NOT 7) = unat s - unat s mod 8"
proof -
  have "(s AND NOT 7) AND (s AND 7) = 0"
    by (simp add: and.assoc and.left_commute)
  moreover have "(s AND NOT 7) OR (s AND 7) = s"
    by (simp add: bit.conj_disj_distrib [symmetric])
  ultimately have "(s AND NOT 7) + (s AND 7) = s"
    using word_plus_and_or [of "s AND NOT 7" "s AND 7"] by simp
  then have eq: "s AND NOT 7 = s - (s AND 7)"
    by (simp add: eq_diff_eq)
  have "unat (s AND 7) = unat s mod 8"
    using unat_and_mask_mod [of s 3] by (simp add: mask_eq_exp_minus_1)
  then show ?thesis
    unfolding eq by (simp add: unat_sub word_and_le2)
qed

lemma slot_stride_bounds:
  shows "8 + unat (cfg_max_msg_size cfg) \<le> unat (slot_stride cfg)"
    and "unat (slot_stride cfg) < 16 + unat (cfg_max_msg_size cfg)"
    and "8 dvd unat (slot_stride cfg)"
proof -
  let ?m = "unat (cfg_max_msg_size cfg)"
  let ?s = "8 + ucast (cfg_max_msg_size cfg) + 7 :: u64"
  have "?m < 2 ^ 32" using unsigned_less [of "cfg_max_msg_size cfg"] by simp
  moreover have "?s = word_of_nat (?m + 15)"
    by simp
  ultimately have s: "unat ?s = ?m + 15"
    by (simp add: unat_of_nat del: of_nat_add)
  have eq: "unat (slot_stride cfg) = (?m + 15) - (?m + 15) mod 8"
    unfolding slot_stride_def Let_def align8 s ..
  show "8 + ?m \<le> unat (slot_stride cfg)" and "unat (slot_stride cfg) < 16 + ?m"
    unfolding eq by linarith+
  show "8 dvd unat (slot_stride cfg)"
    unfolding eq by (rule dvd_minus_mod)
qed

section \<open>The first lap\<close>

text \<open>
  \<open>lap_inv q N msgs r h\<close>: the \<open>N\<close>-slot queue has taken the messages \<open>msgs\<close>, at most \<open>N\<close> of
  them, so no slot was used twice, and \<open>r\<close> of them were read.
\<close>

definition msg_ok :: "shm_queue \<Rightarrow> bytes \<Rightarrow> bool" where
  "msg_ok q m \<longleftrightarrow> 0 < length m \<and> length m \<le> unat (cfg_max_msg_size (config q))"

definition lap_slot :: "nat \<Rightarrow> bytes list \<Rightarrow> nat \<Rightarrow> nat \<Rightarrow> shm_slot \<Rightarrow> bool" where
  "lap_slot N msgs r j s \<longleftrightarrow>
     sl_sequence s = word_of_nat (if j < r then j + N + 1 else if j < length msgs then j + 1 else j) \<and>
     (j < length msgs \<longrightarrow> unat (sl_size s) = length (msgs ! j) \<and>
        take (length (msgs ! j)) (sl_data s) = msgs ! j)"

definition lap_inv :: "shm_queue \<Rightarrow> nat \<Rightarrow> bytes list \<Rightarrow> nat \<Rightarrow> shm_segment \<Rightarrow> bool" where
  "lap_inv q N msgs r h \<longleftrightarrow>
     valid q \<and> 2 \<le> N \<and> N < 2 ^ 31 \<and> cfg_slot_count (config q) = word_of_nat N \<and>
     h_slot_count h = word_of_nat N \<and> length (seg_slots h) = N \<and>
     r \<le> length msgs \<and> length msgs \<le> N \<and> (\<forall>m \<in> set msgs. msg_ok q m) \<and>
     write_seq h = word_of_nat (length msgs) \<and> read_seq h = word_of_nat r \<and>
     (\<forall>j < N. lap_slot N msgs r j (seg_slots h ! j))"

lemma small_u32: "n < 2 ^ 32 \<Longrightarrow> unat (word_of_nat n :: u32) = n"
  by (rule unat_word_of_nat_small) simp

lemma seq_diff32_self [simp]: "seq_diff32 p p = 0"
  by (simp add: seq_diff32_def)

lemma seq_diff32_0_iff [simp]: "seq_diff32 s p = 0 \<longleftrightarrow> s = p"
  using signed_eq_0_iff [of "s - p"] by (simp add: seq_diff32_def)

lemma of_nat_u32_inj: "m < 2 ^ 32 \<Longrightarrow> n < 2 ^ 32 \<Longrightarrow> (word_of_nat m :: u32) = word_of_nat n \<longleftrightarrow> m = n"
  using small_u32 by metis

lemma lap_invD:
  assumes "lap_inv q N msgs r h"
  shows "valid q" "2 \<le> N" "N < 2 ^ 31" "length (seg_slots h) = N" "r \<le> length msgs" "length msgs \<le> N"
    "write_seq h = word_of_nat (length msgs)" "read_seq h = word_of_nat r"
    "h_slot_count h = word_of_nat N" "h_slot_count h \<noteq> 0"
    and "j < N \<Longrightarrow> lap_slot N msgs r j (seg_slots h ! j)"
    and "m \<in> set msgs \<Longrightarrow> msg_ok q m"
  using assms of_nat_u32_inj [of N 0] by (auto simp: lap_inv_def)

lemma lap_index:
  assumes "lap_inv q N msgs r h" and "i \<le> N"
  shows "unat (word_of_nat i mod h_slot_count h) = i mod N"
    and "\<exists>a. slot_header (config q) (word_of_nat i mod h_slot_count h) = Some a"
proof -
  have N: "N < 2 ^ 31" "2 \<le> N" "h_slot_count h = word_of_nat N"
      "cfg_slot_count (config q) = word_of_nat N"
    using assms(1) by (auto simp: lap_inv_def)
  then show ix: "unat (word_of_nat i mod h_slot_count h) = i mod N"
    using assms(2) by (simp add: unat_mod small_u32)
  have "i mod N < N" using N(2) by simp
  with ix N have "\<not> cfg_slot_count (config q) \<le> word_of_nat i mod h_slot_count h"
    by (simp add: word_le_nat_alt small_u32 not_le)
  then show "\<exists>a. slot_header (config q) (word_of_nat i mod h_slot_count h) = Some a"
    by (simp add: slot_header_def)
qed

lemma take_overlay: "take (length new) (overlay new old) = new"
  by (simp add: overlay_def)

lemma lap_write:
  assumes inv: "lap_inv q N msgs r h" and "length msgs < N" and "msg_ok q m"
  shows "\<exists>h'. shm_write q m h = Some (True, h') \<and> lap_inv q N (msgs @ [m]) r h'"
proof -
  let ?w = "length msgs"
  note d = lap_invD [OF inv]
  have ix: "?w mod N = ?w" using assms(2) by simp
  obtain a where a: "slot_header (config q) (word_of_nat ?w mod h_slot_count h) = Some a"
    using lap_index(2) [OF inv] assms(2) by fastforce
  have i: "unat (word_of_nat ?w mod h_slot_count h) = ?w"
    using lap_index(1) [OF inv, of ?w] assms(2) ix by simp
  have s: "sl_sequence (seg_slots h ! ?w) = word_of_nat ?w"
    using d(11) [OF assms(2)] d(5) by (simp add: lap_slot_def)
  define h' where "h' = h\<lparr>write_seq := word_of_nat ?w + 1,
    seg_slots := (seg_slots h)[?w := \<lparr>sl_sequence = word_of_nat ?w + 1,
      sl_size = word_of_nat (length m), sl_data = overlay m (sl_data (seg_slots h ! ?w))\<rparr>]\<rparr>"
  have "shm_write q m h = Some (True, h')"
    using assms(3) d a i s
    by (simp add: shm_write_def msg_ok_def shm_write_loop.simps [of _ _ "word_of_nat ?w"] h'_def)
  moreover have "lap_slot N (msgs @ [m]) r j (seg_slots h' ! j)" if j: "j < N" for j
  proof (cases "j = ?w")
    case True
    have "length m < 2 ^ 32"
      using assms(3) unat_u32_less [of "cfg_max_msg_size (config q)"]
      unfolding msg_ok_def by linarith
    then show ?thesis
      using True d(4,5) assms(2) by (simp add: h'_def lap_slot_def small_u32 take_overlay)
  next
    case False
    then show ?thesis
      using d(11) [OF j] j d(4,5) by (auto simp: h'_def lap_slot_def nth_append)
  qed
  ultimately show ?thesis
    using inv assms(2,3) by (intro exI [of _ h']) (auto simp: lap_inv_def h'_def)
qed

lemma lap_read_at:
  assumes inv: "lap_inv q N msgs r h" and "r \<le> N" and "r mod N < length msgs"
    and s: "sl_sequence (seg_slots h ! (r mod N)) = word_of_nat (r + 1)"
  shows "shm_read q h = Some (Some (msgs ! (r mod N)),
    h\<lparr>read_seq := word_of_nat r + 1, seg_slots := (seg_slots h)[r mod N :=
      (seg_slots h ! (r mod N))\<lparr>sl_sequence := word_of_nat r + word_of_nat N + 1\<rparr>]\<rparr>)"
proof -
  let ?i = "r mod N"
  note d = lap_invD [OF inv]
  have iN: "?i < N" using d(2) by simp
  obtain a where a: "slot_header (config q) (word_of_nat r mod h_slot_count h) = Some a"
    using lap_index(2) [OF inv assms(2)] by blast
  note i = lap_index(1) [OF inv assms(2)]
  have sz: "unat (sl_size (seg_slots h ! ?i)) = length (msgs ! ?i)"
    and dt: "take (length (msgs ! ?i)) (sl_data (seg_slots h ! ?i)) = msgs ! ?i"
    using d(11) [OF iN] assms(3) by (auto simp: lap_slot_def)
  have "msg_ok q (msgs ! ?i)"
    using d(12) nth_mem [OF assms(3)] by blast
  then have "min (sl_size (seg_slots h ! ?i)) (cfg_max_msg_size (config q)) = sl_size (seg_slots h ! ?i)"
    using sz by (simp add: msg_ok_def min_def word_le_nat_alt)
  then show ?thesis
    using d(1,8,9,10) a i s sz dt by (simp add: shm_read_def Let_def)
qed

lemma lap_read:
  assumes inv: "lap_inv q N msgs r h" and "r < length msgs"
  shows "\<exists>h'. shm_read q h = Some (Some (msgs ! r), h') \<and> lap_inv q N msgs (Suc r) h'"
proof -
  note d = lap_invD [OF inv]
  have r: "r < N" using assms(2) d(6) by simp
  have s: "sl_sequence (seg_slots h ! r) = word_of_nat (r + 1)"
    using d(11) [OF r] assms(2) by (simp add: lap_slot_def)
  define h' where "h' = h\<lparr>read_seq := word_of_nat r + 1, seg_slots := (seg_slots h)[r :=
      (seg_slots h ! r)\<lparr>sl_sequence := word_of_nat r + word_of_nat N + 1\<rparr>]\<rparr>"
  have "shm_read q h = Some (Some (msgs ! r), h')"
    using lap_read_at [OF inv] r assms(2) s by (simp add: h'_def)
  moreover have "lap_slot N msgs (Suc r) j (seg_slots h' ! j)" if j: "j < N" for j
  proof (cases "j = r")
    case True
    then show ?thesis
      using d(11) [OF r] d(4) r by (simp add: h'_def lap_slot_def ac_simps)
  next
    case False
    then show ?thesis
      using d(11) [OF j] d(4) j by (simp add: h'_def lap_slot_def)
  qed
  ultimately show ?thesis
    using inv assms(2) by (intro exI [of _ h']) (auto simp: lap_inv_def h'_def)
qed

lemma lap_read_none:
  assumes inv: "lap_inv q N msgs r h" and "r = length msgs" and "r < N"
  shows "shm_read q h = Some (None, h)"
proof -
  note d = lap_invD [OF inv]
  obtain a where a: "slot_header (config q) (word_of_nat r mod h_slot_count h) = Some a"
    using lap_index(2) [OF inv] assms(3) by fastforce
  have i: "unat (word_of_nat r mod h_slot_count h) = r"
    using lap_index(1) [OF inv, of r] assms(3) by simp
  have "sl_sequence (seg_slots h ! r) = word_of_nat r"
    using d(11) [OF assms(3)] assms(2) by (simp add: lap_slot_def)
  then show ?thesis
    using d(1,8,9,10) a i by (simp add: shm_read_def Let_def)
qed

section \<open>After the first lap\<close>

text \<open>
  Once every slot has been written and read, the released slot of position \<open>0\<close> carries
  the sequence number \<open>N + 1\<close>, which is what a reader at position \<open>N\<close> takes for a
  message and what a writer at position \<open>N\<close> takes for another writer's progress.
\<close>

lemma lap_replay:
  assumes inv: "lap_inv q N msgs N h"
  shows "shm_empty q h" and "\<exists>h'. shm_read q h = Some (Some (msgs ! 0), h')"
proof -
  note d = lap_invD [OF inv]
  have len: "length msgs = N" using d(5,6) by simp
  then show "shm_empty q h" using d(7,8) by (simp add: shm_empty_def)
  have "sl_sequence (seg_slots h ! 0) = word_of_nat (N + 1)"
    using d(11) [of 0] d(2) by (simp add: lap_slot_def)
  then show "\<exists>h'. shm_read q h = Some (Some (msgs ! 0), h')"
    using lap_read_at [OF inv] len d(2) by simp
qed

lemma spin_never_returns:
  assumes "h_slot_count h \<noteq> 0"
    and "slot_header cfg (write_seq h mod h_slot_count h) = Some a"
    and "seq_diff32 (sl_sequence (seg_slots h ! unat (write_seq h mod h_slot_count h))) (write_seq h) > 0"
  shows "shm_write_loop cfg m (write_seq h) h = None"
proof (rule ccontr)
  assume "shm_write_loop cfg m (write_seq h) h \<noteq> None"
  then obtain r where ret: "shm_write_loop cfg m (write_seq h) h = Some r" by auto
  have "\<not> (cfg = cfg \<and> write_seq h = write_seq h \<and> h = h)"
  proof (rule shm_write_loop.raw_induct
      [where P = "\<lambda>c m pos g r. \<not> (c = cfg \<and> pos = write_seq h \<and> g = h)", OF _ ret])
    fix f c m' pos g r'
    assume IH: "\<And>c m pos g r. f c m pos g = Some r \<Longrightarrow> \<not> (c = cfg \<and> pos = write_seq h \<and> g = h)"
      and eq: "(if h_slot_count g = 0 then None
       else let idx = pos mod h_slot_count g
        in case slot_header c idx of None \<Rightarrow> Some (False, g)
           | Some _ \<Rightarrow>
               let sh = seg_slots g ! unat idx; diff = seq_diff32 (sl_sequence sh) pos
               in if diff = 0 then
                    (if write_seq g = pos
                     then Some (True, g\<lparr>write_seq := pos + 1,
                            seg_slots := (seg_slots g)[unat idx :=
                              \<lparr>sl_sequence = pos + 1, sl_size = word_of_nat (length m'),
                               sl_data = overlay m' (sl_data sh)\<rparr>]\<rparr>)
                     else f c m' (write_seq g) g)
                  else if diff < 0 then Some (False, g)
                  else f c m' (write_seq g) g) = Some r'"
    show "\<not> (c = cfg \<and> pos = write_seq h \<and> g = h)"
      using eq assms IH [of c m' "write_seq g" g r']
      by (auto simp: Let_def split: if_splits)
  qed
  then show False by simp
qed

lemma lap_livelock:
  assumes inv: "lap_inv q N msgs r h" and "length msgs = N" and "0 < r" and "msg_ok q m"
  shows "shm_write q m h = None"
proof -
  note d = lap_invD [OF inv]
  obtain a where a: "slot_header (config q) (write_seq h mod h_slot_count h) = Some a"
    using lap_index(2) [OF inv, of N] d(7) assms(2) by auto
  have i: "unat (write_seq h mod h_slot_count h) = 0"
    using lap_index(1) [OF inv, of N] d(7) assms(2) by simp
  have "sl_sequence (seg_slots h ! 0) = word_of_nat (N + 1)"
    using d(11) [of 0] d(2) assms(3) by (simp add: lap_slot_def)
  then have "seq_diff32 (sl_sequence (seg_slots h ! unat (write_seq h mod h_slot_count h)))
      (write_seq h) > 0"
    unfolding i by (simp add: seq_diff32_def d(7) assms(2))
  from spin_never_returns [OF d(10) a this] show ?thesis
    using assms(4) d(1) by (auto simp: shm_write_def msg_ok_def)
qed

text \<open>A queue full of unread messages does refuse the next one.\<close>

lemma lap_full:
  assumes inv: "lap_inv q N msgs 0 h" and "length msgs = N" and "msg_ok q m"
  shows "shm_write q m h = Some (False, h)"
proof -
  note d = lap_invD [OF inv]
  obtain a where a: "slot_header (config q) (write_seq h mod h_slot_count h) = Some a"
    using lap_index(2) [OF inv, of N] d(7) assms(2) by auto
  have i: "unat (write_seq h mod h_slot_count h) = 0"
    using lap_index(1) [OF inv, of N] d(7) assms(2) by simp
  have "sl_sequence (seg_slots h ! 0) = 1"
    using d(11) [of 0] d(2) assms(2) by (simp add: lap_slot_def)
  moreover have "sint (1 - word_of_nat N :: u32) < 0"
  proof -
    have "sint (word_of_int (1 - int N) :: u32) = 1 - int N"
      using d(2,3) by (subst sint_sbintrunc') (simp add: signed_take_bit_int_eq_self)
    then show ?thesis using d(2) by (simp add: of_int_diff)
  qed
  ultimately have lt: "seq_diff32 (sl_sequence (seg_slots h ! unat (write_seq h mod h_slot_count h)))
      (write_seq h) < 0"
    unfolding i by (simp add: seq_diff32_def d(7) assms(2))
  then have "shm_write_loop (config q) m (write_seq h) h = Some (False, h)"
    using a d(10) by (subst shm_write_loop.simps) (auto simp: Let_def)
  then show ?thesis
    using assms(3) d(1) by (auto simp: shm_write_def msg_ok_def)
qed

lemma lap_inv_init:
  assumes "2 \<le> unat (cfg_slot_count cfg)" and "unat (cfg_slot_count cfg) < 2 ^ 31"
  shows "lap_inv \<lparr>config = cfg, owner = True, valid = True\<rparr> (unat (cfg_slot_count cfg)) [] 0
    (init_segment cfg)"
  using assms by (simp add: lap_inv_def init_segment_def lap_slot_def)

text \<open>Reading as an operation that always gives a state, for runs of operations.\<close>

definition shm_take :: "shm_queue \<Rightarrow> shm_segment \<Rightarrow> bytes option \<times> shm_segment" where
  "shm_take q h = (case shm_read q h of None \<Rightarrow> (None, h) | Some r \<Rightarrow> r)"

lemma shm_take_read: "shm_read q h = Some r \<Longrightarrow> shm_take q h = r"
  by (simp add: shm_take_def)

lemma lap_run:
  assumes "lap_inv q N msgs r h" and "length msgs + length (offered ops) < N"
    and "\<forall>m \<in> set (offered ops). msg_ok q m"
  shows "\<exists>out h'. qrun (shm_write q) (shm_take q) ops h = Some (offered ops, out, h') \<and>
    lap_inv q N (msgs @ offered ops) (r + length out) h' \<and> prefix out (drop r (msgs @ offered ops))"
  using assms
proof (induction ops arbitrary: msgs r h rule: offered.induct)
  case (2 m ops)
  then obtain h1 where h1: "shm_write q m h = Some (True, h1)" "lap_inv q N (msgs @ [m]) r h1"
    using lap_write [of q N msgs r h m] by auto
  from "2.IH" [OF h1(2)] "2.prems" h1 show ?case by auto
next
  case (3 ops)
  note d = lap_invD [OF "3.prems"(1)]
  show ?case
  proof (cases "r < length msgs")
    case True
    then obtain h1 where h1: "shm_read q h = Some (Some (msgs ! r), h1)" "lap_inv q N msgs (Suc r) h1"
      using lap_read [OF "3.prems"(1)] by blast
    from "3.IH" [OF h1(2)] "3.prems" obtain out h' where
      *: "qrun (shm_write q) (shm_take q) ops h1 = Some (offered ops, out, h')"
        "lap_inv q N (msgs @ offered ops) (Suc r + length out) h'"
        "prefix out (drop (Suc r) (msgs @ offered ops))" by auto
    moreover have "drop r (msgs @ offered ops) = msgs ! r # drop (Suc r) (msgs @ offered ops)"
      using True by (simp add: Cons_nth_drop_Suc [symmetric])
    ultimately show ?thesis
      using shm_take_read [OF h1(1)] by (intro exI [of _ "msgs ! r # out"] exI [of _ h']) simp
  next
    case False
    then have "shm_read q h = Some (None, h)"
      using "3.prems"(2) d(5) by (intro lap_read_none [OF "3.prems"(1)]) auto
    with "3.IH" [OF "3.prems"(1)] "3.prems" show ?thesis by (auto dest: shm_take_read)
  qed
qed auto

lemma lap_writes:
  assumes "lap_inv q N msgs r h" and "length msgs + length ms \<le> N" and "\<forall>m \<in> set ms. msg_ok q m"
  shows "\<exists>h'. qrun (shm_write q) (shm_take q) (map Offer ms) h = Some (ms, [], h') \<and>
    lap_inv q N (msgs @ ms) r h'"
  using assms
proof (induction ms arbitrary: msgs h)
  case (Cons m ms)
  then obtain h1 where h1: "shm_write q m h = Some (True, h1)" "lap_inv q N (msgs @ [m]) r h1"
    using lap_write [of q N msgs r h m] by auto
  from Cons.IH [OF h1(2)] Cons.prems h1 show ?case by auto
qed auto

lemma lap_reads:
  assumes "lap_inv q N msgs r h" and "r + n \<le> length msgs"
  shows "\<exists>h'. qrun (shm_write q) (shm_take q) (replicate n Take) h =
      Some ([], take n (drop r msgs), h') \<and> lap_inv q N msgs (r + n) h'"
  using assms
proof (induction n arbitrary: r h)
  case (Suc n)
  then obtain h1 where h1: "shm_read q h = Some (Some (msgs ! r), h1)" "lap_inv q N msgs (Suc r) h1"
    using lap_read [of q N msgs r h] by auto
  moreover have "take (Suc n) (drop r msgs) = msgs ! r # take n (drop (Suc r) msgs)"
    using Suc.prems by (simp add: Cons_nth_drop_Suc [symmetric])
  ultimately show ?case
    using Suc.IH [OF h1(2)] Suc.prems by (auto dest: shm_take_read)
qed auto

text \<open>One full lap: every slot written, then every slot read.\<close>

lemma full_lap:
  assumes "2 \<le> unat (cfg_slot_count cfg)" and "unat (cfg_slot_count cfg) < 2 ^ 31"
    and "length msgs = unat (cfg_slot_count cfg)"
    and q: "q = \<lparr>config = cfg, owner = True, valid = True\<rparr>" and "\<forall>m \<in> set msgs. msg_ok q m"
  shows "\<exists>h. qrun (shm_write q) (shm_take q)
      (map Offer msgs @ replicate (length msgs) Take) (init_segment cfg) = Some (msgs, msgs, h) \<and>
    lap_inv q (length msgs) msgs (length msgs) h"
proof -
  have "lap_inv q (length msgs) [] 0 (init_segment cfg)"
    using lap_inv_init [OF assms(1,2)] assms(3) q by simp
  from lap_writes [OF this] assms(5) obtain h1 where
    w: "qrun (shm_write q) (shm_take q) (map Offer msgs) (init_segment cfg) = Some (msgs, [], h1)"
      "lap_inv q (length msgs) msgs 0 h1" by auto
  from lap_reads [OF w(2), of "length msgs"] w(1) show ?thesis
    by (auto simp: qrun_append)
qed

section \<open>Properties\<close>



text \<open>C31: After one full lap, in which as many messages as there are slots were written and read,
  the queue reports itself empty and yet the next read returns the first message again.\<close>

theorem shm_replays_after_lap:
  assumes "2 \<le> unat (cfg_slot_count cfg)" and "unat (cfg_slot_count cfg) < 2 ^ 31"
    and "q = \<lparr>config = cfg, owner = True, valid = True\<rparr>"
    and "length msgs = unat (cfg_slot_count cfg)" and "\<forall>m \<in> set msgs. msg_ok q m"
  shows "\<exists>h h'. qrun (shm_write q) (shm_take q)
      (map Offer msgs @ replicate (length msgs) Take) (init_segment cfg) = Some (msgs, msgs, h) \<and>
    shm_empty q h \<and> shm_read q h = Some (Some (msgs ! 0), h')"
  using full_lap [OF assms(1,2,4,3,5)] lap_replay by blast

theorem shm_replays_after_lap_witness:
  "\<exists>h h'. qrun (shm_write \<lparr>config = \<lparr>cfg_name = ''q'', cfg_slot_count = 2, cfg_max_msg_size = 16\<rparr>,
        owner = True, valid = True\<rparr>)
      (shm_take \<lparr>config = \<lparr>cfg_name = ''q'', cfg_slot_count = 2, cfg_max_msg_size = 16\<rparr>,
        owner = True, valid = True\<rparr>)
      (map Offer [[1], [2]] @ replicate (length [[1], [2 :: u8]]) Take)
      (init_segment \<lparr>cfg_name = ''q'', cfg_slot_count = 2, cfg_max_msg_size = 16\<rparr>)
      = Some ([[1], [2]], [[1], [2]], h) \<and>
    shm_empty \<lparr>config = \<lparr>cfg_name = ''q'', cfg_slot_count = 2, cfg_max_msg_size = 16\<rparr>,
        owner = True, valid = True\<rparr> h \<and>
    shm_read \<lparr>config = \<lparr>cfg_name = ''q'', cfg_slot_count = 2, cfg_max_msg_size = 16\<rparr>,
        owner = True, valid = True\<rparr> h = Some (Some ([[1], [2]] ! 0), h')"
  by (rule shm_replays_after_lap) (simp_all add: msg_ok_def)

text \<open>After that lap a write of any admissible message never returns: it spins on a slot whose
  sequence number stays one ahead.\<close>

lemma shm_write_spins_after_lap:
  assumes "2 \<le> unat (cfg_slot_count cfg)" and "unat (cfg_slot_count cfg) < 2 ^ 31"
    and "q = \<lparr>config = cfg, owner = True, valid = True\<rparr>"
    and "length msgs = unat (cfg_slot_count cfg)" and "\<forall>m \<in> set msgs. msg_ok q m"
    and "msg_ok q m"
  shows "\<exists>h. qrun (shm_write q) (shm_take q)
      (map Offer msgs @ replicate (length msgs) Take) (init_segment cfg) = Some (msgs, msgs, h) \<and>
    shm_write q m h = None"
proof -
  from full_lap [OF assms(1,2,4,3,5)] obtain h where
    h: "qrun (shm_write q) (shm_take q)
      (map Offer msgs @ replicate (length msgs) Take) (init_segment cfg) = Some (msgs, msgs, h)"
      "lap_inv q (length msgs) msgs (length msgs) h" by blast
  have "0 < length msgs" using assms(1,4) by linarith
  from lap_livelock [OF h(2) _ this assms(6)] h(1) show ?thesis by auto
qed

lemma shm_write_spins_after_lap_witness:
  "\<exists>h. qrun (shm_write \<lparr>config = \<lparr>cfg_name = ''q'', cfg_slot_count = 2, cfg_max_msg_size = 16\<rparr>,
        owner = True, valid = True\<rparr>)
      (shm_take \<lparr>config = \<lparr>cfg_name = ''q'', cfg_slot_count = 2, cfg_max_msg_size = 16\<rparr>,
        owner = True, valid = True\<rparr>)
      (map Offer [[1], [2]] @ replicate (length [[1], [2 :: u8]]) Take)
      (init_segment \<lparr>cfg_name = ''q'', cfg_slot_count = 2, cfg_max_msg_size = 16\<rparr>)
      = Some ([[1], [2]], [[1], [2]], h) \<and>
    shm_write \<lparr>config = \<lparr>cfg_name = ''q'', cfg_slot_count = 2, cfg_max_msg_size = 16\<rparr>,
        owner = True, valid = True\<rparr> [3] h = None"
  by (rule shm_write_spins_after_lap) (simp_all add: msg_ok_def)

text \<open>The slots of the mapping are laid out without overlap and inside it: the data area of a
  slot ends before the header of the next one starts, and the last one ends within the
  mapped size, whenever that size fits the address range.\<close>

lemma shm_layout:
  assumes "64 + unat (cfg_slot_count cfg) * unat (slot_stride cfg) < 2 ^ 64"
    and "i < cfg_slot_count cfg"
  shows "\<exists>a d. slot_header cfg i = Some a \<and> slot_data cfg i = Some d \<and>
    unat d = unat a + 8 \<and> unat a = 64 + unat i * unat (slot_stride cfg) \<and>
    unat d + unat (cfg_max_msg_size cfg) \<le> 64 + (unat i + 1) * unat (slot_stride cfg) \<and>
    64 + (unat i + 1) * unat (slot_stride cfg) \<le> unat (total_size cfg)"
proof -
  let ?s = "unat (slot_stride cfg)" and ?n = "unat (cfg_slot_count cfg)"
  have i: "unat i + 1 \<le> ?n" using assms(2) by (simp add: word_less_nat_alt)
  then have le: "(unat i + 1) * ?s \<le> ?n * ?s" by (rule mult_le_mono1)
  have tot: "unat (total_size cfg) = 64 + ?n * ?s"
  proof -
    have "total_size cfg = word_of_nat (64 + ?n * ?s)" by (simp add: total_size_def)
    then show ?thesis using assms(1) by (simp only: unat_of_nat) simp
  qed
  have a: "unat (64 + ucast i * slot_stride cfg :: u64) = 64 + unat i * ?s"
  proof -
    have "64 + ucast i * slot_stride cfg = (word_of_nat (64 + unat i * ?s) :: u64)" by simp
    then show ?thesis using assms(1) le by (simp only: unat_of_nat) simp
  qed
  have d: "unat (64 + ucast i * slot_stride cfg + 8 :: u64) = 64 + unat i * ?s + 8"
  proof -
    have "64 + ucast i * slot_stride cfg + 8 = (word_of_nat (64 + unat i * ?s + 8) :: u64)" by simp
    then show ?thesis
      using assms(1) le slot_stride_bounds(1) [of cfg] by (simp only: unat_of_nat) simp
  qed
  have "slot_header cfg i = Some (64 + ucast i * slot_stride cfg)"
    and "slot_data cfg i = Some (64 + ucast i * slot_stride cfg + 8)"
    using assms(2) by (simp_all add: slot_header_def slot_data_def not_le)
  with a d tot le slot_stride_bounds(1) [of cfg] show ?thesis by simp
qed

lemma shm_layout_witness:
  "\<exists>a d. slot_header \<lparr>cfg_name = ''q'', cfg_slot_count = 1024, cfg_max_msg_size = 65536\<rparr> 3 = Some a \<and>
    slot_data \<lparr>cfg_name = ''q'', cfg_slot_count = 1024, cfg_max_msg_size = 65536\<rparr> 3 = Some d \<and>
    unat d = unat a + 8 \<and>
    unat a = 64 + unat (3::u32) *
      unat (slot_stride \<lparr>cfg_name = ''q'', cfg_slot_count = 1024, cfg_max_msg_size = 65536\<rparr>) \<and>
    unat d + unat (cfg_max_msg_size \<lparr>cfg_name = ''q'', cfg_slot_count = 1024, cfg_max_msg_size = 65536\<rparr>)
      \<le> 64 + (unat (3::u32) + 1) *
        unat (slot_stride \<lparr>cfg_name = ''q'', cfg_slot_count = 1024, cfg_max_msg_size = 65536\<rparr>) \<and>
    64 + (unat (3::u32) + 1) *
      unat (slot_stride \<lparr>cfg_name = ''q'', cfg_slot_count = 1024, cfg_max_msg_size = 65536\<rparr>)
      \<le> unat (total_size \<lparr>cfg_name = ''q'', cfg_slot_count = 1024, cfg_max_msg_size = 65536\<rparr>)"
  by (rule shm_layout) (simp_all add: slot_stride_def)

end
