(* ===== verification/Shm_Bridge.thy ===== *)
theory Shm_Bridge
  imports Shm_Queue Engine_Events
begin

text \<open>
  The bridge from shared-memory queues to the engine's event queues,
  \<^verbatim>\<open>src/tyche/cpp/engine/shared_memory_bridge.{h,cpp}\<close>.  Every queue the bridge creates is
  modelled with the memory it maps.  What a dynamic library exports and what the platform maps for
  a queue name are the arguments \<open>libs\<close> and \<open>mappings\<close>; module threads run outside the model.  A
  result \<open>None\<close> is a program that does not go on: \<^verbatim>\<open>std::terminate\<close> or a call that never returns.
  The worker's pass polls the queues while no other process writes to them.
\<close>

section \<open>State\<close>

record shm_module_config =
  mc_library_path :: string
  mc_queue_name :: string
  mc_topics :: "string list"

record shm_bridge_config =
  bc_queue_name :: string
  bc_topic :: string

record module_lib =
  ml_init :: "(string \<Rightarrow> i32) option"
  ml_run :: bool
  ml_stop :: bool

record loaded_module =
  lm_queue :: shm_queue
  lm_segment :: shm_segment
  lm_id :: string
  lm_topics :: "string list"
  lm_stop :: bool

record bridge_entry =
  be_queue :: shm_queue
  be_segment :: shm_segment
  be_topic :: string

record bridge =
  br_running :: bool
  br_modules :: "(string \<times> loaded_module) list"
  br_bridges :: "bridge_entry list"
  br_engine :: bool

definition bridge_new :: bridge where
  "bridge_new = \<lparr>br_running = False, br_modules = [], br_bridges = [], br_engine = False\<rparr>"

section \<open>Topic parsing\<close>

definition read_u16_le :: "bytes \<Rightarrow> 16 word" where
  "read_u16_le p = ucast (p ! 0) OR push_bit 8 (ucast (p ! 1))"

definition write_u16_le :: "16 word \<Rightarrow> bytes" where
  "write_u16_le v = [ucast v, ucast (drop_bit 8 v)]"

definition parse_topic :: "bytes \<Rightarrow> string \<times> bytes" where
  "parse_topic bs =
     (if length bs < 2 then ([], bs)
      else
        let topic_len = unat (read_u16_le bs); header_size = 2 + topic_len
        in if length bs < header_size then ([], bs)
           else (bytes_str (take topic_len (drop 2 bs)), drop header_size bs))"

section \<open>Configuration and modules\<close>

definition bridge_queue_config :: "string \<Rightarrow> shm_config" where
  "bridge_queue_config nm = \<lparr>cfg_name = nm, cfg_slot_count = 1024, cfg_max_msg_size = 65536\<rparr>"

definition create_bridge :: "(string \<Rightarrow> shm_segment option) \<Rightarrow> shm_bridge_config \<Rightarrow> bridge \<Rightarrow> bridge" where
  "create_bridge mappings bc b =
     (case shm_open (bridge_queue_config (bc_queue_name bc)) True (mappings (bc_queue_name bc)) of
        (q, Some h) \<Rightarrow> if valid q
           then b\<lparr>br_bridges := br_bridges b @ [\<lparr>be_queue = q, be_segment = h, be_topic = bc_topic bc\<rparr>]\<rparr> else b
      | (q, None) \<Rightarrow> b)"

text \<open>The identifier it returns, empty on failure.  Assigning over an entry destroys a running
  thread that was not joined, which terminates the program.\<close>

definition load_module :: "(string \<Rightarrow> module_lib option) \<Rightarrow> (string \<Rightarrow> shm_segment option) \<Rightarrow>
    shm_module_config \<Rightarrow> bridge \<Rightarrow> (string \<times> bridge) option" where
  "load_module libs mappings mc b =
     (case libs (mc_library_path mc) of
        None \<Rightarrow> Some ([], b)
      | Some lib \<Rightarrow>
          (case ml_init lib of
             None \<Rightarrow> Some ([], b)
           | Some init_fn \<Rightarrow>
               if \<not> ml_run lib then Some ([], b)
               else
                 (case shm_open (bridge_queue_config (mc_queue_name mc)) True (mappings (mc_queue_name mc)) of
                    (q, None) \<Rightarrow> Some ([], b)
                  | (q, Some h) \<Rightarrow>
                      if \<not> valid q then Some ([], b)
                      else if init_fn (mc_queue_name mc) \<noteq> 0 then Some ([], b)
                      else
                        let mid = ''shm_'' @ mc_queue_name mc;
                            md = \<lparr>lm_queue = q, lm_segment = h, lm_id = mid, lm_topics = mc_topics mc, lm_stop = ml_stop lib\<rparr>
                        in if map_of (br_modules b) (mc_queue_name mc) \<noteq> None then None
                           else Some (mid, b\<lparr>br_modules := assoc_put (mc_queue_name mc) md (br_modules b)\<rparr>))))"

fun load_modules :: "(string \<Rightarrow> module_lib option) \<Rightarrow> (string \<Rightarrow> shm_segment option) \<Rightarrow>
    shm_module_config list \<Rightarrow> bridge \<Rightarrow> bridge option" where
  "load_modules libs mappings [] b = Some b"
| "load_modules libs mappings (mc # mcs) b =
     do { (mid, b1) \<leftarrow> load_module libs mappings mc b; load_modules libs mappings mcs b1 }"

definition configure :: "(string \<Rightarrow> module_lib option) \<Rightarrow> (string \<Rightarrow> shm_segment option) \<Rightarrow>
    shm_module_config list \<Rightarrow> shm_bridge_config list \<Rightarrow> bridge \<Rightarrow> bridge option" where
  "configure libs mappings mcs bcs b = load_modules libs mappings mcs (fold (create_bridge mappings) bcs b)"

text \<open>Stopping and unloading call the stop functions of the modules named in the first component.\<close>

definition unload_module :: "string \<Rightarrow> bridge \<Rightarrow> string list \<times> bridge" where
  "unload_module nm b =
     (case map_of (br_modules b) nm of
        None \<Rightarrow> ([], b)
      | Some md \<Rightarrow> (if lm_stop md then [nm] else [], b\<lparr>br_modules := assoc_del nm (br_modules b)\<rparr>))"

definition bridge_start :: "bridge \<Rightarrow> bridge" where
  "bridge_start b = (if br_running b then b else b\<lparr>br_engine := True, br_running := True\<rparr>)"

definition bridge_stop :: "bridge \<Rightarrow> string list \<times> bridge" where
  "bridge_stop b =
     (if \<not> br_running b then ([], b)
      else (map fst (filter (\<lambda>(nm, md). lm_stop md) (br_modules b)),
            b\<lparr>br_running := False, br_modules := [], br_engine := False\<rparr>))"

definition module_count :: "bridge \<Rightarrow> nat" where
  "module_count b = length (br_modules b)"

definition bridge_count :: "bridge \<Rightarrow> nat" where
  "bridge_count b = length (br_bridges b)"

section \<open>Forwarding\<close>

text \<open>\<open>n\<close> counts the clock readings taken; \<open>clk\<close> gives them.\<close>

definition forward_to_zmq :: "bool \<Rightarrow> (nat \<Rightarrow> time) \<Rightarrow> string \<Rightarrow> bytes \<Rightarrow> nat \<times> engine \<Rightarrow> (nat \<times> engine) option" where
  "forward_to_zmq has_engine clk topic pay s =
     (if \<not> has_engine \<or> topic = [] then Some s
      else do { e \<leftarrow> inject_event_raw (clk (fst s)) (clk (fst s + 1)) topic pay (length pay) (snd s);
                Some (fst s + 2, e) })"

fun forward_all :: "bool \<Rightarrow> (nat \<Rightarrow> time) \<Rightarrow> (string \<times> bytes) list \<Rightarrow> nat \<times> engine \<Rightarrow> (nat \<times> engine) option" where
  "forward_all has_engine clk [] s = Some s"
| "forward_all has_engine clk ((topic, pay) # evs) s =
     do { s1 \<leftarrow> forward_to_zmq has_engine clk topic pay s; forward_all has_engine clk evs s1 }"

text \<open>What a module's message is forwarded as: to its configured topics, else to the topic it
  names, else not at all.\<close>

definition module_events :: "string list \<Rightarrow> bytes \<Rightarrow> (string \<times> bytes) list" where
  "module_events topics msg =
     (if topics \<noteq> [] then map (\<lambda>t. (t, msg)) topics
      else let (topic, pay) = parse_topic msg in if topic \<noteq> [] then [(topic, pay)] else [])"

definition bridge_events :: "string \<Rightarrow> bytes \<Rightarrow> (string \<times> bytes) list" where
  "bridge_events zmq_topic msg =
     (let (topic, pay) = parse_topic msg in if topic \<noteq> [] then [(topic, pay)] else [(zmq_topic, msg)])"

text \<open>The loop over one queue: \<open>run i\<close> is the value of \<^verbatim>\<open>_running\<close> at its \<open>i\<close>-th load, \<open>act\<close> is
  \<^verbatim>\<open>any_activity\<close>, \<open>s\<close> the clock readings taken and the engine.\<close>

partial_function (option) poll_queue :: "(nat \<Rightarrow> bool) \<Rightarrow> bool \<Rightarrow> (nat \<Rightarrow> time) \<Rightarrow> (bytes \<Rightarrow> (string \<times> bytes) list) \<Rightarrow>
    shm_queue \<Rightarrow> nat \<Rightarrow> bool \<Rightarrow> shm_segment \<Rightarrow> nat \<times> engine \<Rightarrow> (nat \<times> bool \<times> shm_segment \<times> nat \<times> engine) option" where
  "poll_queue run has_engine clk events q i act h s =
     (if \<not> run i then Some (i + 1, act, h, s)
      else shm_read q h \<bind> (\<lambda>(r, h1). case r of
             None \<Rightarrow> Some (i + 1, act, h1, s)
           | Some msg \<Rightarrow> forward_all has_engine clk (events msg) s \<bind>
               poll_queue run has_engine clk events q (i + 1) True h1))"

fun poll_modules :: "(nat \<Rightarrow> bool) \<Rightarrow> bool \<Rightarrow> (nat \<Rightarrow> time) \<Rightarrow> (string \<times> loaded_module) list \<Rightarrow>
    nat \<Rightarrow> bool \<Rightarrow> nat \<times> engine \<Rightarrow> ((string \<times> loaded_module) list \<times> nat \<times> bool \<times> nat \<times> engine) option" where
  "poll_modules run he clk [] i act s = Some ([], i, act, s)"
| "poll_modules run he clk ((nm, md) # mds) i act s =
     do { (i1, act1, h, s1) \<leftarrow> poll_queue run he clk (module_events (lm_topics md)) (lm_queue md) i act (lm_segment md) s;
          (mds', i2, act2, s2) \<leftarrow> poll_modules run he clk mds i1 act1 s1;
          Some ((nm, md\<lparr>lm_segment := h\<rparr>) # mds', i2, act2, s2) }"

fun poll_bridges :: "(nat \<Rightarrow> bool) \<Rightarrow> bool \<Rightarrow> (nat \<Rightarrow> time) \<Rightarrow> bridge_entry list \<Rightarrow>
    nat \<Rightarrow> bool \<Rightarrow> nat \<times> engine \<Rightarrow> (bridge_entry list \<times> nat \<times> bool \<times> nat \<times> engine) option" where
  "poll_bridges run he clk [] i act s = Some ([], i, act, s)"
| "poll_bridges run he clk (be # bes) i act s =
     do { (i1, act1, h, s1) \<leftarrow> poll_queue run he clk (bridge_events (be_topic be)) (be_queue be) i act (be_segment be) s;
          (bes', i2, act2, s2) \<leftarrow> poll_bridges run he clk bes i1 act1 s1;
          Some (be\<lparr>be_segment := h\<rparr> # bes', i2, act2, s2) }"

text \<open>One pass of the worker's loop; the flag is \<^verbatim>\<open>any_activity\<close>, after which it does not sleep.\<close>

definition worker_pass :: "(nat \<Rightarrow> bool) \<Rightarrow> (nat \<Rightarrow> time) \<Rightarrow> bridge \<Rightarrow> engine \<Rightarrow> (bool \<times> bridge \<times> engine) option" where
  "worker_pass run clk b e =
     do { (mds, i, act, s) \<leftarrow> poll_modules run (br_engine b) clk (br_modules b) 0 False (0, e);
          (bes, i', act', s') \<leftarrow> poll_bridges run (br_engine b) clk (br_bridges b) i act s;
          Some (act', b\<lparr>br_modules := mds, br_bridges := bes\<rparr>, snd s') }"

section \<open>Framing\<close>

lemma read_write_u16 [simp]: "read_u16_le (write_u16_le v @ rest) = v"
proof (rule bit_word_eqI)
  fix n assume n: "n < LENGTH(16)"
  show "bit (read_u16_le (write_u16_le v @ rest)) n = bit v n"
    using n by (cases "n < 8") (auto simp: read_u16_le_def write_u16_le_def bit_simps)
qed

lemma length_write_u16 [simp]: "length (write_u16_le v) = 2"
  by (simp add: write_u16_le_def)

definition framed :: "string \<Rightarrow> bytes \<Rightarrow> bytes" where
  "framed topic pay = write_u16_le (word_of_nat (length topic)) @ str_bytes topic @ pay"

lemma parse_framed:
  assumes "length topic < 65536"
  shows "parse_topic (framed topic pay) = (topic, pay)"
proof -
  have "unat (word_of_nat (length topic) :: 16 word) = length topic" using assms by (simp add: unat_of_nat)
  then show ?thesis
    by (simp add: parse_topic_def framed_def Let_def)
qed

section \<open>Forwarding events\<close>

lemma forward_to_zmq_total:
  assumes "wf_queues e"
  obtains n' e' where "forward_to_zmq he clk topic pay (n, e) = Some (n', e')" "wf_queues e'"
proof (cases "\<not> he \<or> topic = []")
  case True
  with assms that show thesis by (simp add: forward_to_zmq_def)
next
  case False
  obtain q e1 where en: "ensure_queue topic e = (q, e1)" by force
  from ensure_deliver [OF assms en, of "\<lparr>enqueue_time = clk n, frames = [frame_new (str_bytes topic), frame_new pay]\<rparr>"
      "clk (n + 1)"] obtain e' where
    "inject_event_raw (clk n) (clk (n + 1)) topic pay (length pay) e = Some e'" "wf_queues e'"
    by (auto simp: inject_event_raw_def en delivered_def)
  with False that show thesis by (simp add: forward_to_zmq_def)
qed

lemma forward_all_total:
  assumes "wf_queues e"
  obtains n' e' where "forward_all he clk evs (n, e) = Some (n', e')" "wf_queues e'"
  using assms
proof (induction evs arbitrary: n e thesis)
  case (Cons ev evs)
  obtain topic pay where ev: "ev = (topic, pay)" by force
  obtain n1 e1 where "forward_to_zmq he clk topic pay (n, e) = Some (n1, e1)" "wf_queues e1"
    by (rule forward_to_zmq_total [OF Cons.prems(2)])
  with Cons.IH [of n1 e1] Cons.prems(1) show thesis by (auto simp: ev)
qed simp

lemma forward_all_append:
  "forward_all he clk (xs @ ys) s = forward_all he clk xs s \<bind> forward_all he clk ys"
proof (induction xs arbitrary: s)
  case (Cons x xs)
  obtain topic pay where x: "x = (topic, pay)" by force
  show ?case by (cases "forward_to_zmq he clk topic pay s") (simp_all add: x Cons.IH)
qed simp

section \<open>Polling one queue\<close>

definition queue_holds :: "shm_queue \<Rightarrow> shm_segment \<Rightarrow> bytes list \<Rightarrow> bool" where
  "queue_holds q h ms \<longleftrightarrow> (\<exists>N msgs r. lap_inv q N msgs r h \<and> length msgs < N \<and> ms = drop r msgs)"

lemma queue_holds_read:
  assumes "queue_holds q h (m # ms)"
  obtains h1 where "shm_read q h = Some (Some m, h1)" "queue_holds q h1 ms"
proof -
  obtain N msgs r where q: "lap_inv q N msgs r h" "length msgs < N" "m # ms = drop r msgs"
    using assms unfolding queue_holds_def by blast
  from q(3) have r: "r < length msgs" by (metis drop_eq_Nil leI list.distinct(1))
  with q(3) have "m = msgs ! r" "ms = drop (Suc r) msgs" by (simp_all add: Cons_nth_drop_Suc [symmetric])
  with lap_read [OF q(1) r] q(2) that show thesis unfolding queue_holds_def by blast
qed

lemma queue_holds_empty:
  assumes "queue_holds q h []"
  shows "shm_read q h = Some (None, h)"
proof -
  obtain N msgs r where q: "lap_inv q N msgs r h" "length msgs < N" "drop r msgs = []"
    using assms unfolding queue_holds_def by auto
  with lap_invD(5) [OF q(1)] show ?thesis by (intro lap_read_none [OF q(1)]) auto
qed

lemma poll_queue_drains:
  assumes "queue_holds q h ms" and "wf_queues (snd s)" and "\<forall>j. run j"
  obtains h' s' where "poll_queue run he clk evs q i act h s = Some (i + length ms + 1, act \<or> ms \<noteq> [], h', s')"
    "forward_all he clk (concat (map evs ms)) s = Some s'" "queue_holds q h' []" "wf_queues (snd s')"
  using assms(1,2)
proof (induction ms arbitrary: h s i act thesis)
  case Nil
  have "poll_queue run he clk evs q i act h s = Some (i + 1, act, h, s)"
    using queue_holds_empty [OF Nil.prems(2)] assms(3) by (subst poll_queue.simps) simp
  with Nil show thesis by simp
next
  case (Cons m ms)
  obtain h1 where h1: "shm_read q h = Some (Some m, h1)" "queue_holds q h1 ms"
    by (rule queue_holds_read [OF Cons.prems(2)])
  obtain s1 where s1: "forward_all he clk (evs m) s = Some s1" "wf_queues (snd s1)"
    using forward_all_total [OF Cons.prems(3), of he clk "evs m" "fst s"] by (metis prod.collapse snd_conv)
  obtain h' s' where ih: "poll_queue run he clk evs q (i + 1) True h1 s1 = Some (i + 1 + length ms + 1, True \<or> ms \<noteq> [], h', s')"
    "forward_all he clk (concat (map evs ms)) s1 = Some s'" "queue_holds q h' []" "wf_queues (snd s')"
    by (rule Cons.IH [OF _ h1(2) s1(2)])
  have "poll_queue run he clk evs q i act h s = Some (i + length (m # ms) + 1, act \<or> m # ms \<noteq> [], h', s')"
    using h1(1) s1(1) ih(1) assms(3) by (subst poll_queue.simps) simp
  with ih s1(1) show thesis by (intro Cons.prems(1)) (simp_all add: forward_all_append)
qed


section \<open>A pass\<close>

text \<open>What a pass forwards, given the unread messages of the queues.\<close>

definition module_forwards :: "(string \<times> loaded_module) list \<Rightarrow> bytes list list \<Rightarrow> (string \<times> bytes) list" where
  "module_forwards mds mss = concat (map2 (\<lambda>md ms. concat (map (module_events (lm_topics (snd md))) ms)) mds mss)"

definition bridge_forwards :: "bridge_entry list \<Rightarrow> bytes list list \<Rightarrow> (string \<times> bytes) list" where
  "bridge_forwards bes mss = concat (map2 (\<lambda>be ms. concat (map (bridge_events (be_topic be)) ms)) bes mss)"

definition module_holds :: "string \<times> loaded_module \<Rightarrow> bytes list \<Rightarrow> bool" where
  "module_holds md ms \<longleftrightarrow> queue_holds (lm_queue (snd md)) (lm_segment (snd md)) ms"

definition entry_holds :: "bridge_entry \<Rightarrow> bytes list \<Rightarrow> bool" where
  "entry_holds be ms \<longleftrightarrow> queue_holds (be_queue be) (be_segment be) ms"

lemma poll_modules_drain:
  assumes "list_all2 module_holds mds mss" and "wf_queues (snd s)" and "\<forall>j. run j"
  obtains mds' i' s' where
    "poll_modules run he clk mds i act s = Some (mds', i', act \<or> (\<exists>ms \<in> set mss. ms \<noteq> []), s')"
    "forward_all he clk (module_forwards mds mss) s = Some s'" "wf_queues (snd s')"
    "\<forall>md \<in> set mds'. module_holds md []" "map fst mds' = map fst mds"
  using assms(1,2)
proof (induction mds mss arbitrary: s i act thesis rule: list_all2_induct)
  case (Cons md mds ms mss)
  obtain nm m where md: "md = (nm, m)" by force
  have holds: "queue_holds (lm_queue m) (lm_segment m) ms" using Cons.hyps(1) by (simp add: md module_holds_def)
  obtain h s1 where p1: "poll_queue run he clk (module_events (lm_topics m)) (lm_queue m) i act (lm_segment m) s =
      Some (i + length ms + 1, act \<or> ms \<noteq> [], h, s1)"
    "forward_all he clk (concat (map (module_events (lm_topics m)) ms)) s = Some s1"
    "queue_holds (lm_queue m) h []" "wf_queues (snd s1)"
    by (rule poll_queue_drains [OF holds Cons.prems(2) assms(3)])
  obtain mds' i' s' where p2: "poll_modules run he clk mds (i + length ms + 1) (act \<or> ms \<noteq> []) s1 =
      Some (mds', i', (act \<or> ms \<noteq> []) \<or> (\<exists>ms \<in> set mss. ms \<noteq> []), s')"
    "forward_all he clk (module_forwards mds mss) s1 = Some s'" "wf_queues (snd s')"
    "\<forall>md \<in> set mds'. module_holds md []" "map fst mds' = map fst mds"
    by (rule Cons.IH [OF _ p1(4)])
  show thesis
    using p1 p2 by (intro Cons.prems(1) [of "(nm, m\<lparr>lm_segment := h\<rparr>) # mds'" i' s'])
      (auto simp: md module_forwards_def forward_all_append module_holds_def)
qed (simp add: module_forwards_def)

lemma poll_bridges_drain:
  assumes "list_all2 entry_holds bes mss" and "wf_queues (snd s)" and "\<forall>j. run j"
  obtains bes' i' s' where
    "poll_bridges run he clk bes i act s = Some (bes', i', act \<or> (\<exists>ms \<in> set mss. ms \<noteq> []), s')"
    "forward_all he clk (bridge_forwards bes mss) s = Some s'" "wf_queues (snd s')"
    "\<forall>be \<in> set bes'. entry_holds be []" "map be_topic bes' = map be_topic bes"
  using assms(1,2)
proof (induction bes mss arbitrary: s i act thesis rule: list_all2_induct)
  case (Cons be bes ms mss)
  have holds: "queue_holds (be_queue be) (be_segment be) ms" using Cons.hyps(1) by (simp add: entry_holds_def)
  obtain h s1 where p1: "poll_queue run he clk (bridge_events (be_topic be)) (be_queue be) i act (be_segment be) s =
      Some (i + length ms + 1, act \<or> ms \<noteq> [], h, s1)"
    "forward_all he clk (concat (map (bridge_events (be_topic be)) ms)) s = Some s1"
    "queue_holds (be_queue be) h []" "wf_queues (snd s1)"
    by (rule poll_queue_drains [OF holds Cons.prems(2) assms(3)])
  obtain bes' i' s' where p2: "poll_bridges run he clk bes (i + length ms + 1) (act \<or> ms \<noteq> []) s1 =
      Some (bes', i', (act \<or> ms \<noteq> []) \<or> (\<exists>ms \<in> set mss. ms \<noteq> []), s')"
    "forward_all he clk (bridge_forwards bes mss) s1 = Some s'" "wf_queues (snd s')"
    "\<forall>be \<in> set bes'. entry_holds be []" "map be_topic bes' = map be_topic bes"
    by (rule Cons.IH [OF _ p1(4)])
  show thesis
    using p1 p2 by (intro Cons.prems(1) [of "be\<lparr>be_segment := h\<rparr> # bes'" i' s'])
      (auto simp: bridge_forwards_def forward_all_append entry_holds_def)
qed (simp add: bridge_forwards_def)

section \<open>After a full lap\<close>

text \<open>Every slot carries the sequence number that announces a message at the position the reader
  will have when it gets there.\<close>

definition replaying :: "shm_queue \<Rightarrow> nat \<Rightarrow> bytes list \<Rightarrow> nat \<Rightarrow> shm_segment \<Rightarrow> bool" where
  "replaying q k msgs p h \<longleftrightarrow> valid q \<and> k < 32 \<and> cfg_slot_count (config q) = 2 ^ k \<and> h_slot_count h = 2 ^ k \<and>
     length (seg_slots h) = 2 ^ k \<and> length msgs = 2 ^ k \<and> read_seq h = word_of_nat p \<and>
     (\<forall>d < 2 ^ k. let s = seg_slots h ! ((p + d) mod 2 ^ k) in sl_sequence s = word_of_nat (p + d + 1) \<and>
        unat (sl_size s) = length (msgs ! ((p + d) mod 2 ^ k)) \<and>
        take (length (msgs ! ((p + d) mod 2 ^ k))) (sl_data s) = msgs ! ((p + d) mod 2 ^ k)) \<and>
     (\<forall>m \<in> set msgs. msg_ok q m)"

lemma replaying_slot:
  assumes "replaying q k msgs p h" "d < 2 ^ k"
  shows "sl_sequence (seg_slots h ! ((p + d) mod 2 ^ k)) = word_of_nat (p + d + 1)"
    "unat (sl_size (seg_slots h ! ((p + d) mod 2 ^ k))) = length (msgs ! ((p + d) mod 2 ^ k))"
    "take (length (msgs ! ((p + d) mod 2 ^ k))) (sl_data (seg_slots h ! ((p + d) mod 2 ^ k))) = msgs ! ((p + d) mod 2 ^ k)"
  using assms unfolding replaying_def by (force simp: Let_def)+

text \<open>Reading gives the slot back with the sequence it will have a lap later, which is the one that the reader expects then.\<close>

definition replayed :: "nat \<Rightarrow> nat \<Rightarrow> shm_segment \<Rightarrow> shm_segment" where
  "replayed k p h = h\<lparr>read_seq := word_of_nat p + 1,
     seg_slots := (seg_slots h)[p mod 2 ^ k := (seg_slots h ! (p mod 2 ^ k))\<lparr>sl_sequence := word_of_nat p + h_slot_count h + 1\<rparr>]\<rparr>"

lemma replaying_advance:
  assumes inv: "replaying q k msgs p h"
  shows "replaying q k msgs (Suc p) (replayed k p h)"
proof -
  let ?h = "replayed k p h" and ?n = "2 ^ k :: nat"
  have "let s = seg_slots ?h ! ((Suc p + d) mod ?n) in sl_sequence s = word_of_nat (Suc p + d + 1) \<and>
      unat (sl_size s) = length (msgs ! ((Suc p + d) mod ?n)) \<and>
      take (length (msgs ! ((Suc p + d) mod ?n))) (sl_data s) = msgs ! ((Suc p + d) mod ?n)" if d: "d < ?n" for d
  proof (cases "Suc d = ?n")
    case True
    then have e: "Suc p + d = p + ?n" by simp
    have "h_slot_count h = 2 ^ k" "length (seg_slots h) = ?n" using inv by (simp_all add: replaying_def)
    then show ?thesis unfolding e using replaying_slot [OF inv, of 0] by (simp add: replayed_def ac_simps)
  next
    case False
    with d have d': "Suc d < ?n" by simp
    then have "(p + Suc d) mod ?n \<noteq> p mod ?n"
      using mod_eq_dvd_iff_nat [of p "p + Suc d" ?n] nat_dvd_not_less [of "Suc d" ?n] by auto
    then have "seg_slots ?h ! ((Suc p + d) mod ?n) = seg_slots h ! ((p + Suc d) mod ?n)" by (simp add: replayed_def)
    with replaying_slot [OF inv d'] show ?thesis by (simp add: Let_def)
  qed
  with inv show ?thesis unfolding replaying_def by (simp add: replayed_def)
qed

lemma replaying_read:
  assumes inv: "replaying q k msgs p h"
  obtains h1 where "shm_read q h = Some (Some (msgs ! (p mod 2 ^ k)), h1)" "replaying q k msgs (Suc p) h1"
proof -
  let ?i = "p mod 2 ^ k" and ?n = "2 ^ k :: nat" and ?s = "seg_slots h ! (p mod 2 ^ k)"
  have r: "valid q" "k < 32" "cfg_slot_count (config q) = 2 ^ k" "h_slot_count h = 2 ^ k"
    "length msgs = ?n" "read_seq h = word_of_nat p"
    using inv by (simp_all add: replaying_def)
  have w: "(2 ^ k :: u32) = word_of_nat ?n" by simp
  have lt: "?n < 2 ^ 32" using r(2) by (intro power_strict_increasing) simp_all
  have two: "unat (2 ^ k :: u32) = ?n" unfolding w by (rule small_u32 [OF lt])
  have "?n dvd 2 ^ 32" using r(2) by (simp add: le_imp_power_dvd del: power_numeral)
  then have "p mod 2 ^ 32 mod ?n = ?i" by (rule mod_mod_cancel)
  then have idx: "unat (word_of_nat p mod h_slot_count h :: u32) = ?i" by (simp add: r(4) unat_mod two unat_of_nat)
  have iN: "?i < ?n" by simp
  obtain a where a: "slot_header (config q) (word_of_nat p mod h_slot_count h) = Some a"
    using idx iN two by (auto simp: slot_header_def r(3) word_le_nat_alt)
  have s: "sl_sequence ?s = word_of_nat (p + 1)" "unat (sl_size ?s) = length (msgs ! ?i)"
    "take (length (msgs ! ?i)) (sl_data ?s) = msgs ! ?i"
    using replaying_slot [OF inv, of 0] by simp_all
  have "msg_ok q (msgs ! ?i)" using inv r(5) iN by (simp add: replaying_def)
  then have "min (sl_size ?s) (cfg_max_msg_size (config q)) = sl_size ?s"
    using s(2) by (simp add: msg_ok_def min_def word_le_nat_alt)
  moreover have "h_slot_count h \<noteq> 0" using r(2,4) two iN by (metis less_nat_zero_code unat_0)
  ultimately have "shm_read q h = Some (Some (msgs ! ?i), replayed k p h)"
    using r(1,6) a idx s by (simp add: shm_read_def replayed_def Let_def)
  with replaying_advance [OF inv] that show thesis by blast
qed

lemma lap_replaying:
  assumes inv: "lap_inv q N msgs N h" and N: "N = 2 ^ k" and "k < 31"
  shows "replaying q k msgs N h"
proof -
  note d = lap_invD [OF inv]
  have len: "length msgs = N" using d(5,6) by simp
  have "let s = seg_slots h ! ((N + j) mod N) in sl_sequence s = word_of_nat (N + j + 1) \<and>
      unat (sl_size s) = length (msgs ! ((N + j) mod N)) \<and>
      take (length (msgs ! ((N + j) mod N))) (sl_data s) = msgs ! ((N + j) mod N)" if "j < N" for j
    using d(11) [OF that] that len by (simp add: lap_slot_def ac_simps)
  moreover have "(2 ^ k :: u32) = word_of_nat N" using N by simp
  moreover have "cfg_slot_count (config q) = word_of_nat N" using inv unfolding lap_inv_def by blast
  ultimately show ?thesis
    unfolding replaying_def N [symmetric] using d(1,4,8,9,12) len assms(3) by (intro conjI) (simp_all only: | simp)+
qed

lemma poll_queue_replays:
  assumes "replaying q k msgs p h" and "wf_queues (snd s)"
  shows "\<exists>h' s'. poll_queue (\<lambda>j. j < i + c) he clk evs q i act h s = Some (i + c + 1, act \<or> 0 < c, h', s') \<and>
    forward_all he clk (concat (map (\<lambda>j. evs (msgs ! (j mod 2 ^ k))) [p..<p + c])) s = Some s' \<and> wf_queues (snd s')"
  using assms
proof (induction c arbitrary: p h s i act)
  case 0
  then show ?case by (subst poll_queue.simps) simp
next
  case (Suc c)
  obtain h1 where h1: "shm_read q h = Some (Some (msgs ! (p mod 2 ^ k)), h1)" "replaying q k msgs (Suc p) h1"
    by (rule replaying_read [OF Suc.prems(1)])
  obtain s1 where s1: "forward_all he clk (evs (msgs ! (p mod 2 ^ k))) s = Some s1" "wf_queues (snd s1)"
    using forward_all_total [OF Suc.prems(2), of he clk _ "fst s"] by (metis prod.collapse snd_conv)
  from Suc.IH [OF h1(2) s1(2), of "Suc i" True] obtain h' s' where
    ih: "poll_queue (\<lambda>j. j < i + Suc c) he clk evs q (Suc i) True h1 s1 = Some (i + Suc c + 1, True, h', s')"
      "forward_all he clk (concat (map (\<lambda>j. evs (msgs ! (j mod 2 ^ k))) [Suc p..<p + Suc c])) s1 = Some s'"
      "wf_queues (snd s')" by auto
  have "poll_queue (\<lambda>j. j < i + Suc c) he clk evs q i act h s = Some (i + Suc c + 1, True, h', s')"
    using h1(1) s1(1) ih(1) by (subst poll_queue.simps) simp
  moreover have "[p..<p + Suc c] = p # [Suc p..<p + Suc c]" by (simp add: upt_conv_Cons)
  ultimately show ?case using ih(2,3) s1(1) by (auto simp: forward_all_append simp del: upt_Suc)
qed


section \<open>Loading modules\<close>

text \<open>Loading a module either leaves the bridge as it is and returns no identifier, adds one entry
  under a new queue name, or, when the queue name is taken, terminates the program.\<close>

lemma load_module_result:
  "load_module libs mappings mc b = None \<Longrightarrow> mc_queue_name mc \<in> keys (br_modules b)"
  "load_module libs mappings mc b = Some ([], b') \<Longrightarrow> b' = b"
  "load_module libs mappings mc b = Some (c # mid, b') \<Longrightarrow> mc_queue_name mc \<notin> keys (br_modules b) \<and>
     c # mid = ''shm_'' @ mc_queue_name mc \<and>
     (\<exists>md. b' = b\<lparr>br_modules := br_modules b @ [(mc_queue_name mc, md)]\<rparr> \<and> lm_topics md = mc_topics mc \<and>
        queue_holds (lm_queue md) (lm_segment md) [])"
proof -
  let ?cfg = "bridge_queue_config (mc_queue_name mc)"
  have new: "queue_holds \<lparr>config = ?cfg, owner = True, valid = True\<rparr> (init_segment ?cfg) []"
    using lap_inv_init [of ?cfg] unfolding queue_holds_def
    by (intro exI [of _ 1024] exI [of _ "[]"] exI [of _ 0]) (simp add: bridge_queue_config_def)
  note sp = option.splits if_splits prod.splits
  show "load_module libs mappings mc b = None \<Longrightarrow> mc_queue_name mc \<in> keys (br_modules b)"
    by (auto simp: load_module_def Let_def dest!: map_of_SomeD split: sp) force
  show "load_module libs mappings mc b = Some ([], b') \<Longrightarrow> b' = b"
    by (auto simp: load_module_def Let_def split: sp)
  show "load_module libs mappings mc b = Some (c # mid, b') \<Longrightarrow> mc_queue_name mc \<notin> keys (br_modules b) \<and>
     c # mid = ''shm_'' @ mc_queue_name mc \<and>
     (\<exists>md. b' = b\<lparr>br_modules := br_modules b @ [(mc_queue_name mc, md)]\<rparr> \<and> lm_topics md = mc_topics mc \<and>
        queue_holds (lm_queue md) (lm_segment md) [])"
    using new by (auto simp: load_module_def shm_open_def Let_def map_of_eq_None_iff assoc_put_fresh split: sp)
qed

section \<open>Properties\<close>


definition sample_queue :: shm_queue where
  "sample_queue = \<lparr>config = bridge_queue_config ''q'', owner = True, valid = True\<rparr>"

lemma sample_queue_new: "lap_inv sample_queue 1024 [] 0 (init_segment (bridge_queue_config ''q''))"
  using lap_inv_init [of "bridge_queue_config ''q''"] by (simp add: sample_queue_def bridge_queue_config_def)


text \<open>Once one of the bridge's queues has been filled and read once, it reports itself empty and
  yet the worker never leaves its loop over it while the bridge runs: as many times as the running
  flag is found set, one of the 1024 old messages is forwarded again, in turn.\<close>

lemma bridge_replays_forever:
  assumes "length msgs = 1024" and "q = \<lparr>config = bridge_queue_config nm, owner = True, valid = True\<rparr>"
    and "\<forall>m \<in> set msgs. msg_ok q m" and "wf_queues e"
  shows "\<exists>h. qrun (shm_write q) (shm_take q) (map Offer msgs @ replicate 1024 Take)
      (init_segment (bridge_queue_config nm)) = Some (msgs, msgs, h) \<and> shm_empty q h \<and>
    (\<forall>c. \<exists>h' n e'. poll_queue (\<lambda>j. j < c) True clk (bridge_events t) q 0 False h (0, e) = Some (c + 1, 0 < c, h', n, e') \<and>
       forward_all True clk (concat (map (\<lambda>j. bridge_events t (msgs ! (j mod 1024))) [0..<c])) (0, e) = Some (n, e'))"
proof -
  let ?cfg = "bridge_queue_config nm"
  have n: "unat (cfg_slot_count ?cfg) = 1024" by (simp add: bridge_queue_config_def)
  from full_lap [of ?cfg msgs q] assms n obtain h where
    h: "qrun (shm_write q) (shm_take q) (map Offer msgs @ replicate 1024 Take) (init_segment ?cfg) = Some (msgs, msgs, h)"
      "lap_inv q 1024 msgs 1024 h" by auto
  have rep: "replaying q 10 msgs 1024 h" by (rule lap_replaying [OF h(2)]) simp_all
  have wf: "wf_queues (snd (0 :: nat, e))" using assms(4) by simp
  have "concat (map (\<lambda>j. bridge_events t (msgs ! (j mod 1024))) [1024..<1024 + c]) =
      concat (map (\<lambda>j. bridge_events t (msgs ! (j mod 1024))) [0..<c])" for c
    using map_add_upt [of 1024 c] by (simp add: map_add_upt [of 1024 c, symmetric] comp_def add.commute)
  with poll_queue_replays [OF rep wf, of 0 _ True clk "bridge_events t" False] h(1) lap_replay(1) [OF h(2)]
  show ?thesis by (intro exI [of _ h]) force
qed

lemma bridge_replays_forever_witness:
  "\<exists>q h e h' n e'. shm_empty q h \<and>
     poll_queue (\<lambda>j. j < 5) True (\<lambda>_. 1) (bridge_events ''raw'') q 0 False h (0, e) = Some (6, True, h', n, e')"
proof -
  obtain e where e: "sample_engine = Some e" "wf_engine e" by (rule sample_engine_wf)
  have "\<forall>m \<in> set (replicate 1024 [1 :: u8]). msg_ok sample_queue m"
    by (simp add: msg_ok_def sample_queue_def bridge_queue_config_def)
  from bridge_replays_forever [OF _ sample_queue_def this wf_engineD(1) [OF e(2)], of "\<lambda>_. 1" "''raw''"]
  obtain h where h: "shm_empty sample_queue h"
    "\<exists>h' n e'. poll_queue (\<lambda>j. j < 5) True (\<lambda>_. 1) (bridge_events ''raw'') sample_queue 0 False h (0, e) =
       Some (5 + 1, 0 < (5 :: nat), h', n, e')" unfolding length_replicate by blast
  from h(2) obtain h' n e' where "poll_queue (\<lambda>j. j < 5) True (\<lambda>_. 1) (bridge_events ''raw'') sample_queue 0 False h (0, e) =
       Some (6, True, h', n, e')" by auto
  with h(1) show ?thesis by blast
qed

end
