(* ===== verification/Engine_Main.thy ===== *)
theory Engine_Main
  imports Shm_Bridge
begin

text \<open>
  The engine's executable, \<^verbatim>\<open>src/tyche/cpp/engine/main.cpp\<close>: the configuration file, the command
  line and the endpoints derived from the base port.  The JSON library is a parameter: \<open>read_json\<close>
  gives the document of a file, with \<open>None\<close> for a file that cannot be opened or parsed, and
  \<open>float_int\<close> its conversion of floating-point numbers to \<^verbatim>\<open>int\<close>.  Printing is left out.
\<close>

datatype json = JNull | JBool bool | JInt int | JFloat double_bits | JStr string
  | JArr "json list" | JObj "(string \<times> json) list"

section \<open>Configuration\<close>

record engine_config =
  ec_host :: string
  ec_port :: i32
  ec_data_dir :: string
  ec_queue_capacity :: i32
  ec_shm_modules :: "shm_module_config list"
  ec_shm_bridges :: "shm_bridge_config list"

definition default_config :: engine_config where
  "default_config = \<lparr>ec_host = ''127.0.0.1'', ec_port = 5555, ec_data_dir = ''data'',
     ec_queue_capacity = 10000, ec_shm_modules = [], ec_shm_bridges = []\<rparr>"

text \<open>\<^verbatim>\<open>contains\<close> and \<^verbatim>\<open>operator[]\<close>, with the type tests of the source.\<close>

definition json_field :: "string \<Rightarrow> json \<Rightarrow> json option" where
  "json_field k j = (case j of JObj kvs \<Rightarrow> map_of kvs k | _ \<Rightarrow> None)"

definition string_field :: "string \<Rightarrow> json \<Rightarrow> string \<Rightarrow> string" where
  "string_field k j dflt = (case json_field k j of Some (JStr s) \<Rightarrow> s | _ \<Rightarrow> dflt)"

definition int_field :: "(double_bits \<Rightarrow> i32) \<Rightarrow> string \<Rightarrow> json \<Rightarrow> i32 \<Rightarrow> i32" where
  "int_field float_int k j dflt =
     (case json_field k j of Some (JInt i) \<Rightarrow> word_of_int i | Some (JFloat d) \<Rightarrow> float_int d | _ \<Rightarrow> dflt)"

definition array_field :: "string \<Rightarrow> json \<Rightarrow> json list" where
  "array_field k j = (case json_field k j of Some (JArr xs) \<Rightarrow> xs | _ \<Rightarrow> [])"

definition json_strings :: "json list \<Rightarrow> string list" where
  "json_strings xs = concat (map (\<lambda>t. case t of JStr s \<Rightarrow> [s] | _ \<Rightarrow> []) xs)"

definition json_module :: "json \<Rightarrow> shm_module_config list" where
  "json_module m =
     (let mc = \<lparr>mc_library_path = string_field ''library_path'' m [], mc_queue_name = string_field ''shm_queue_name'' m [],
            mc_topics = json_strings (array_field ''zmq_topics'' m)\<rparr>
      in if mc_library_path mc \<noteq> [] \<and> mc_queue_name mc \<noteq> [] then [mc] else [])"

definition json_bridge :: "json \<Rightarrow> shm_bridge_config list" where
  "json_bridge b =
     (let bc = \<lparr>bc_queue_name = string_field ''shm_queue_name'' b [], bc_topic = string_field ''zmq_topic'' b []\<rparr>
      in if bc_queue_name bc \<noteq> [] \<and> bc_topic bc \<noteq> [] then [bc] else [])"

definition parse_json_config :: "(double_bits \<Rightarrow> i32) \<Rightarrow> json \<Rightarrow> engine_config \<Rightarrow> engine_config" where
  "parse_json_config float_int j cfg =
     \<lparr>ec_host = string_field ''host'' j (ec_host cfg), ec_port = int_field float_int ''port'' j (ec_port cfg),
      ec_data_dir = string_field ''data_dir'' j (ec_data_dir cfg),
      ec_queue_capacity = int_field float_int ''queue_capacity'' j (ec_queue_capacity cfg),
      ec_shm_modules = ec_shm_modules cfg @ concat (map json_module (array_field ''shm_modules'' j)),
      ec_shm_bridges = ec_shm_bridges cfg @ concat (map json_bridge (array_field ''shm_bridges'' j))\<rparr>"

section \<open>The command line\<close>

text \<open>\<^verbatim>\<open>std::stoi\<close>: leading white space, a sign, decimal digits, the rest ignored; \<open>None\<close> when there
  are no digits or the value does not fit an \<^verbatim>\<open>int\<close>.\<close>

definition is_space :: "char \<Rightarrow> bool" where
  "is_space c \<longleftrightarrow> c \<in> {CHR '' '', CHR 0x09, CHR 0x0A, CHR 0x0B, CHR 0x0C, CHR 0x0D}"

definition is_digit :: "char \<Rightarrow> bool" where
  "is_digit c \<longleftrightarrow> c \<in> set ''0123456789''"

definition stoi :: "string \<Rightarrow> i32 option" where
  "stoi s =
     (let s1 = dropWhile is_space s;
          neg = (s1 \<noteq> [] \<and> hd s1 = CHR ''-'');
          s2 = (if s1 \<noteq> [] \<and> (hd s1 = CHR ''-'' \<or> hd s1 = CHR ''+'') then tl s1 else s1);
          ds = takeWhile is_digit s2;
          v = (if neg then - int (read_base 10 ds) else int (read_base 10 ds))
      in if ds = [] \<or> v < - (2 ^ 31) \<or> 2 ^ 31 \<le> v then None else Some (word_of_int v))"

text \<open>The first pass: the last \<^verbatim>\<open>--config\<close>, or the exit code.\<close>

fun find_config :: "string list \<Rightarrow> string \<Rightarrow> nat + string" where
  "find_config [] path = Inr path"
| "find_config (a # rest) path =
     (if a = ''--config'' then (case rest of [] \<Rightarrow> Inl 1 | v # rest' \<Rightarrow> find_config rest' v)
      else find_config rest path)"

text \<open>The second pass.\<close>

fun parse_args :: "string list \<Rightarrow> engine_config \<Rightarrow> nat + engine_config" where
  "parse_args [] cfg = Inr cfg"
| "parse_args (a # rest) cfg =
     (if a = ''--help'' \<or> a = ''-h'' then Inl 0
      else if a = ''--host'' then
        (case rest of [] \<Rightarrow> Inl 1 | v # rest' \<Rightarrow> parse_args rest' (cfg\<lparr>ec_host := v\<rparr>))
      else if a = ''--port'' then
        (case rest of [] \<Rightarrow> Inl 1 | v # rest' \<Rightarrow>
           (case stoi v of None \<Rightarrow> Inl 1 | Some p \<Rightarrow> parse_args rest' (cfg\<lparr>ec_port := p\<rparr>)))
      else if a = ''--data-dir'' then
        (case rest of [] \<Rightarrow> Inl 1 | v # rest' \<Rightarrow> parse_args rest' (cfg\<lparr>ec_data_dir := v\<rparr>))
      else if a = ''--queue-capacity'' then
        (case rest of [] \<Rightarrow> Inl 1 | v # rest' \<Rightarrow>
           (case stoi v of None \<Rightarrow> Inl 1 | Some c \<Rightarrow> parse_args rest' (cfg\<lparr>ec_queue_capacity := c\<rparr>)))
      else if a = ''--config'' then
        (case rest of [] \<Rightarrow> Inr cfg | v # rest' \<Rightarrow> parse_args rest' cfg)
      else Inl 1)"

text \<open>The configuration the engine starts with, or the exit code.\<close>

definition main_config :: "(double_bits \<Rightarrow> i32) \<Rightarrow> (string \<Rightarrow> json option) \<Rightarrow> string list \<Rightarrow> nat + engine_config" where
  "main_config float_int read_json args =
     (case find_config args [] of
        Inl c \<Rightarrow> Inl c
      | Inr path \<Rightarrow>
          if path = [] then parse_args args default_config
          else (case read_json path of
                  None \<Rightarrow> Inl 1
                | Some j \<Rightarrow> parse_args args (parse_json_config float_int j default_config)))"

section \<open>The engine\<close>

definition endpoint_at :: "engine_config \<Rightarrow> int \<Rightarrow> endpoint" where
  "endpoint_at cfg k = \<lparr>host = ec_host cfg, port = sint (ec_port cfg) + k\<rparr>"

definition main_engine :: "engine_config \<Rightarrow> time \<Rightarrow> engine option" where
  "main_engine cfg tnow = engine_new (endpoint_at cfg 0) (endpoint_at cfg 1) (endpoint_at cfg 4)
     (endpoint_at cfg 5) (endpoint_at cfg 3) (endpoint_at cfg 9) (ec_queue_capacity cfg) (ec_data_dir cfg) tnow"

definition main_bridge :: "(string \<Rightarrow> module_lib option) \<Rightarrow> (string \<Rightarrow> shm_segment option) \<Rightarrow> engine_config \<Rightarrow>
    bridge option" where
  "main_bridge libs mappings cfg =
     (if ec_shm_modules cfg \<noteq> [] \<or> ec_shm_bridges cfg \<noteq> []
      then configure libs mappings (ec_shm_modules cfg) (ec_shm_bridges cfg) bridge_new else Some bridge_new)"

section \<open>What the command line means\<close>

text \<open>The options with their values, as the second pass reads them; \<open>None\<close> when it stops early.\<close>

fun options :: "string list \<Rightarrow> (string \<times> string) list option" where
  "options [] = Some []"
| "options (a # rest) =
     (if a \<in> {''--host'', ''--port'', ''--data-dir'', ''--queue-capacity'', ''--config''}
      then (case rest of [] \<Rightarrow> None | v # rest' \<Rightarrow> map_option ((#) (a, v)) (options rest')) else None)"

definition last_option :: "string \<Rightarrow> (string \<times> string) list \<Rightarrow> string option" where
  "last_option k os = map_of (rev os) k"

definition number_ok :: "string \<times> string \<Rightarrow> bool" where
  "number_ok kv \<longleftrightarrow> fst kv \<in> {''--port'', ''--queue-capacity''} \<longrightarrow> stoi (snd kv) \<noteq> None"

lemma last_option_Cons:
  "last_option k (kv # os) = (case last_option k os of Some v \<Rightarrow> Some v | None \<Rightarrow> if fst kv = k then Some (snd kv) else None)"
  by (cases kv) (simp add: last_option_def map_add_def split: option.split)

definition overridden :: "(string \<times> string) list \<Rightarrow> engine_config \<Rightarrow> engine_config" where
  "overridden os cfg = cfg\<lparr>
     ec_host := (case last_option ''--host'' os of Some v \<Rightarrow> v | None \<Rightarrow> ec_host cfg),
     ec_port := (case last_option ''--port'' os of Some v \<Rightarrow> the (stoi v) | None \<Rightarrow> ec_port cfg),
     ec_data_dir := (case last_option ''--data-dir'' os of Some v \<Rightarrow> v | None \<Rightarrow> ec_data_dir cfg),
     ec_queue_capacity := (case last_option ''--queue-capacity'' os of Some v \<Rightarrow> the (stoi v)
                           | None \<Rightarrow> ec_queue_capacity cfg)\<rparr>"

lemma parse_args_options:
  "options args = Some os \<Longrightarrow> list_all number_ok os \<Longrightarrow> parse_args args cfg = Inr (overridden os cfg)"
proof (induction args arbitrary: os cfg rule: options.induct)
  case 1
  then show ?case by (simp add: overridden_def last_option_def)
next
  case (2 a rest)
  from "2.prems"(1) obtain v rest' os' where
    a: "a \<in> {''--host'', ''--port'', ''--data-dir'', ''--queue-capacity'', ''--config''}" "rest = v # rest'"
      "options rest' = Some os'" "os = (a, v) # os'"
    by (auto split: if_splits list.splits)
  have ok: "list_all number_ok os'" "number_ok (a, v)" using "2.prems"(2) a(4) by simp_all
  note ih = "2.IH" [OF a(1,2,3) ok(1)]
  show ?case
    using a(1) ok(2) unfolding a(2,4)
    by (elim insertE emptyE) (auto simp: ih overridden_def last_option_Cons number_ok_def split: option.splits)
qed


section \<open>Properties\<close>

text \<open>A command line made of known options with their values, numbers where numbers are needed, is
  accepted when its configuration file can be read; each setting is then the last value given on
  the command line, else the one of the configuration file, else the default.\<close>

lemma config_precedence:
  assumes "options args = Some os" and "list_all number_ok os" and "find_config args [] = Inr path"
    and "path \<noteq> [] \<longrightarrow> read_json path = Some j"
  shows "main_config float_int read_json args =
    Inr (overridden os (if path = [] then default_config else parse_json_config float_int j default_config))"
  using assms by (simp add: main_config_def parse_args_options)

lemma config_precedence_witness:
  "main_config (\<lambda>_. 0) (\<lambda>_. Some (JObj [(''port'', JInt 7000), (''host'', JStr ''h'')]))
     [''--config'', ''c'', ''--port'', ''1'', ''--port'', '' -12x''] =
   Inr (default_config\<lparr>ec_host := ''h'', ec_port := -12\<rparr>)"
proof -
  let ?args = "[''--config'', ''c'', ''--port'', ''1'', ''--port'', '' -12x'']"
  have s: "stoi ''1'' = Some 1" "stoi '' -12x'' = Some (-12)" by code_simp+
  have os: "options ?args = Some [(''--config'', ''c''), (''--port'', ''1''), (''--port'', '' -12x'')]" by simp
  have "list_all number_ok [(''--config'', ''c''), (''--port'', ''1''), (''--port'', '' -12x'')]"
    using s by (simp add: number_ok_def)
  moreover have "find_config ?args [] = Inr ''c''" by simp
  ultimately show ?thesis
    using config_precedence [OF os, of "''c''" "\<lambda>_. Some (JObj [(''port'', JInt 7000), (''host'', JStr ''h'')])"
        "JObj [(''port'', JInt 7000), (''host'', JStr ''h'')]" "\<lambda>_. 0"] s
    by (simp add: overridden_def last_option_def parse_json_config_def string_field_def int_field_def
        json_field_def array_field_def default_config_def)
qed

text \<open>The seven endpoints of the engine have pairwise different ports, at the offsets the usage
  text documents: registration at the base port, events at 1 and 2, admin at 3, heartbeats at 4
  and 5, jobs at 9; and an engine configured with a capacity that is not negative is well formed.\<close>

lemma engine_endpoints:
  assumes "0 \<le> sint (ec_queue_capacity cfg)"
  shows "\<exists>e. main_engine cfg tnow = Some e \<and> wf_engine e \<and>
    (let ps = map port [registration_endpoint e, event_endpoint e, event_sub_endpoint e, admin_endpoint e,
           heartbeat_endpoint e, heartbeat_recv_endpoint e, job_endpoint e]
     in ps = map ((+) (sint (ec_port cfg))) [0, 1, 2, 3, 4, 5, 9] \<and> distinct ps)"
proof -
  define c where "c = sint (ec_queue_capacity cfg)"
  have c: "0 \<le> c" "c < 2 ^ 31" using assms sint_lt [of "ec_queue_capacity cfg"] by (simp_all add: c_def)
  have "(scast (ec_queue_capacity cfg) :: u64) = word_of_int c" unfolding c_def by simp
  moreover have "uint (word_of_int c :: u64) = c"
    unfolding uint_word_of_int_eq using c by (intro take_bit_int_eq_self) simp_all
  then have "unat (word_of_int c :: u64) = nat c" by (simp flip: nat_uint_eq)
  ultimately have "unat (scast (ec_queue_capacity cfg) :: u64) \<le> 2 ^ 63" using c by simp
  then obtain e where e: "main_engine cfg tnow = Some e" "wf_engine e"
    unfolding main_engine_def by (rule engine_new_wf)
  have "map port [registration_endpoint e, event_endpoint e, event_sub_endpoint e, admin_endpoint e,
      heartbeat_endpoint e, heartbeat_recv_endpoint e, job_endpoint e] =
    map ((+) (sint (ec_port cfg))) [0, 1, 2, 3, 4, 5, 9]"
    using e(1) by (auto simp: main_engine_def engine_new_def endpoint_at_def split: bind_splits)
  with e show ?thesis by (auto simp: Let_def)
qed

lemma engine_endpoints_witness:
  "\<exists>e. main_engine default_config 0 = Some e \<and> wf_engine e \<and> port (job_endpoint e) = 5564"
proof -
  have "0 \<le> sint (ec_queue_capacity default_config)" by (simp add: default_config_def)
  from engine_endpoints [OF this, of 0] show ?thesis by (auto simp: default_config_def Let_def)
qed

text \<open>A negative capacity is accepted on the command line; \<open>-1\<close> gives every topic a ring buffer
  without slots.\<close>

lemma negative_capacity:
  "main_config f r [''--queue-capacity'', ''-1''] = Inr (default_config\<lparr>ec_queue_capacity := -1\<rparr>)"
  "slots (ring_new d (scast (-1 :: i32))) = []"
proof -
  have "stoi ''-1'' = Some (-1)" by code_simp
  then show "main_config f r [''--queue-capacity'', ''-1''] = Inr (default_config\<lparr>ec_queue_capacity := -1\<rparr>)"
    by (simp add: main_config_def)
  have "next_power_of_2 (-1) = 0" by code_simp
  then show "slots (ring_new d (scast (-1 :: i32))) = []" by (simp add: ring_new_def)
qed

end
