(* ===== verification/Step_Systems.thy ===== *)
theory Step_Systems
  imports Tyche_Prelude
begin

text \<open>
  Systems of threads that share memory: the atomic actions of all threads in the order in which they
  happen, each a function from the state to the next one.  An action that its thread cannot take now
  has the value \<open>None\<close>, so that \<open>exec\<close> is defined exactly on the schedules that can happen.  The locale
  \<open>stepper\<close> carries an invariant of the steps over to every schedule.
\<close>

fun exec :: "('a \<Rightarrow> 's \<Rightarrow> 's option) \<Rightarrow> 'a list \<Rightarrow> 's \<Rightarrow> 's option" where
  "exec step [] s = Some s"
| "exec step (a # as) s = step a s \<bind> exec step as"

lemma exec_append: "exec step (as @ bs) s = exec step as s \<bind> exec step bs"
  by (induction as arbitrary: s) (auto split: bind_splits)

lemma exec_snoc:
  "exec step (as @ [a]) s = Some s'' \<longleftrightarrow> (\<exists>s'. exec step as s = Some s' \<and> step a s' = Some s'')"
  by (auto simp: exec_append bind_eq_Some_conv)

locale stepper =
  fixes step :: "'a \<Rightarrow> 's \<Rightarrow> 's option" and keeps :: "'s \<Rightarrow> bool"
  assumes step_keeps: "step a s = Some s' \<Longrightarrow> keeps s \<Longrightarrow> keeps s'"
begin

lemma exec_keeps: "exec step as s = Some s' \<Longrightarrow> keeps s \<Longrightarrow> keeps s'"
  by (induction as arbitrary: s) (auto simp: bind_eq_Some_conv dest: step_keeps)

text \<open>What every step does to a state of the invariant, every schedule does, when the relation is
  reflexive and transitive.\<close>

lemma exec_relates:
  assumes "\<And>a s s'. step a s = Some s' \<Longrightarrow> keeps s \<Longrightarrow> R s s'" and "\<And>s. R s s"
    and "\<And>s t u. R s t \<Longrightarrow> R t u \<Longrightarrow> R s u"
  shows "exec step as s = Some s' \<Longrightarrow> keeps s \<Longrightarrow> R s s'"
proof (induction as arbitrary: s)
  case (Cons a as)
  then obtain s1 where s1: "step a s = Some s1" "exec step as s1 = Some s'" by (auto simp: bind_eq_Some_conv)
  with Cons show ?case by (blast intro: assms step_keeps)
qed (simp add: assms)

end

end
