(* ===== verification/Engine_Lifecycle.thy ===== *)
theory Engine_Lifecycle
  imports Shm_Bridge Step_Systems
begin

text \<open>
  Starting and stopping the engine: \<^verbatim>\<open>start_nonblocking\<close>, \<^verbatim>\<open>run\<close>, \<^verbatim>\<open>stop\<close> and the destructor of \<^verbatim>\<open>engine.cpp\<close>, the
  end of \<^verbatim>\<open>main\<close> and its signal handlers in \<^verbatim>\<open>main.cpp\<close>, as atomic steps of the main thread and the thread the
  handler runs on.  On POSIX the handler is taken to interrupt the main thread (\<open>nested\<close>), on Windows the
  console handler runs on a thread of its own.  A worker thread is where it stands to its
  \<^verbatim>\<open>std::thread\<close> object; it leaves its loop at a time of its choice.  A handler that is running is
  not interrupted by a second signal.
\<close>

section \<open>State and steps\<close>

datatype worker = WRunning | WDone | WJoined

datatype stop_pc = StopCheck | StopFlag | StopBridge | StopNotify | StopJoin nat | StopClear | StopReset | StopDone

datatype main_pc = MPublish | MContext | MFlag | MSpawn nat | MBridge | MLoop | MUnpublish | MDestroy | MStop stop_pc | MMembers

datatype handler_pc = HIdle | HGlobal | HStop stop_pc

text \<open>\<open>Terminated\<close>: a joinable thread object was destroyed, or a destroyed engine was used.\<close>

datatype life_outcome = Alive | Terminated | Exited

record engine_life =
  el_running :: bool
  el_ctx :: bool
  el_threads :: "worker list"
  el_bridge :: bridge
  el_g_engine :: bool
  el_shutdown_requested :: bool
  el_main :: main_pc
  el_handler :: handler_pc
  el_outcome :: life_outcome

definition life_new :: "bridge \<Rightarrow> engine_life" where
  "life_new b = \<lparr>el_running = False, el_ctx = False, el_threads = [], el_bridge = b, el_g_engine = False,
     el_shutdown_requested = False, el_main = MPublish, el_handler = HIdle, el_outcome = Alive\<rparr>"

text \<open>Destroying the thread objects ends the program when one of them is joinable.\<close>

definition destroy_threads :: "engine_life \<Rightarrow> engine_life" where
  "destroy_threads s = (if \<forall>w \<in> set (el_threads s). w = WJoined then s\<lparr>el_threads := []\<rparr> else s\<lparr>el_outcome := Terminated\<rparr>)"

text \<open>\<open>None\<close>: the thread waits in \<^verbatim>\<open>join\<close>.\<close>

fun stop_step :: "stop_pc \<Rightarrow> engine_life \<Rightarrow> (stop_pc \<times> engine_life) option" where
  "stop_step StopCheck s = Some (if el_running s then StopFlag else StopDone, s)"
| "stop_step StopFlag s = Some (StopBridge, s\<lparr>el_running := False\<rparr>)"
| "stop_step StopBridge s = Some (StopNotify, s\<lparr>el_bridge := snd (bridge_stop (el_bridge s))\<rparr>)"
| "stop_step StopNotify s = Some (StopJoin 0, s)"
| "stop_step (StopJoin i) s =
     (if i < length (el_threads s)
      then (case el_threads s ! i of
              WRunning \<Rightarrow> None
            | _ \<Rightarrow> Some (StopJoin (Suc i), s\<lparr>el_threads := (el_threads s)[i := WJoined]\<rparr>))
      else Some (StopClear, s))"
| "stop_step StopClear s = Some (StopReset, destroy_threads s)"
| "stop_step StopReset s = Some (StopDone, s\<lparr>el_ctx := False\<rparr>)"
| "stop_step StopDone s = None"

fun main_step :: "main_pc \<Rightarrow> engine_life \<Rightarrow> engine_life option" where
  "main_step MPublish s = Some (s\<lparr>el_g_engine := True, el_main := MContext\<rparr>)"
| "main_step MContext s = Some (s\<lparr>el_ctx := True, el_main := MFlag\<rparr>)"
| "main_step MFlag s = Some (s\<lparr>el_running := True, el_main := MSpawn 10\<rparr>)"
| "main_step (MSpawn (Suc n)) s = Some (s\<lparr>el_threads := el_threads s @ [WRunning], el_main := MSpawn n\<rparr>)"
| "main_step (MSpawn 0) s = Some (s\<lparr>el_main := MBridge\<rparr>)"
| "main_step MBridge s = Some (s\<lparr>el_bridge := bridge_start (el_bridge s), el_main := MLoop\<rparr>)"
| "main_step MLoop s = Some (if el_running s then s else s\<lparr>el_main := MUnpublish\<rparr>)"
| "main_step MUnpublish s = Some (s\<lparr>el_g_engine := False, el_main := MDestroy\<rparr>)"
| "main_step MDestroy s = Some (s\<lparr>el_main := (if el_running s then MStop StopCheck else MMembers)\<rparr>)"
| "main_step (MStop pc) s =
     (if pc = StopDone then Some (s\<lparr>el_main := MMembers\<rparr>)
      else map_option (\<lambda>(pc', s'). s'\<lparr>el_main := MStop pc'\<rparr>) (stop_step pc s))"
| "main_step MMembers s =
     (let s' = destroy_threads s
      in Some (if el_outcome s' = Terminated then s' else s'\<lparr>el_ctx := False, el_outcome := Exited\<rparr>))"

fun handler_step :: "handler_pc \<Rightarrow> engine_life \<Rightarrow> engine_life option" where
  "handler_step HIdle s = None"
| "handler_step HGlobal s = Some (s\<lparr>el_handler := (if el_g_engine s then HStop StopCheck else HIdle)\<rparr>)"
| "handler_step (HStop pc) s =
     (if pc = StopDone then Some (s\<lparr>el_handler := HIdle\<rparr>)
      else map_option (\<lambda>(pc', s'). s'\<lparr>el_handler := HStop pc'\<rparr>) (stop_step pc s))"

datatype life_act = MainStep | Signal | HandlerStep | WorkerExit nat

definition life_step :: "bool \<Rightarrow> life_act \<Rightarrow> engine_life \<Rightarrow> engine_life option" where
  "life_step nested act s =
     (if el_outcome s \<noteq> Alive then None
      else case act of
        MainStep \<Rightarrow> if nested \<and> el_handler s \<noteq> HIdle then None else main_step (el_main s) s
      | Signal \<Rightarrow>
          if el_handler s = HIdle then Some (s\<lparr>el_shutdown_requested := True, el_handler := HGlobal\<rparr>) else None
      | HandlerStep \<Rightarrow> handler_step (el_handler s) s
      | WorkerExit i \<Rightarrow>
          if i < length (el_threads s) \<and> el_threads s ! i = WRunning
          then Some (s\<lparr>el_threads := (el_threads s)[i := WDone]\<rparr>) else None)"

section \<open>A signal while the engine runs\<close>

definition started :: "engine_life \<Rightarrow> bool" where
  "started s \<longleftrightarrow> el_outcome s = Alive \<and> el_main s = MLoop \<and> el_handler s = HIdle \<and> el_running s \<and> el_ctx s \<and> el_g_engine s \<and>
     \<not> el_shutdown_requested s \<and> length (el_threads s) = 10 \<and> (\<forall>w \<in> set (el_threads s). w \<noteq> WJoined)"

fun stopping :: "stop_pc \<Rightarrow> engine_life \<Rightarrow> bool" where
  "stopping StopCheck s \<longleftrightarrow> el_running s \<or> el_threads s = [] \<and> \<not> el_ctx s"
| "stopping StopFlag s \<longleftrightarrow> el_running s"
| "stopping StopBridge s \<longleftrightarrow> \<not> el_running s"
| "stopping StopNotify s \<longleftrightarrow> \<not> el_running s"
| "stopping (StopJoin i) s \<longleftrightarrow> \<not> el_running s \<and> (\<forall>j < min i (length (el_threads s)). el_threads s ! j = WJoined)"
| "stopping StopClear s \<longleftrightarrow> \<not> el_running s \<and> (\<forall>w \<in> set (el_threads s). w = WJoined)"
| "stopping StopReset s \<longleftrightarrow> \<not> el_running s \<and> el_threads s = []"
| "stopping StopDone s \<longleftrightarrow> \<not> el_running s \<and> el_threads s = [] \<and> \<not> el_ctx s"

text \<open>While the handler runs, the main thread stands in its loop or is past it with everything joined.\<close>

definition shut_down :: "engine_life \<Rightarrow> bool" where
  "shut_down s \<longleftrightarrow> \<not> el_running s \<and> el_threads s = [] \<and> \<not> el_ctx s"

definition orderly :: "engine_life \<Rightarrow> bool" where
  "orderly s \<longleftrightarrow>
     (case el_outcome s of
        Exited \<Rightarrow> shut_down s
      | Terminated \<Rightarrow> False
      | Alive \<Rightarrow>
          (case el_main s of MLoop \<Rightarrow> el_g_engine s \<and>
               (case el_handler s of HStop pc \<Rightarrow> stopping pc s | _ \<Rightarrow> el_running s \<or> shut_down s)
           | MUnpublish \<Rightarrow> shut_down s \<and> (case el_handler s of HStop pc \<Rightarrow> pc \<in> {StopCheck, StopDone} | _ \<Rightarrow> True)
           | MDestroy \<Rightarrow> shut_down s \<and> (case el_handler s of HStop pc \<Rightarrow> pc \<in> {StopCheck, StopDone} | _ \<Rightarrow> True)
           | MMembers \<Rightarrow> shut_down s \<and> (case el_handler s of HStop pc \<Rightarrow> pc \<in> {StopCheck, StopDone} | _ \<Rightarrow> True)
           | _ \<Rightarrow> False))"

lemma orderly_main:
  assumes "orderly s" "el_outcome s = Alive" "el_handler s = HIdle" "main_step (el_main s) s = Some s'"
  shows "orderly s'"
  using assms by (cases "el_main s") (auto simp: orderly_def shut_down_def destroy_threads_def split: if_splits)

lemma stopping_step:
  assumes "stopping pc s" "stop_step pc s = Some (pc', s')" "el_outcome s = Alive"
  shows "stopping pc' s' \<and> el_outcome s' = Alive \<and> el_main s' = el_main s \<and> el_g_engine s' = el_g_engine s"
  using assms
  by (cases pc) (auto simp: destroy_threads_def less_Suc_eq nth_list_update all_set_conv_all_nth split: if_splits worker.splits)

lemma orderly_handler:
  assumes "orderly s" "el_outcome s = Alive" "handler_step (el_handler s) s = Some s'"
  shows "orderly s'"
proof (cases "el_handler s")
  case (HStop pc)
  have stopping_main: "stopping p (u\<lparr>el_handler := h\<rparr>) = stopping p u" for p u h by (cases p) simp_all
  show ?thesis
  proof (cases "pc = StopDone")
    case True
    with assms HStop show ?thesis by (auto simp: orderly_def shut_down_def split: main_pc.splits)
  next
    case False
    then obtain pc' u where u: "stop_step pc s = Some (pc', u)" "s' = u\<lparr>el_handler := HStop pc'\<rparr>"
      using assms HStop by auto
    show ?thesis
    proof (cases "el_main s = MLoop")
      case True
      with stopping_step [OF _ u(1) assms(2)] assms HStop u(2) show ?thesis by (auto simp: orderly_def stopping_main)
    next
      case False
      with assms HStop u \<open>pc \<noteq> StopDone\<close> show ?thesis by (auto simp: orderly_def shut_down_def split: main_pc.splits)
    qed
  qed
qed (use assms in \<open>auto simp: orderly_def shut_down_def split: main_pc.splits\<close>)

lemma stopping_worker:
  "stopping pc s \<Longrightarrow> i < length (el_threads s) \<Longrightarrow> el_threads s ! i = WRunning \<Longrightarrow> stopping pc (s\<lparr>el_threads := (el_threads s)[i := WDone]\<rparr>)"
  by (cases pc) (auto simp: nth_list_update all_set_conv_all_nth)

lemma orderly_step:
  assumes "life_step True act s = Some s'" "orderly s"
  shows "orderly s'"
proof (cases act)
  case MainStep
  with assms show ?thesis by (auto simp: life_step_def intro: orderly_main split: if_splits)
next
  case Signal
  with assms show ?thesis
    by (auto simp: life_step_def orderly_def shut_down_def split: if_splits main_pc.splits)
next
  case HandlerStep
  with assms show ?thesis by (auto simp: life_step_def intro: orderly_handler split: if_splits)
next
  case (WorkerExit i)
  with assms have a: "el_outcome s = Alive" "i < length (el_threads s)" "el_threads s ! i = WRunning"
    "s' = s\<lparr>el_threads := (el_threads s)[i := WDone]\<rparr>" by (auto simp: life_step_def split: if_splits)
  with assms(2) stopping_worker [OF _ a(2,3)] show ?thesis
    by (auto simp: orderly_def shut_down_def split: main_pc.splits handler_pc.splits)
qed

interpretation life: stepper "life_step True" orderly
  by unfold_locales (rule orderly_step)

section \<open>The shutdown can always be finished\<close>

definition can_exit :: "engine_life \<Rightarrow> bool" where
  "can_exit s \<longleftrightarrow> (\<exists>acts s'. exec (life_step True) acts s = Some s' \<and> el_outcome s' = Exited)"

lemma can_exit_step: "life_step True act s = Some s1 \<Longrightarrow> can_exit s1 \<Longrightarrow> can_exit s"
  unfolding can_exit_def by (elim exE conjE, rule_tac x = "act # acts" in exI) auto

lemma can_exit_idle:
  assumes "el_outcome s = Alive" "el_handler s = HIdle" "shut_down s" "el_main s \<in> {MLoop, MUnpublish, MDestroy, MMembers}"
  shows "can_exit s"
proof -
  have "exec (life_step True) (replicate (case el_main s of MLoop \<Rightarrow> 4 | MUnpublish \<Rightarrow> 3 | MDestroy \<Rightarrow> 2 | _ \<Rightarrow> 1) MainStep) s =
      Some (s\<lparr>el_main := MMembers, el_g_engine := (el_g_engine s \<and> el_main s \<in> {MDestroy, MMembers}), el_threads := [],
        el_ctx := False, el_outcome := Exited\<rparr>)"
    using assms by (cases s) (auto simp: life_step_def shut_down_def destroy_threads_def eval_nat_numeral)
  then show ?thesis unfolding can_exit_def by (intro exI conjI) (assumption, simp)
qed

fun stop_rank :: "stop_pc \<Rightarrow> engine_life \<Rightarrow> nat" where
  "stop_rank StopDone s = 0"
| "stop_rank StopReset s = 1"
| "stop_rank StopClear s = 2"
| "stop_rank (StopJoin i) s = 3 + (length (el_threads s) - i) + length (filter (\<lambda>w. w = WRunning) (el_threads s))"
| "stop_rank StopNotify s = 4 + length (el_threads s) + length (filter (\<lambda>w. w = WRunning) (el_threads s))"
| "stop_rank StopBridge s = 5 + length (el_threads s) + length (filter (\<lambda>w. w = WRunning) (el_threads s))"
| "stop_rank StopFlag s = 6 + length (el_threads s) + length (filter (\<lambda>w. w = WRunning) (el_threads s))"
| "stop_rank StopCheck s = 7 + length (el_threads s) + length (filter (\<lambda>w. w = WRunning) (el_threads s))"

lemma running_exit:
  "i < length ws \<Longrightarrow> ws ! i = WRunning \<Longrightarrow> length (filter (\<lambda>w. w = WRunning) (ws[i := WDone])) < length (filter (\<lambda>w. w = WRunning) ws)"
  by (induction ws arbitrary: i) (auto simp: nth_Cons split: nat.splits)

lemma running_join:
  "i < length ws \<Longrightarrow> ws ! i \<noteq> WRunning \<Longrightarrow> length (filter (\<lambda>w. w = WRunning) (ws[i := WJoined])) = length (filter (\<lambda>w. w = WRunning) ws)"
  by (induction ws arbitrary: i) (auto simp: nth_Cons split: nat.splits)

lemma stop_rank_step:
  "stop_step pc s = Some (pc', s') \<Longrightarrow> stopping pc s \<Longrightarrow> stop_rank pc' s' < stop_rank pc s"
  by (cases pc) (auto simp: destroy_threads_def running_join split: if_splits worker.splits)

lemma stop_blocked:
  "stop_step pc s = None \<Longrightarrow> pc \<noteq> StopDone \<Longrightarrow> \<exists>i. pc = StopJoin i \<and> i < length (el_threads s) \<and> el_threads s ! i = WRunning"
  by (cases pc) (auto split: if_splits worker.splits)

lemma stopping_handler [simp]: "stopping p (u\<lparr>el_handler := h\<rparr>) = stopping p u" "stop_rank p (u\<lparr>el_handler := h\<rparr>) = stop_rank p u"
  by (cases p; simp)+

lemma can_exit_stop:
  assumes "el_outcome s = Alive" "el_main s = MLoop" "el_handler s = HStop pc" "stopping pc s"
  shows "can_exit s"
  using assms
proof (induction "stop_rank pc s" arbitrary: pc s rule: less_induct)
  case less
  show ?case
  proof (cases "pc = StopDone")
    case True
    then have "life_step True HandlerStep s = Some (s\<lparr>el_handler := HIdle\<rparr>)" using less.prems by (simp add: life_step_def)
    moreover have "can_exit (s\<lparr>el_handler := HIdle\<rparr>)"
      using less.prems True by (intro can_exit_idle) (auto simp: shut_down_def)
    ultimately show ?thesis by (rule can_exit_step)
  next
    case False
    show ?thesis
    proof (cases "stop_step pc s")
      case None
      then obtain i where i: "pc = StopJoin i" "i < length (el_threads s)" "el_threads s ! i = WRunning"
        using stop_blocked False by blast
      let ?s = "s\<lparr>el_threads := (el_threads s)[i := WDone]\<rparr>"
      have "life_step True (WorkerExit i) s = Some ?s" using less.prems i by (simp add: life_step_def)
      moreover have "stop_rank pc ?s < stop_rank pc s" using i running_exit [OF i(2,3)] by simp
      then have "can_exit ?s" using less.prems stopping_worker [OF _ i(2,3)] by (intro less.hyps [of pc ?s]) simp_all
      ultimately show ?thesis by (rule can_exit_step)
    next
      case (Some r)
      then obtain pc' u where u: "stop_step pc s = Some (pc', u)" by (cases r) auto
      note k = stopping_step [OF less.prems(4) u less.prems(1)] and r = stop_rank_step [OF u less.prems(4)]
      have "life_step True HandlerStep s = Some (u\<lparr>el_handler := HStop pc'\<rparr>)" using less.prems False u by (simp add: life_step_def)
      moreover have "can_exit (u\<lparr>el_handler := HStop pc'\<rparr>)"
        using k r less.prems(2) by (intro less.hyps [of pc' "u\<lparr>el_handler := HStop pc'\<rparr>"]) simp_all
      ultimately show ?thesis by (rule can_exit_step)
    qed
  qed
qed

text \<open>Once a signal has come, the handler is under way or the flag is down.\<close>

definition answered :: "engine_life \<Rightarrow> bool" where
  "answered s \<longleftrightarrow> orderly s \<and> (el_outcome s = Alive \<and> el_shutdown_requested s \<and> el_handler s = HIdle \<longrightarrow> \<not> el_running s)"

lemma stop_step_requested: "stop_step pc s = Some (pc', s') \<Longrightarrow> el_shutdown_requested s' = el_shutdown_requested s"
  by (cases pc) (auto simp: destroy_threads_def split: if_splits worker.splits)

lemma answered_step:
  assumes st: "life_step True act s = Some s'" and a: "answered s"
  shows "answered s'"
proof -
  have ord: "orderly s" "el_outcome s = Alive" using st a by (auto simp: answered_def life_step_def split: if_splits)
  have "orderly s'" using orderly_step [OF st ord(1)] .
  moreover have "el_outcome s' = Alive \<and> el_shutdown_requested s' \<and> el_handler s' = HIdle \<longrightarrow> \<not> el_running s'"
  proof (cases act)
    case MainStep
    then have "el_handler s = HIdle" "main_step (el_main s) s = Some s'" using st by (auto simp: life_step_def split: if_splits)
    with a ord show ?thesis
      by (cases "el_main s") (auto simp: answered_def orderly_def shut_down_def destroy_threads_def split: if_splits)
  next
    case HandlerStep
    then have "handler_step (el_handler s) s = Some s'" using st by (auto simp: life_step_def split: if_splits)
    then show ?thesis
      using ord by (cases "el_handler s") (auto simp: orderly_def shut_down_def split: if_splits main_pc.splits)
  qed (use st a in \<open>auto simp: life_step_def answered_def split: if_splits\<close>)
  ultimately show ?thesis by (simp add: answered_def)
qed

interpretation answer: stepper "life_step True" answered
  by unfold_locales (rule answered_step)

lemma requested_step:
  assumes "life_step n act s = Some s'"
  shows "act = Signal \<or> el_shutdown_requested s \<Longrightarrow> el_shutdown_requested s'"
proof -
  have "main_step pc s = Some s' \<Longrightarrow> el_shutdown_requested s' = el_shutdown_requested s" for pc
    by (induction pc s rule: main_step.induct) (auto simp: destroy_threads_def Let_def dest!: stop_step_requested split: if_splits)
  moreover have "handler_step pc s = Some s' \<Longrightarrow> el_shutdown_requested s' = el_shutdown_requested s" for pc
    by (cases pc) (auto dest!: stop_step_requested split: if_splits)
  ultimately show "act = Signal \<or> el_shutdown_requested s \<Longrightarrow> el_shutdown_requested s'"
    using assms by (cases act) (auto simp: life_step_def split: if_splits)
qed

lemma requested_exec:
  "exec (life_step n) acts s = Some s' \<Longrightarrow> Signal \<in> set acts \<or> el_shutdown_requested s \<Longrightarrow> el_shutdown_requested s'"
  by (induction acts arbitrary: s) (auto simp: bind_eq_Some_conv dest: requested_step)

lemma can_exit_past:
  assumes "el_outcome s = Alive" "shut_down s" "el_main s \<in> {MLoop, MUnpublish, MDestroy, MMembers}" "el_handler s \<in> {HStop StopCheck, HStop StopDone}"
  shows "can_exit s"
proof -
  have fin: "can_exit u" if "el_outcome u = Alive" "shut_down u" "el_main u \<in> {MLoop, MUnpublish, MDestroy, MMembers}" "el_handler u = HStop StopDone" for u
    by (rule can_exit_step [of HandlerStep u "u\<lparr>el_handler := HIdle\<rparr>"])
      (use that in \<open>auto simp: life_step_def shut_down_def intro: can_exit_idle\<close>)
  show ?thesis
  proof (cases "el_handler s = HStop StopDone")
    case False
    show ?thesis
      by (rule can_exit_step [of HandlerStep s "s\<lparr>el_handler := HStop StopDone\<rparr>"])
        (use assms False in \<open>auto simp: life_step_def shut_down_def intro!: fin\<close>)
  qed (use fin assms in blast)
qed

lemma answered_can_exit:
  assumes a: "answered s" "el_outcome s = Alive" "el_shutdown_requested s"
  shows "can_exit s"
proof (cases "el_main s = MLoop")
  case True
  show ?thesis
  proof (cases "el_handler s")
    case HIdle
    with a True show ?thesis by (intro can_exit_idle) (auto simp: answered_def orderly_def)
  next
    case HGlobal
    let ?s = "s\<lparr>el_handler := HStop StopCheck\<rparr>"
    have g: "el_g_engine s" "el_running s \<or> shut_down s" using a True HGlobal by (auto simp: answered_def orderly_def)
    have "life_step True HandlerStep s = Some ?s" using a HGlobal g by (simp add: life_step_def)
    moreover have "can_exit ?s" using a True g by (intro can_exit_stop [where pc = StopCheck]) (auto simp: shut_down_def)
    ultimately show ?thesis by (rule can_exit_step)
  next
    case (HStop pc)
    with a True show ?thesis by (intro can_exit_stop [where pc = pc]) (auto simp: answered_def orderly_def)
  qed
next
  case False
  with a have sd: "shut_down s" "el_main s \<in> {MUnpublish, MDestroy, MMembers}"
      "case el_handler s of HStop pc \<Rightarrow> pc \<in> {StopCheck, StopDone} | _ \<Rightarrow> True"
    by (auto simp: answered_def orderly_def split: main_pc.splits)
  show ?thesis
  proof (cases "el_handler s")
    case HGlobal
    let ?s = "s\<lparr>el_handler := (if el_g_engine s then HStop StopCheck else HIdle)\<rparr>"
    have "life_step True HandlerStep s = Some ?s" using a HGlobal by (simp add: life_step_def)
    moreover have "can_exit ?s"
      using a sd can_exit_past [of ?s] can_exit_idle [of ?s] by (cases "el_g_engine s") (auto simp: shut_down_def)
    ultimately show ?thesis by (rule can_exit_step)
  qed (use a sd can_exit_past [of s] can_exit_idle [of s] in auto)
qed

lemma started_answered: "started s \<Longrightarrow> answered s"
  by (simp add: started_def answered_def orderly_def)

section \<open>Properties\<close>

lemma start_reaches_loop:
  "\<exists>s. exec (life_step n) (replicate 15 MainStep) (life_new b) = Some s \<and> started s"
  by (simp add: life_step_def life_new_def started_def eval_nat_numeral)

text \<open>C28: A running engine shuts down in order.  From the moment it is started, whenever the signal comes and however the
  workers and the interrupted main thread proceed, no thread object is destroyed while it can be joined; when the program
  ends, all ten workers have been joined and the context is gone; and after the signal the end can always be reached.\<close>

theorem engine_shutdown:
  assumes "started s" and "exec (life_step True) acts s = Some s'"
  shows "el_outcome s' \<noteq> Terminated \<and> (el_outcome s' = Exited \<longrightarrow> shut_down s') \<and> (Signal \<in> set acts \<longrightarrow> can_exit s')"
proof -
  have a: "answered s'" by (rule answer.exec_keeps [OF assms(2) started_answered [OF assms(1)]])
  then have o: "orderly s'" by (simp add: answered_def)
  have "can_exit s'" if "Signal \<in> set acts"
  proof (cases "el_outcome s'")
    case Alive
    with answered_can_exit [OF a] requested_exec [OF assms(2)] that show ?thesis by blast
  next
    case Exited
    have "exec (life_step True) [] s' = Some s'" by simp
    with Exited show ?thesis unfolding can_exit_def by blast
  qed (use o in \<open>simp add: orderly_def\<close>)
  with o show ?thesis by (auto simp: orderly_def split: life_outcome.splits)
qed

theorem engine_shutdown_witness:
  "\<exists>s s'. exec (life_step True) (replicate 15 MainStep) (life_new bridge_new) = Some s \<and>
     exec (life_step True) [Signal, HandlerStep, WorkerExit 3, HandlerStep] s = Some s' \<and> el_outcome s' \<noteq> Terminated \<and> can_exit s'"
proof -
  obtain s where s: "exec (life_step True) (replicate 15 MainStep) (life_new bridge_new) = Some s" "started s"
      "\<exists>s'. exec (life_step True) [Signal, HandlerStep, WorkerExit 3, HandlerStep] s = Some s'"
    by (simp add: life_step_def life_new_def started_def eval_nat_numeral)
  then obtain s' where s': "exec (life_step True) [Signal, HandlerStep, WorkerExit 3, HandlerStep] s = Some s'" by blast
  have "el_outcome s' \<noteq> Terminated \<and> can_exit s'" using engine_shutdown [OF s(2) s'] by simp
  with s(1) s' show ?thesis by blast
qed

text \<open>C40: The shutdown is wrong at the edges.  A signal that comes while the workers are being started stops what is there, the rest is
  started after that, and the destructor ends the program on joinable threads.  The console handler of Windows, a thread of
  its own, lets the main thread destroy the engine while it is still joining, with the same end.  A signal before the flag is
  set is lost: the request is recorded, nobody reads it, and the engine runs.\<close>

theorem engine_stop_races:
  "(\<exists>acts s. exec (life_step True) acts (life_new b) = Some s \<and> el_outcome s = Terminated) \<and>
   (\<exists>acts s. exec (life_step False) (replicate 15 MainStep @ Signal # acts) (life_new b) = Some s \<and> el_outcome s = Terminated) \<and>
   (\<exists>acts s. exec (life_step True) acts (life_new b) = Some s \<and> el_shutdown_requested s \<and> el_handler s = HIdle \<and>
      el_main s = MLoop \<and> el_running s \<and> el_threads s = replicate 10 WRunning)"
proof (intro conjI)
  show "\<exists>acts s. exec (life_step True) acts (life_new b) = Some s \<and> el_outcome s = Terminated"
    by (rule exI [of _ "replicate 4 MainStep @ Signal # replicate 5 HandlerStep @ WorkerExit 0 # replicate 5 HandlerStep @ replicate 15 MainStep"])
      (simp add: life_step_def life_new_def destroy_threads_def eval_nat_numeral)
  show "\<exists>acts s. exec (life_step False) (replicate 15 MainStep @ Signal # acts) (life_new b) = Some s \<and> el_outcome s = Terminated"
    by (rule exI [of _ "replicate 3 HandlerStep @ replicate 4 MainStep"])
      (simp add: life_step_def life_new_def destroy_threads_def eval_nat_numeral)
  show "\<exists>acts s. exec (life_step True) acts (life_new b) = Some s \<and> el_shutdown_requested s \<and> el_handler s = HIdle \<and>
      el_main s = MLoop \<and> el_running s \<and> el_threads s = replicate 10 WRunning"
    by (rule exI [of _ "MainStep # Signal # replicate 3 HandlerStep @ replicate 14 MainStep"])
      (simp add: life_step_def life_new_def eval_nat_numeral)
qed

end
