(* ===== verification/Ring_Concurrent.thy ===== *)
theory Ring_Concurrent
  imports Ring_Buffer Step_Systems
begin

text \<open>
  The ring buffer of \<^verbatim>\<open>ring_buffer.h\<close> under concurrency: any number of producer threads and one
  consumer thread run the member functions at the same time, and every load, store and
  compare-exchange of a shared location is one step.  The shared memory is the record of
  \<open>Ring_Buffer\<close>; a program counter per thread holds the local variables of the function it is in.
  A \<^verbatim>\<open>compare_exchange_weak\<close> may fail although the value is the expected one.  Steps interleave
  sequentially consistently; the sources order the accesses to a slot's data by acquire and release on
  its sequence number, and \<open>mpsc_race_free\<close> shows that this is all the order they need.

  Three history variables record what happened: the pushes that took a position, in the order of
  their positions, the elements the consumer returned, and the calls of the producers that returned.
\<close>

section \<open>Threads and steps\<close>

datatype push_kind = TryPush | PushOverwrite | PushBlocking

datatype 'a prod_pc =
    PIdle
  | PLoad push_kind 'a
  | PSeq push_kind 'a u64
  | PCas push_kind 'a u64
  | PWrite push_kind 'a u64
  | PStore push_kind 'a u64
  | PDiscard 'a
  | PDiscardSeq 'a u64
  | PDiscardCas 'a u64
  | PDiscardStore 'a u64

datatype 'a cons_pc = CIdle | CSeq u64 | CMove u64 | CFree u64 'a | CAdvance u64 'a

record 'a ring_system =
  rs_buf :: "'a ring_buffer"
  rs_prods :: "'a prod_pc list"
  rs_cons :: "'a cons_pc"
  rs_claimed :: "(nat \<times> 'a) list"
  rs_popped :: "'a list"
  rs_returned :: "(nat \<times> 'a \<times> bool) list"

definition ring_system_new :: "'a \<Rightarrow> u64 \<Rightarrow> nat \<Rightarrow> 'a ring_system" where
  "ring_system_new dflt requested_capacity producers =
     \<lparr>rs_buf = ring_new dflt requested_capacity, rs_prods = replicate producers PIdle, rs_cons = CIdle,
      rs_claimed = [], rs_popped = [], rs_returned = []\<rparr>"

definition slot_at :: "u64 \<Rightarrow> 'a ring_buffer \<Rightarrow> 'a slot" where
  "slot_at pos rb = slots rb ! slot_index rb pos"

definition set_slot :: "u64 \<Rightarrow> 'a slot \<Rightarrow> 'a ring_buffer \<Rightarrow> 'a ring_buffer" where
  "set_slot pos sl rb = rb\<lparr>slots := (slots rb)[slot_index rb pos := sl]\<rparr>"

definition to_pc :: "nat \<Rightarrow> 'a prod_pc \<Rightarrow> 'a ring_system \<Rightarrow> 'a ring_system" where
  "to_pc t pc s = s\<lparr>rs_prods := (rs_prods s)[t := pc]\<rparr>"

definition returns :: "nat \<Rightarrow> 'a \<Rightarrow> bool \<Rightarrow> 'a ring_system \<Rightarrow> 'a ring_system" where
  "returns t x ok s = (to_pc t PIdle s)\<lparr>rs_returned := rs_returned s @ [(t, x, ok)]\<rparr>"

text \<open>What follows when \<^verbatim>\<open>try_push\<close> finds the buffer full: the caller gets \<open>False\<close>, retries, or goes
  to discard the oldest element first.\<close>

definition push_refused :: "nat \<Rightarrow> push_kind \<Rightarrow> 'a \<Rightarrow> 'a ring_system \<Rightarrow> 'a ring_system" where
  "push_refused t k x s =
     (case k of
        TryPush \<Rightarrow> returns t x False s
      | PushBlocking \<Rightarrow> to_pc t (PLoad k x) s
      | PushOverwrite \<Rightarrow> to_pc t (PDiscard x) s)"

text \<open>The next atomic step of a producer at a program counter.\<close>

fun prod_advance :: "nat \<Rightarrow> 'a prod_pc \<Rightarrow> 'a ring_system \<Rightarrow> 'a ring_system option" where
  "prod_advance t PIdle s = None"
| "prod_advance t (PLoad k x) s = Some (to_pc t (PSeq k x (write_pos (rs_buf s))) s)"
| "prod_advance t (PSeq k x pos) s =
     (let diff = seq_diff (sequence (slot_at pos (rs_buf s))) pos
      in Some (if diff = 0 then to_pc t (PCas k x pos) s
               else if diff < 0 then push_refused t k x s
               else to_pc t (PLoad k x) s))"
| "prod_advance t (PCas k x pos) s =
     Some (if write_pos (rs_buf s) = pos
           then (to_pc t (PWrite k x pos) s)\<lparr>rs_buf := (rs_buf s)\<lparr>write_pos := pos + 1\<rparr>,
                  rs_claimed := rs_claimed s @ [(t, x)]\<rparr>
           else to_pc t (PSeq k x (write_pos (rs_buf s))) s)"
| "prod_advance t (PWrite k x pos) s =
     Some ((to_pc t (PStore k x pos) s)\<lparr>rs_buf := set_slot pos ((slot_at pos (rs_buf s))\<lparr>data := x\<rparr>) (rs_buf s)\<rparr>)"
| "prod_advance t (PStore k x pos) s =
     Some ((returns t x True s)\<lparr>rs_buf := set_slot pos ((slot_at pos (rs_buf s))\<lparr>sequence := pos + 1\<rparr>) (rs_buf s)\<rparr>)"
| "prod_advance t (PDiscard x) s = Some (to_pc t (PDiscardSeq x (read_pos (rs_buf s))) s)"
| "prod_advance t (PDiscardSeq x rpos) s =
     Some (to_pc t (if seq_diff (sequence (slot_at rpos (rs_buf s))) (rpos + 1) = 0 then PDiscardCas x rpos
                    else PLoad PushOverwrite x) s)"
| "prod_advance t (PDiscardCas x rpos) s =
     Some (if read_pos (rs_buf s) = rpos
           then (to_pc t (PDiscardStore x rpos) s)\<lparr>rs_buf := (rs_buf s)\<lparr>read_pos := rpos + 1\<rparr>\<rparr>
           else to_pc t (PLoad PushOverwrite x) s)"
| "prod_advance t (PDiscardStore x rpos) s =
     Some ((to_pc t (PLoad PushOverwrite x) s)\<lparr>rs_buf := set_slot rpos
       ((slot_at rpos (rs_buf s))\<lparr>sequence := rpos + rb_mask (rs_buf s) + 1\<rparr>) (rs_buf s)\<rparr>)"

text \<open>The next atomic step of the consumer in \<^verbatim>\<open>pop\<close>.\<close>

fun cons_advance :: "'a cons_pc \<Rightarrow> 'a ring_system \<Rightarrow> 'a ring_system" where
  "cons_advance CIdle s = s\<lparr>rs_cons := CSeq (read_pos (rs_buf s))\<rparr>"
| "cons_advance (CSeq pos) s =
     s\<lparr>rs_cons := (if seq_diff (sequence (slot_at pos (rs_buf s))) (pos + 1) = 0 then CMove pos else CIdle)\<rparr>"
| "cons_advance (CMove pos) s = s\<lparr>rs_cons := CFree pos (data (slot_at pos (rs_buf s)))\<rparr>"
| "cons_advance (CFree pos x) s =
     s\<lparr>rs_cons := CAdvance pos x,
       rs_buf := set_slot pos ((slot_at pos (rs_buf s))\<lparr>sequence := pos + rb_mask (rs_buf s) + 1\<rparr>) (rs_buf s)\<rparr>"
| "cons_advance (CAdvance pos x) s =
     s\<lparr>rs_cons := CIdle, rs_buf := (rs_buf s)\<lparr>read_pos := pos + 1\<rparr>, rs_popped := rs_popped s @ [x]\<rparr>"

text \<open>A thread calls one of the push functions when it is in none; otherwise it takes its next step.\<close>

datatype 'a ring_act = CallPush nat push_kind 'a | StepProd nat | SpuriousCas nat | StepCons

fun ring_step :: "'a ring_act \<Rightarrow> 'a ring_system \<Rightarrow> 'a ring_system option" where
  "ring_step (CallPush t k x) s =
     (if t < length (rs_prods s) \<and> rs_prods s ! t = PIdle then Some (to_pc t (PLoad k x) s) else None)"
| "ring_step (StepProd t) s = (if t < length (rs_prods s) then prod_advance t (rs_prods s ! t) s else None)"
| "ring_step (SpuriousCas t) s =
     (if t < length (rs_prods s)
      then (case rs_prods s ! t of PCas k x pos \<Rightarrow> Some (to_pc t (PSeq k x (write_pos (rs_buf s))) s) | _ \<Rightarrow> None)
      else None)"
| "ring_step StepCons s = Some (cons_advance (rs_cons s) s)"

lemma ring_new_2: "ring_new z 2 = \<lparr>rb_mask = 1, write_pos = 0, read_pos = 0,
    slots = [\<lparr>sequence = 0, data = z\<rparr>, \<lparr>sequence = 1, data = z\<rparr>]\<rparr>"
  by (simp add: ring_new_def next_power_of_2_def Let_def upt_rec word_le_nat_alt)

end
