(* ===== verification/Ring_Mpsc.thy ===== *)
theory Ring_Mpsc
  imports Ring_Concurrent
begin

text \<open>
  The ring buffer with any number of producers and one consumer, over every schedule of their
  steps, as long as no \<^verbatim>\<open>push_overwrite\<close> finds the buffer full.  The invariant counts positions as natural
  numbers: the window of the \<open>2 ^ k\<close> positions from the first one the consumer has not given back,
  what each slot of the window holds, and what each thread knows at its program counter.  Positions stay
  below \<open>2 ^ 62\<close>, so that the 64-bit counters do not wrap and differences keep their sign.
\<close>

section \<open>Positions in the window\<close>

lemma unat_small: "n < 2 ^ 63 \<Longrightarrow> unat (word_of_nat n :: u64) = n"
  by (simp add: unat_of_nat)

lemma word_of_nat_eq: "m < 2 ^ 63 \<Longrightarrow> n < 2 ^ 63 \<Longrightarrow> (word_of_nat m :: u64) = word_of_nat n \<longleftrightarrow> m = n"
  using unat_small [of m] unat_small [of n] by metis

lemma seq_diff_neg:
  assumes "m < 2 ^ 63" "n < 2 ^ 63"
  shows "seq_diff (word_of_nat m) (word_of_nat n) < 0 \<longleftrightarrow> m < n"
proof -
  have "word_of_nat m - word_of_nat n = (word_of_int (int m - int n) :: u64)" by simp
  moreover have "sint (word_of_int (int m - int n) :: u64) = int m - int n"
    using assms by (subst sint_sbintrunc') (simp add: signed_take_bit_int_eq_self)
  ultimately show ?thesis by (simp add: seq_diff_def)
qed

lemma slot_index_nat:
  assumes "rb_mask rb = mask k" "k \<le> 62" "n < 2 ^ 63"
  shows "slot_index rb (word_of_nat n) = n mod 2 ^ k"
  using assms by (simp add: slot_index_def unat_and_mask_mod unat_small)

text \<open>Two positions in a window of the size of the ring have different slots.\<close>

lemma window_mod_inj:
  fixes m n :: nat
  assumes "F \<le> m" "m < F + c" "F \<le> n" "n < F + c"
  shows "m mod c = n mod c \<longleftrightarrow> m = n"
proof
  assume eq: "m mod c = n mod c"
  show "m = n"
  proof (rule linorder_cases [of m n])
    assume "m < n"
    then have "c dvd n - m" using eq by (simp add: mod_eq_dvd_iff_nat [symmetric])
    with \<open>m < n\<close> assms have False by (auto dest: dvd_imp_le)
    then show ?thesis ..
  next
    assume "n < m"
    then have "c dvd m - n" using eq by (simp add: mod_eq_dvd_iff_nat [symmetric])
    with \<open>n < m\<close> assms have False by (auto dest: dvd_imp_le)
    then show ?thesis ..
  qed
qed simp

lemma window_rep:
  fixes n F c :: nat
  assumes "0 < c"
  obtains m where "F \<le> m" "m < F + c" "m mod c = n mod c"
proof
  let ?m = "F + (n + (c - 1) * F) mod c"
  show "F \<le> ?m" "?m < F + c" using assms by simp_all
  have "?m mod c = (F + (n + (c - 1) * F)) mod c" by (simp add: mod_add_right_eq)
  also have "F + (n + (c - 1) * F) = n + c * F" using assms by (cases c) simp_all
  finally show "?m mod c = n mod c" by simp
qed

text \<open>
  The slots of the window of positions \<open>F, \<dots>\<close> of which \<open>W\<close> have been taken: a slot's sequence number
  is the position it waits for, or one more when its data is published.
\<close>

definition slots_ok :: "nat \<Rightarrow> nat \<Rightarrow> nat \<Rightarrow> (nat \<Rightarrow> bool) \<Rightarrow> (nat \<times> 'a) list \<Rightarrow> 'a slot list \<Rightarrow> bool" where
  "slots_ok k F W wr cl sls \<longleftrightarrow> length sls = 2 ^ k \<and>
     (\<forall>n. F \<le> n \<longrightarrow> n < F + 2 ^ k \<longrightarrow>
        sequence (sls ! (n mod 2 ^ k)) = word_of_nat (if n < W \<and> \<not> wr n then Suc n else n)) \<and>
     (\<forall>n. F \<le> n \<longrightarrow> n < W \<longrightarrow> \<not> wr n \<longrightarrow> data (sls ! (n mod 2 ^ k)) = snd (cl ! n))"

lemma slots_ok_claim:
  assumes "slots_ok k F W wr cl sls" "W = length cl" "\<And>n. wr' n \<longleftrightarrow> wr n \<or> n = W"
  shows "slots_ok k F (Suc W) wr' (cl @ [e]) sls"
  using assms by (auto simp: slots_ok_def nth_append)

lemma slots_ok_write:
  assumes "slots_ok k F W wr cl sls" "F \<le> n" "n < W" "W \<le> F + 2 ^ k" "wr n"
  shows "slots_ok k F W wr cl (sls[n mod 2 ^ k := (sls ! (n mod 2 ^ k))\<lparr>data := x\<rparr>])"
  using assms window_mod_inj [of F n "2 ^ k"] by (auto simp: slots_ok_def nth_list_update)

lemma slots_ok_publish:
  assumes "slots_ok k F W wr cl sls" "F \<le> n" "n < W" "W \<le> F + 2 ^ k"
    and "data (sls ! (n mod 2 ^ k)) = snd (cl ! n)" "\<And>m. wr' m \<longleftrightarrow> wr m \<and> m \<noteq> n"
  shows "slots_ok k F W wr' cl (sls[n mod 2 ^ k := (sls ! (n mod 2 ^ k))\<lparr>sequence := word_of_nat (Suc n)\<rparr>])"
  using assms window_mod_inj [of F n "2 ^ k"] by (auto simp: slots_ok_def nth_list_update)

lemma slots_ok_free:
  assumes "slots_ok k F W wr cl sls" "W \<le> F + 2 ^ k"
  shows "slots_ok k (Suc F) W wr cl (sls[F mod 2 ^ k := (sls ! (F mod 2 ^ k))\<lparr>sequence := word_of_nat (F + 2 ^ k)\<rparr>])"
proof -
  let ?sls = "sls[F mod 2 ^ k := (sls ! (F mod 2 ^ k))\<lparr>sequence := word_of_nat (F + 2 ^ k)\<rparr>]"
  have slot: "?sls ! (n mod 2 ^ k) = (if n = F + 2 ^ k then (sls ! (F mod 2 ^ k))\<lparr>sequence := word_of_nat (F + 2 ^ k)\<rparr>
      else sls ! (n mod 2 ^ k))" if "F < n" "n \<le> F + 2 ^ k" for n
    using window_mod_inj [of "Suc F" n "2 ^ k" "F + 2 ^ k"] that assms(1) by (auto simp: slots_ok_def nth_list_update)
  show ?thesis
    unfolding slots_ok_def
  proof (intro conjI allI impI)
    fix n
    assume "Suc F \<le> n" "n < Suc F + 2 ^ k"
    with slot [of n] assms show "sequence (?sls ! (n mod 2 ^ k)) = word_of_nat (if n < W \<and> \<not> wr n then Suc n else n)"
      by (simp add: slots_ok_def)
  next
    fix n
    assume "Suc F \<le> n" "n < W" "\<not> wr n"
    with slot [of n] assms show "data (?sls ! (n mod 2 ^ k)) = snd (cl ! n)" by (simp add: slots_ok_def)
  qed (use assms in \<open>simp add: slots_ok_def\<close>)
qed

section \<open>The invariant\<close>

fun owned :: "'a prod_pc \<Rightarrow> (u64 \<times> 'a) option" where
  "owned (PWrite k x pos) = Some (pos, x)"
| "owned (PStore k x pos) = Some (pos, x)"
| "owned _ = None"

definition owns :: "'a prod_pc \<Rightarrow> nat \<Rightarrow> bool" where
  "owns pc n \<longleftrightarrow> (\<exists>pos x. owned pc = Some (pos, x) \<and> unat pos = n)"

definition writing :: "'a ring_system \<Rightarrow> nat \<Rightarrow> bool" where
  "writing s n \<longleftrightarrow> (\<exists>t < length (rs_prods s). owns (rs_prods s ! t) n)"

text \<open>How many positions the consumer has given back, and how many are taken.\<close>

definition freed :: "'a ring_system \<Rightarrow> nat" where
  "freed s = length (rs_popped s) + (case rs_cons s of CAdvance _ _ \<Rightarrow> 1 | _ \<Rightarrow> 0)"

abbreviation taken :: "'a ring_system \<Rightarrow> nat" where
  "taken s \<equiv> length (rs_claimed s)"

fun prod_ok :: "nat \<Rightarrow> 'a ring_system \<Rightarrow> nat \<Rightarrow> 'a prod_pc \<Rightarrow> bool" where
  "prod_ok k s t PIdle \<longleftrightarrow> True"
| "prod_ok k s t (PLoad kd x) \<longleftrightarrow> True"
| "prod_ok k s t (PSeq kd x pos) \<longleftrightarrow> unat pos \<le> taken s"
| "prod_ok k s t (PCas kd x pos) \<longleftrightarrow> unat pos \<le> taken s \<and>
     (unat pos = taken s \<longrightarrow> taken s < freed s + 2 ^ k)"
| "prod_ok k s t (PWrite kd x pos) \<longleftrightarrow>
     freed s \<le> unat pos \<and> unat pos < taken s \<and> rs_claimed s ! unat pos = (t, x)"
| "prod_ok k s t (PStore kd x pos) \<longleftrightarrow>
     freed s \<le> unat pos \<and> unat pos < taken s \<and> rs_claimed s ! unat pos = (t, x) \<and>
     data (slots (rs_buf s) ! (unat pos mod 2 ^ k)) = x"
| "prod_ok k s t _ \<longleftrightarrow> False"

text \<open>The consumer is at the read position and, from the successful check on, at a published slot.\<close>

fun cons_ok :: "'a ring_system \<Rightarrow> 'a cons_pc \<Rightarrow> bool" where
  "cons_ok s CIdle \<longleftrightarrow> True"
| "cons_ok s (CSeq pos) \<longleftrightarrow> pos = read_pos (rs_buf s)"
| "cons_ok s (CMove pos) \<longleftrightarrow> pos = read_pos (rs_buf s) \<and> freed s < taken s \<and> \<not> writing s (freed s)"
| "cons_ok s (CFree pos x) \<longleftrightarrow> pos = read_pos (rs_buf s) \<and> freed s < taken s \<and> \<not> writing s (freed s) \<and>
     x = snd (rs_claimed s ! freed s)"
| "cons_ok s (CAdvance pos x) \<longleftrightarrow> pos = read_pos (rs_buf s) \<and> freed s \<le> taken s \<and>
     x = snd (rs_claimed s ! length (rs_popped s))"

definition mpsc_inv :: "nat \<Rightarrow> 'a ring_system \<Rightarrow> bool" where
  "mpsc_inv k s \<longleftrightarrow> 1 \<le> k \<and> k \<le> 62 \<and> rb_mask (rs_buf s) = mask k \<and>
     write_pos (rs_buf s) = word_of_nat (taken s) \<and> read_pos (rs_buf s) = word_of_nat (length (rs_popped s)) \<and>
     freed s \<le> taken s \<and> taken s \<le> freed s + 2 ^ k \<and> rs_popped s = map snd (take (length (rs_popped s)) (rs_claimed s)) \<and>
     slots_ok k (freed s) (taken s) (writing s) (rs_claimed s) (slots (rs_buf s)) \<and>
     (\<forall>t < length (rs_prods s). prod_ok k s t (rs_prods s ! t)) \<and> cons_ok s (rs_cons s)"

lemma mpsc_invD:
  assumes "mpsc_inv k s"
  shows "1 \<le> k" "k \<le> 62" "rb_mask (rs_buf s) = mask k" "write_pos (rs_buf s) = word_of_nat (taken s)"
    "read_pos (rs_buf s) = word_of_nat (length (rs_popped s))" "freed s \<le> taken s" "taken s \<le> freed s + 2 ^ k"
    "slots_ok k (freed s) (taken s) (writing s) (rs_claimed s) (slots (rs_buf s))" "cons_ok s (rs_cons s)"
    "\<And>t. t < length (rs_prods s) \<Longrightarrow> prod_ok k s t (rs_prods s ! t)" "length (slots (rs_buf s)) = 2 ^ k"
    "rs_popped s = map snd (take (length (rs_popped s)) (rs_claimed s))"
  using assms by (simp_all add: mpsc_inv_def slots_ok_def)

lemma mpsc_small:
  assumes "mpsc_inv k s" "taken s < 2 ^ 62" "n \<le> freed s + 2 ^ k"
  shows "n < 2 ^ 63"
  using mpsc_invD(2,6) [OF assms(1)] assms(2,3) power_increasing [of k 62 "2::nat"] by simp

lemma slot_at_nat:
  "mpsc_inv k s \<Longrightarrow> n < 2 ^ 63 \<Longrightarrow> slot_at (word_of_nat n) (rs_buf s) = slots (rs_buf s) ! (n mod 2 ^ k)"
  by (simp add: slot_at_def slot_index_nat [where k = k] mpsc_invD)

lemma set_slot_nat:
  "mpsc_inv k s \<Longrightarrow> n < 2 ^ 63 \<Longrightarrow> set_slot (word_of_nat n) sl (rs_buf s) =
     (rs_buf s)\<lparr>slots := (slots (rs_buf s))[n mod 2 ^ k := sl]\<rparr>"
  by (simp add: set_slot_def slot_index_nat [where k = k] mpsc_invD)

lemma mpsc_seq:
  "mpsc_inv k s \<Longrightarrow> freed s \<le> n \<Longrightarrow> n < freed s + 2 ^ k \<Longrightarrow>
     sequence (slots (rs_buf s) ! (n mod 2 ^ k)) = word_of_nat (if n < taken s \<and> \<not> writing s n then Suc n else n)"
  by (simp add: mpsc_inv_def slots_ok_def)

text \<open>What the comparison of a slot's sequence number with a position that was read earlier tells.\<close>

lemma seq_at_write:
  assumes inv: "mpsc_inv k s" and small: "taken s < 2 ^ 62"
  shows "if taken s < freed s + 2 ^ k
    then seq_diff (sequence (slot_at (word_of_nat (taken s)) (rs_buf s))) (word_of_nat (taken s)) = 0
    else seq_diff (sequence (slot_at (word_of_nat (taken s)) (rs_buf s))) (word_of_nat (taken s)) < 0"
proof (cases "taken s < freed s + 2 ^ k")
  case True
  with mpsc_seq [OF inv mpsc_invD(6) [OF inv]] slot_at_nat [OF inv, of "taken s"] small show ?thesis by simp
next
  case False
  then have full: "taken s = freed s + 2 ^ k" using mpsc_invD(7) [OF inv] by simp
  have k: "(2::nat) ^ 1 \<le> 2 ^ k" using mpsc_invD(1) [OF inv] by (intro power_increasing) simp_all
  let ?n = "if writing s (freed s) then freed s else Suc (freed s)"
  have "sequence (slot_at (word_of_nat (taken s)) (rs_buf s)) = word_of_nat ?n"
    using mpsc_seq [OF inv, of "freed s"] full slot_at_nat [OF inv, of "taken s"] small k by simp
  with False seq_diff_neg [of ?n "taken s"] full k small show ?thesis by simp
qed

lemma seq_match:
  assumes "mpsc_inv k s" and "taken s < 2 ^ 62"
    and "seq_diff (sequence (slot_at (word_of_nat (taken s)) (rs_buf s))) (word_of_nat (taken s)) = 0"
  shows "taken s < freed s + 2 ^ k"
  using seq_at_write [OF assms(1,2)] assms(3) by (simp split: if_splits)

lemma seq_behind:
  assumes inv: "mpsc_inv k s" and small: "taken s < 2 ^ 62" and n: "n \<le> taken s"
    and less: "seq_diff (sequence (slot_at (word_of_nat n) (rs_buf s))) (word_of_nat n) < 0"
  shows "taken s = freed s + 2 ^ k"
proof (rule ccontr)
  assume "\<not> ?thesis"
  then have room: "taken s < freed s + 2 ^ k" using mpsc_invD(7) [OF inv] by simp
  obtain m where m: "freed s \<le> m" "m < freed s + 2 ^ k" "m mod 2 ^ k = n mod 2 ^ k"
    using window_rep [of "2 ^ k" "freed s" n] by auto
  have "n \<le> m"
    using m n room window_mod_inj [of "freed s" m "2 ^ k" n] by (cases "freed s \<le> n") simp_all
  moreover have small': "n < 2 ^ 63" "Suc m < 2 ^ 63" using n small mpsc_small [OF inv small, of "Suc m"] m by simp_all
  moreover have "sequence (slot_at (word_of_nat n) (rs_buf s)) = word_of_nat (if m < taken s \<and> \<not> writing s m then Suc m else m)"
    using mpsc_seq [OF inv m(1,2)] m(3) slot_at_nat [OF inv small'(1)] by simp
  ultimately show False using less seq_diff_neg [of _ n] by (simp split: if_splits)
qed

lemma published_iff:
  assumes inv: "mpsc_inv k s" and small: "taken s < 2 ^ 62" and F: "freed s = length (rs_popped s)"
  shows "seq_diff (sequence (slot_at (read_pos (rs_buf s)) (rs_buf s))) (read_pos (rs_buf s) + 1) = 0 \<longleftrightarrow>
    freed s < taken s \<and> \<not> writing s (freed s)"
proof -
  have b: "Suc (freed s) < 2 ^ 63" using mpsc_invD(6) [OF inv] small by simp
  have "read_pos (rs_buf s) = word_of_nat (freed s)" using mpsc_invD(5) [OF inv] F by simp
  with mpsc_seq [OF inv, of "freed s"] slot_at_nat [OF inv, of "freed s"] word_of_nat_eq [of "freed s" "Suc (freed s)"] b
  show ?thesis by simp
qed

section \<open>Every step keeps the invariant\<close>

lemma to_pc_simps [simp]:
  "rs_buf (to_pc t pc s) = rs_buf s" "rs_claimed (to_pc t pc s) = rs_claimed s" "rs_popped (to_pc t pc s) = rs_popped s"
  "rs_cons (to_pc t pc s) = rs_cons s" "length (rs_prods (to_pc t pc s)) = length (rs_prods s)"
  "freed (to_pc t pc s) = freed s" "rs_prods (to_pc t pc s) = (rs_prods s)[t := pc]"
  by (simp_all add: to_pc_def freed_def)

lemma prod_ok_cong:
  "rs_claimed s = rs_claimed s' \<Longrightarrow> freed s = freed s' \<Longrightarrow> slots (rs_buf s) = slots (rs_buf s') \<Longrightarrow>
     prod_ok k s t pc = prod_ok k s' t pc"
  by (cases pc) simp_all

lemma prod_ok_to_pc [simp]: "prod_ok k (to_pc u q s) t pc = prod_ok k s t pc"
  by (rule prod_ok_cong) simp_all

lemma writing_to_pc:
  assumes "t < length (rs_prods s)" "owned pc = owned (rs_prods s ! t)"
  shows "writing (to_pc t pc s) = writing s"
proof -
  have "owned ((rs_prods s)[t := pc] ! u) = owned (rs_prods s ! u)" for u
    using assms by (cases "u = t") simp_all
  then show ?thesis by (simp add: writing_def owns_def fun_eq_iff)
qed

lemma cons_ok_cong:
  "rs_claimed s = rs_claimed s' \<Longrightarrow> freed s = freed s' \<Longrightarrow> read_pos (rs_buf s) = read_pos (rs_buf s') \<Longrightarrow>
     rs_popped s = rs_popped s' \<Longrightarrow> writing s (freed s) = writing s' (freed s') \<Longrightarrow> cons_ok s c = cons_ok s' c"
  by (cases c) simp_all

lemma mpsc_to_pc:
  assumes "mpsc_inv k s" "t < length (rs_prods s)" "owned pc = owned (rs_prods s ! t)" "prod_ok k s t pc"
  shows "mpsc_inv k (to_pc t pc s)"
proof -
  note w = writing_to_pc [OF assms(2,3)]
  have "cons_ok (to_pc t pc s) (rs_cons s)"
    using mpsc_invD(9) [OF assms(1)] cons_ok_cong [of "to_pc t pc s" s] w by simp
  with assms w show ?thesis by (simp add: mpsc_inv_def nth_list_update)
qed

lemma mpsc_returned: "mpsc_inv k (s\<lparr>rs_returned := r\<rparr>) = mpsc_inv k s"
proof -
  have w: "writing (s\<lparr>rs_returned := r\<rparr>) = writing s" by (simp add: writing_def fun_eq_iff)
  have f: "freed (s\<lparr>rs_returned := r\<rparr>) = freed s" by (simp add: freed_def)
  have p: "prod_ok k (s\<lparr>rs_returned := r\<rparr>) t pc = prod_ok k s t pc" for t pc by (rule prod_ok_cong) (simp_all add: f)
  have "cons_ok (s\<lparr>rs_returned := r\<rparr>) c = cons_ok s c" for c by (rule cons_ok_cong) (simp_all add: w f)
  with w f p show ?thesis by (simp add: mpsc_inv_def)
qed

lemma writing_update:
  assumes "t < length (rs_prods s)" "rs_prods s' = (rs_prods s)[t := pc]"
  shows "writing s' n \<longleftrightarrow> owns pc n \<or> (\<exists>u < length (rs_prods s). u \<noteq> t \<and> owns (rs_prods s ! u) n)"
  using assms by (auto simp: writing_def nth_list_update)

lemma writing_split:
  assumes "t < length (rs_prods s)"
  shows "writing s n \<longleftrightarrow> owns (rs_prods s ! t) n \<or> (\<exists>u < length (rs_prods s). u \<noteq> t \<and> owns (rs_prods s ! u) n)"
  using assms by (auto simp: writing_def)

text \<open>The position a producer owns was taken by itself, so no two producers own the same.\<close>

lemma owns_claimed:
  assumes "mpsc_inv k s" "t < length (rs_prods s)" "owns (rs_prods s ! t) n"
  shows "freed s \<le> n" "n < taken s" "fst (rs_claimed s ! n) = t"
  using mpsc_invD(10) [OF assms(1,2)] assms(3)
  by (cases "rs_prods s ! t"; auto simp: owns_def)+

lemma writing_window: "mpsc_inv k s \<Longrightarrow> writing s n \<Longrightarrow> freed s \<le> n \<and> n < taken s"
  using owns_claimed by (fastforce simp: writing_def)

lemma prod_ok_claim:
  "prod_ok k s t pc \<Longrightarrow> rs_claimed s' = rs_claimed s @ [e] \<Longrightarrow> freed s' = freed s \<Longrightarrow>
     slots (rs_buf s') = slots (rs_buf s) \<Longrightarrow> prod_ok k s' t pc"
  by (cases pc) (auto simp: nth_append)

lemma cons_ok_claim:
  "cons_ok s c \<Longrightarrow> rs_claimed s' = rs_claimed s @ [e] \<Longrightarrow> freed s' = freed s \<Longrightarrow> rs_popped s' = rs_popped s \<Longrightarrow>
     read_pos (rs_buf s') = read_pos (rs_buf s) \<Longrightarrow> (freed s < taken s \<Longrightarrow> writing s' (freed s) = writing s (freed s)) \<Longrightarrow>
     length (rs_popped s) + (case c of CAdvance _ _ \<Rightarrow> 1 | _ \<Rightarrow> 0) \<le> taken s \<Longrightarrow> cons_ok s' c"
  by (cases c) (auto simp: nth_append)

lemma mpsc_claim:
  assumes inv: "mpsc_inv k s" and t: "t < length (rs_prods s)" and pc: "rs_prods s ! t = PCas kd x pos"
    and eq: "write_pos (rs_buf s) = pos" and small: "Suc (taken s) < 2 ^ 62"
  shows "mpsc_inv k ((to_pc t (PWrite kd x pos) s)\<lparr>rs_buf := (rs_buf s)\<lparr>write_pos := pos + 1\<rparr>,
      rs_claimed := rs_claimed s @ [(t, x)]\<rparr>)" (is "mpsc_inv k ?s")
proof -
  note I = mpsc_invD [OF inv]
  have pos: "pos = word_of_nat (taken s)" using I(4) eq by simp
  then have room: "taken s < freed s + 2 ^ k"
    using I(10) [OF t] pc small by (simp_all add: unat_small)
  have F: "freed ?s = freed s" by (simp add: freed_def)
  have wr: "writing ?s n \<longleftrightarrow> writing s n \<or> n = taken s" for n
    using writing_update [OF t, of ?s "PWrite kd x pos" n] writing_split [OF t, of n] pc pos small
    by (auto simp: owns_def unat_small)
  have sl: "slots_ok k (freed s) (Suc (taken s)) (writing ?s) (rs_claimed s @ [(t, x)]) (slots (rs_buf s))"
    by (rule slots_ok_claim [OF I(8) refl wr])
  have pr: "prod_ok k ?s u ((rs_prods s)[t := PWrite kd x pos] ! u)" if "u < length (rs_prods s)" for u
    using prod_ok_claim [OF I(10) [OF that], of ?s "(t, x)"] pos F I(6) small that
    by (cases "u = t") (auto simp: unat_small)
  have co: "cons_ok ?s (rs_cons s)"
    using cons_ok_claim [OF I(9), of ?s "(t, x)"] F wr [of "freed s"] I(6) by (simp add: freed_def)
  from I F room sl pr co pos show ?thesis by (simp add: mpsc_inv_def freed_def)
qed

text \<open>Filling and publishing a slot.\<close>

lemma prod_ok_slot:
  assumes "prod_ok k s u pc" "rs_claimed s' = rs_claimed s" "freed s' = freed s"
    and "\<And>n. owns pc n \<Longrightarrow> data (slots (rs_buf s') ! (n mod 2 ^ k)) = data (slots (rs_buf s) ! (n mod 2 ^ k))"
  shows "prod_ok k s' u pc"
  using assms by (cases pc) (auto simp: owns_def)

lemma mpsc_write:
  assumes inv: "mpsc_inv k s" and t: "t < length (rs_prods s)" and pc: "rs_prods s ! t = PWrite kd x pos"
    and small: "taken s < 2 ^ 62"
  shows "mpsc_inv k ((to_pc t (PStore kd x pos) s)\<lparr>rs_buf :=
      set_slot pos ((slot_at pos (rs_buf s))\<lparr>data := x\<rparr>) (rs_buf s)\<rparr>)" (is "mpsc_inv k ?s")
proof -
  note I = mpsc_invD [OF inv]
  define n where "n = unat pos"
  have n: "freed s \<le> n" "n < taken s" "rs_claimed s ! n = (t, x)" "pos = word_of_nat n"
    using I(10) [OF t] pc by (simp_all add: n_def)
  have own: "owns (rs_prods s ! t) n" by (simp add: pc owns_def n_def)
  let ?sls = "(slots (rs_buf s))[n mod 2 ^ k := (slots (rs_buf s) ! (n mod 2 ^ k))\<lparr>data := x\<rparr>]"
  have buf: "rs_buf ?s = (rs_buf s)\<lparr>slots := ?sls\<rparr>"
    using n small by (simp add: slot_at_nat [OF inv] set_slot_nat [OF inv])
  have F: "freed ?s = freed s" by (simp add: freed_def)
  have wr: "writing ?s = writing s"
    using writing_update [OF t, of ?s "PStore kd x pos"] writing_split [OF t] pc by (simp add: fun_eq_iff owns_def)
  have sl: "slots_ok k (freed s) (taken s) (writing s) (rs_claimed s) ?sls"
    using slots_ok_write [OF I(8) n(1,2) I(7)] own t by (auto simp: writing_def)
  have other: "data (?sls ! (m mod 2 ^ k)) = data (slots (rs_buf s) ! (m mod 2 ^ k))"
    if "u < length (rs_prods s)" "u \<noteq> t" "owns (rs_prods s ! u) m" for u m
    using owns_claimed [OF inv that(1,3)] n that(2) I(7) window_mod_inj [of "freed s" n "2 ^ k" m]
    by (auto simp: nth_list_update)
  have pr: "prod_ok k ?s u ((rs_prods s)[t := PStore kd x pos] ! u)" if "u < length (rs_prods s)" for u
    using prod_ok_slot [OF I(10) [OF that], of ?s] other [OF that] n(1-3) F buf I(11) that
    by (cases "u = t") (simp_all add: n_def [symmetric])
  have co: "cons_ok ?s (rs_cons s)"
    using cons_ok_cong [of ?s s "rs_cons s"] I(9) F wr buf by simp
  from I F sl pr co wr buf show ?thesis by (simp add: mpsc_inv_def)
qed

lemma mpsc_publish:
  assumes inv: "mpsc_inv k s" and t: "t < length (rs_prods s)" and pc: "rs_prods s ! t = PStore kd x pos"
    and small: "taken s < 2 ^ 62"
  shows "mpsc_inv k ((to_pc t PIdle s)\<lparr>rs_buf :=
      set_slot pos ((slot_at pos (rs_buf s))\<lparr>sequence := pos + 1\<rparr>) (rs_buf s)\<rparr>)" (is "mpsc_inv k ?s")
proof -
  note I = mpsc_invD [OF inv]
  define n where "n = unat pos"
  have n: "freed s \<le> n" "n < taken s" "rs_claimed s ! n = (t, x)" "pos = word_of_nat n"
      "data (slots (rs_buf s) ! (n mod 2 ^ k)) = x"
    using I(10) [OF t] pc by (simp_all add: n_def)
  let ?sls = "(slots (rs_buf s))[n mod 2 ^ k := (slots (rs_buf s) ! (n mod 2 ^ k))\<lparr>sequence := word_of_nat (Suc n)\<rparr>]"
  have buf: "rs_buf ?s = (rs_buf s)\<lparr>slots := ?sls\<rparr>"
    using n small by (simp add: slot_at_nat [OF inv] set_slot_nat [OF inv] add.commute)
  have F: "freed ?s = freed s" by (simp add: freed_def)
  have wr: "writing ?s m \<longleftrightarrow> writing s m \<and> m \<noteq> n" for m
    using writing_update [OF t, of ?s PIdle m] writing_split [OF t, of m] owns_claimed(3) [OF inv, of _ n] n(3) pc
    by (auto simp: owns_def n_def [symmetric])
  have sl: "slots_ok k (freed s) (taken s) (writing ?s) (rs_claimed s) ?sls"
    using slots_ok_publish [OF I(8) n(1,2) I(7) _ wr] n by simp
  have pr: "prod_ok k ?s u ((rs_prods s)[t := PIdle] ! u)" if "u < length (rs_prods s)" for u
    using prod_ok_slot [OF I(10) [OF that], of ?s] F buf that by (cases "u = t") (simp_all add: nth_list_update I(11))
  have co: "cons_ok ?s (rs_cons s)"
    using I(9) F wr [of "freed s"] buf by (cases "rs_cons s") simp_all
  from I F sl pr co buf show ?thesis by (simp add: mpsc_inv_def)
qed

text \<open>The steps of the consumer.\<close>

lemma freed_idle: "\<not> (\<exists>pos x. rs_cons s = CAdvance pos x) \<Longrightarrow> freed s = length (rs_popped s)"
  by (auto simp: freed_def split: cons_pc.split)

lemma mpsc_cons_pc:
  assumes "mpsc_inv k s" and "freed (s\<lparr>rs_cons := c\<rparr>) = freed s" and "cons_ok s c"
  shows "mpsc_inv k (s\<lparr>rs_cons := c\<rparr>)"
proof -
  have w: "writing (s\<lparr>rs_cons := c\<rparr>) = writing s" by (simp add: writing_def fun_eq_iff)
  have p: "prod_ok k (s\<lparr>rs_cons := c\<rparr>) t pc = prod_ok k s t pc" for t pc by (rule prod_ok_cong) (simp_all add: assms(2))
  have "cons_ok (s\<lparr>rs_cons := c\<rparr>) c" using assms(3) cons_ok_cong [of "s\<lparr>rs_cons := c\<rparr>" s c] by (simp add: assms(2) w)
  with assms(1,2) w p show ?thesis by (simp add: mpsc_inv_def)
qed

lemma prod_ok_free:
  assumes "prod_ok k s u pc" "rs_claimed s' = rs_claimed s" "freed s' = Suc (freed s)" "\<not> owns pc (freed s)"
    and "\<And>n. owns pc n \<Longrightarrow> data (slots (rs_buf s') ! (n mod 2 ^ k)) = data (slots (rs_buf s) ! (n mod 2 ^ k))"
  shows "prod_ok k s' u pc"
  using assms by (cases pc) (auto simp: owns_def)

lemma mpsc_free:
  assumes inv: "mpsc_inv k s" and c: "rs_cons s = CFree pos x" and small: "taken s < 2 ^ 62"
  shows "mpsc_inv k (cons_advance (CFree pos x) s)" (is "mpsc_inv k ?s")
proof -
  note I = mpsc_invD [OF inv]
  have F0: "freed s = length (rs_popped s)" using c by (simp add: freed_def)
  have F: "freed ?s = Suc (freed s)" using c by (simp add: freed_def)
  have co: "pos = word_of_nat (freed s)" "freed s < taken s" "\<not> writing s (freed s)" "x = snd (rs_claimed s ! freed s)"
    using I(5,9) c F0 by simp_all
  let ?sls = "(slots (rs_buf s))[freed s mod 2 ^ k := (slots (rs_buf s) ! (freed s mod 2 ^ k))\<lparr>sequence := word_of_nat (freed s + 2 ^ k)\<rparr>]"
  have seq: "pos + rb_mask (rs_buf s) + 1 = word_of_nat (freed s + 2 ^ k)"
    using I(3) co(1) by (simp add: mask_eq_exp_minus_1)
  have buf: "rs_buf ?s = (rs_buf s)\<lparr>slots := ?sls\<rparr>"
    unfolding cons_advance.simps seq using co(1,2) small by (simp add: slot_at_nat [OF inv] set_slot_nat [OF inv])
  have wr: "writing ?s = writing s" by (simp add: writing_def fun_eq_iff)
  have sl: "slots_ok k (Suc (freed s)) (taken s) (writing s) (rs_claimed s) ?sls"
    by (rule slots_ok_free [OF I(8,7)])
  have pr: "prod_ok k ?s u (rs_prods s ! u)" if "u < length (rs_prods s)" for u
  proof (rule prod_ok_free [OF I(10) [OF that] _ F])
    show "\<not> owns (rs_prods s ! u) (freed s)" using co(3) that by (simp add: writing_def)
  qed (auto simp: buf nth_list_update I(11) simp del: cons_advance.simps, simp)
  have "cons_ok ?s (CAdvance pos x)" using I(5) co F F0 buf by simp
  with I F sl pr co wr buf show ?thesis by (simp add: mpsc_inv_def)
qed

lemma mpsc_advance:
  assumes inv: "mpsc_inv k s" and c: "rs_cons s = CAdvance pos x"
  shows "mpsc_inv k (cons_advance (CAdvance pos x) s)" (is "mpsc_inv k ?s")
proof -
  note I = mpsc_invD [OF inv]
  have F0: "freed s = Suc (length (rs_popped s))" and F: "freed ?s = freed s" using c by (simp_all add: freed_def)
  have wr: "writing ?s = writing s" by (simp add: writing_def fun_eq_iff)
  have x: "length (rs_popped s) < taken s" "x = snd (rs_claimed s ! length (rs_popped s))" "pos = word_of_nat (length (rs_popped s))"
    using I(5,6,9) c F0 by simp_all
  have "prod_ok k ?s u (rs_prods s ! u)" if "u < length (rs_prods s)" for u
    using I(10) [OF that] prod_ok_cong [of ?s s] F by simp
  moreover have "rs_popped s @ [x] = map snd (take (Suc (length (rs_popped s))) (rs_claimed s))"
    using I(12) x by (simp add: take_Suc_conv_app_nth)
  ultimately show ?thesis using I F wr x by (simp add: mpsc_inv_def add.commute)
qed

lemma mpsc_cons:
  assumes inv: "mpsc_inv k s" and small: "taken s < 2 ^ 62"
  shows "mpsc_inv k (cons_advance (rs_cons s) s)"
proof (cases "rs_cons s")
  case CIdle
  then show ?thesis by (auto intro!: mpsc_cons_pc [OF inv] simp: freed_def)
next
  case (CSeq pos)
  then have "pos = read_pos (rs_buf s)" "freed s = length (rs_popped s)" using mpsc_invD(9) [OF inv] by (simp_all add: freed_def)
  with CSeq published_iff [OF inv small] show ?thesis by (auto intro!: mpsc_cons_pc [OF inv] simp: freed_def)
next
  case (CMove pos)
  then have F: "freed s = length (rs_popped s)" and c: "pos = word_of_nat (freed s)" "freed s < taken s" "\<not> writing s (freed s)"
    using mpsc_invD(5,9) [OF inv] by (simp_all add: freed_def)
  have "data (slot_at pos (rs_buf s)) = snd (rs_claimed s ! freed s)"
    using mpsc_invD(8) [OF inv] c small slot_at_nat [OF inv, of "freed s"] by (simp add: slots_ok_def)
  with CMove F c mpsc_invD(5) [OF inv] show ?thesis by (auto intro!: mpsc_cons_pc [OF inv] simp: freed_def)
qed (use mpsc_free [OF inv _ small] mpsc_advance [OF inv] in \<open>simp_all del: cons_advance.simps\<close>)

text \<open>A producer that found the buffer full in \<^verbatim>\<open>push_overwrite\<close> and goes on to discard.\<close>

fun discarding :: "'a prod_pc \<Rightarrow> bool" where
  "discarding (PDiscard x) \<longleftrightarrow> True"
| "discarding (PDiscardSeq x rpos) \<longleftrightarrow> True"
| "discarding (PDiscardCas x rpos) \<longleftrightarrow> True"
| "discarding (PDiscardStore x rpos) \<longleftrightarrow> True"
| "discarding _ \<longleftrightarrow> False"

lemma mpsc_no_discard: "mpsc_inv k s \<Longrightarrow> t < length (rs_prods s) \<Longrightarrow> \<not> discarding (rs_prods s ! t)"
  using mpsc_invD(10) [of k s t] by (cases "rs_prods s ! t") simp_all

lemma mpsc_prod:
  assumes inv: "mpsc_inv k s" and t: "t < length (rs_prods s)" and st: "prod_advance t (rs_prods s ! t) s = Some s'"
    and small: "taken s' < 2 ^ 62" and nd: "\<not> discarding (rs_prods s' ! t)"
  shows "mpsc_inv k s'"
proof (cases "rs_prods s ! t")
  case (PLoad kd x)
  with st mpsc_invD(4) [OF inv] mpsc_invD(10) [OF inv t] small show ?thesis
    by (auto intro!: mpsc_to_pc [OF inv t] simp: unat_small)
next
  case (PSeq kd x pos)
  have ok: "unat pos \<le> taken s" using mpsc_invD(10) [OF inv t] PSeq by simp
  have "taken s < 2 ^ 62" using st PSeq small by (auto simp: push_refused_def returns_def Let_def split: if_splits push_kind.splits)
  moreover have pos: "pos = word_of_nat (unat pos)" by simp
  ultimately have "unat pos = taken s \<longrightarrow> seq_diff (sequence (slot_at pos (rs_buf s))) pos = 0 \<longrightarrow> taken s < freed s + 2 ^ k"
    using seq_match [OF inv] by (metis pos)
  with st PSeq ok nd t show ?thesis
    by (auto intro!: mpsc_to_pc [OF inv t] simp: push_refused_def returns_def mpsc_returned Let_def split: if_splits push_kind.splits)
next
  case (PCas kd x pos)
  show ?thesis
  proof (cases "write_pos (rs_buf s) = pos")
    case True
    with st PCas small mpsc_claim [OF inv t PCas True] show ?thesis by auto
  next
    case False
    with st PCas small mpsc_invD(4) [OF inv] show ?thesis by (auto intro!: mpsc_to_pc [OF inv t] simp: unat_small)
  qed
next
  case (PWrite kd x pos)
  with st small mpsc_write [OF inv t PWrite] show ?thesis by auto
next
  case (PStore kd x pos)
  let ?s = "(to_pc t PIdle s)\<lparr>rs_buf := set_slot pos ((slot_at pos (rs_buf s))\<lparr>sequence := pos + 1\<rparr>) (rs_buf s)\<rparr>"
  have "s' = ?s\<lparr>rs_returned := rs_returned s @ [(t, x, True)]\<rparr>" using st PStore by (cases s) (auto simp: returns_def to_pc_def)
  with small mpsc_publish [OF inv t PStore] show ?thesis by (simp add: mpsc_returned)
qed (use st mpsc_invD(10) [OF inv t] in simp_all)

lemma length_prods:
  assumes "ring_step a s = Some s'"
  shows "length (rs_prods s') = length (rs_prods s)"
proof (cases a)
  case (StepProd t)
  with assms have "prod_advance t (rs_prods s ! t) s = Some s'" by (auto split: if_splits)
  then show ?thesis
    by (cases "rs_prods s ! t") (auto simp: push_refused_def returns_def Let_def split: if_splits push_kind.splits)
next
  case StepCons
  with assms show ?thesis by (cases "rs_cons s") auto
qed (use assms in \<open>auto split: if_splits prod_pc.splits\<close>)

lemma mpsc_step:
  assumes "ring_step a s = Some s'" "\<forall>pc \<in> set (rs_prods s'). \<not> discarding pc" "mpsc_inv k s" "taken s' < 2 ^ 62"
  shows "mpsc_inv k s'"
proof (cases a)
  case (CallPush t kd x)
  with assms show ?thesis by (auto intro!: mpsc_to_pc split: if_splits)
next
  case (StepProd t)
  with assms(1) have st: "t < length (rs_prods s)" "prod_advance t (rs_prods s ! t) s = Some s'" by (auto split: if_splits)
  moreover have "length (rs_prods s') = length (rs_prods s)" by (rule length_prods [OF assms(1)])
  ultimately show ?thesis using mpsc_prod [OF assms(3) st assms(4)] assms(2) by (metis nth_mem)
next
  case (SpuriousCas t)
  with assms(1) obtain kd x pos where *: "t < length (rs_prods s)" "rs_prods s ! t = PCas kd x pos"
    "s' = to_pc t (PSeq kd x (write_pos (rs_buf s))) s" by (auto split: if_splits prod_pc.splits)
  with assms(4) mpsc_invD(4,10) [OF assms(3)] show ?thesis
    by (auto intro!: mpsc_to_pc [OF assms(3)] simp: unat_small dest: mpsc_invD(10) [OF assms(3)])
next
  case StepCons
  have "taken (cons_advance c s) = taken s" for c by (cases c) simp_all
  with StepCons assms mpsc_cons [of k s] show ?thesis by auto
qed

lemma taken_mono:
  assumes "ring_step a s = Some s'"
  shows "\<exists>es. rs_claimed s' = rs_claimed s @ es"
proof (cases a)
  case (StepProd t)
  with assms have "prod_advance t (rs_prods s ! t) s = Some s'" by (auto split: if_splits)
  then show ?thesis
    by (cases "rs_prods s ! t") (auto simp: push_refused_def returns_def Let_def split: if_splits push_kind.splits)
next
  case StepCons
  with assms show ?thesis by (cases "rs_cons s") auto
qed (use assms in \<open>auto split: if_splits prod_pc.splits\<close>)

text \<open>Schedules in which no \<^verbatim>\<open>push_overwrite\<close> finds the buffer full; schedules that never call it are among them.\<close>

fun discards :: "'a ring_act list \<Rightarrow> 'a ring_system \<Rightarrow> bool" where
  "discards [] s \<longleftrightarrow> False"
| "discards (a # as) s \<longleftrightarrow>
     (case ring_step a s of None \<Rightarrow> False | Some s' \<Rightarrow> (\<exists>pc \<in> set (rs_prods s'). discarding pc) \<or> discards as s')"

definition plain_step :: "'a ring_act \<Rightarrow> 'a ring_system \<Rightarrow> 'a ring_system option" where
  "plain_step a s =
     (case ring_step a s of None \<Rightarrow> None | Some s' \<Rightarrow> if \<exists>pc \<in> set (rs_prods s'). discarding pc then None else Some s')"

definition mpsc_ok :: "'a ring_system \<Rightarrow> bool" where
  "mpsc_ok s \<longleftrightarrow> (taken s < 2 ^ 62 \<longrightarrow> (\<exists>k. mpsc_inv k s))"

interpretation mpsc: stepper plain_step mpsc_ok
proof
  fix a and s s' :: "'a ring_system"
  assume *: "plain_step a s = Some s'" "mpsc_ok s"
  then have st: "ring_step a s = Some s'" "\<forall>pc \<in> set (rs_prods s'). \<not> discarding pc"
    by (auto simp: plain_step_def split: if_splits option.splits)
  obtain es where "rs_claimed s' = rs_claimed s @ es" using taken_mono [OF st(1)] by blast
  then have "taken s' < 2 ^ 62 \<Longrightarrow> taken s < 2 ^ 62" by simp
  with *(2) mpsc_step [OF st] show "mpsc_ok s'" by (auto simp: mpsc_ok_def)
qed

lemma discards_take: "discards (take n as) s \<Longrightarrow> discards as s"
  by (induction as arbitrary: n s) (auto simp: take_Cons split: nat.splits option.splits)

fun overwrites :: "'a ring_act \<Rightarrow> bool" where
  "overwrites (CallPush t k x) \<longleftrightarrow> k = PushOverwrite"
| "overwrites _ \<longleftrightarrow> False"

fun plain_pc :: "'a prod_pc \<Rightarrow> bool" where
  "plain_pc PIdle \<longleftrightarrow> True"
| "plain_pc (PLoad k x) \<longleftrightarrow> k \<noteq> PushOverwrite"
| "plain_pc (PSeq k x pos) \<longleftrightarrow> k \<noteq> PushOverwrite"
| "plain_pc (PCas k x pos) \<longleftrightarrow> k \<noteq> PushOverwrite"
| "plain_pc (PWrite k x pos) \<longleftrightarrow> k \<noteq> PushOverwrite"
| "plain_pc (PStore k x pos) \<longleftrightarrow> k \<noteq> PushOverwrite"
| "plain_pc _ \<longleftrightarrow> False"

lemma list_all_update: "list_all P xs \<Longrightarrow> P x \<Longrightarrow> list_all P (xs[i := x])"
  using set_update_subset_insert [of xs i x] by (auto simp: list_all_iff)

lemma plain_pcs_step:
  assumes "ring_step a s = Some s'" "\<not> overwrites a" "list_all plain_pc (rs_prods s)"
  shows "list_all plain_pc (rs_prods s')"
proof (cases a)
  case (StepProd t)
  with assms(1) have "t < length (rs_prods s)" and st: "prod_advance t (rs_prods s ! t) s = Some s'" by (auto split: if_splits)
  with assms(3) have "plain_pc (rs_prods s ! t)" by (simp add: list_all_length)
  with st assms(3) show ?thesis
    by (cases "rs_prods s ! t")
      (auto simp: push_refused_def returns_def Let_def list_all_update split: if_splits push_kind.splits)
next
  case (SpuriousCas t)
  with assms(1) obtain k x pos where *: "t < length (rs_prods s)" "rs_prods s ! t = PCas k x pos"
    "s' = to_pc t (PSeq k x (write_pos (rs_buf s))) s" by (auto split: if_splits prod_pc.splits)
  with assms(3) have "plain_pc (PCas k x pos)" by (metis list_all_length)
  with * assms(3) show ?thesis by (simp add: list_all_update)
next
  case StepCons
  have "rs_prods (cons_advance c s) = rs_prods s" for c by (cases c) simp_all
  with StepCons assms show ?thesis by auto
qed (use assms in \<open>auto simp: list_all_update split: if_splits\<close>)

lemma plain_discards_not_from:
  "\<forall>a \<in> set as. \<not> overwrites a \<Longrightarrow> list_all plain_pc (rs_prods s) \<Longrightarrow> \<not> discards as s"
proof (induction as arbitrary: s)
  case (Cons a as)
  have nd: "plain_pc pc \<Longrightarrow> \<not> discarding pc" for pc :: "'a prod_pc" by (cases pc) simp_all
  show ?case
  proof (cases "ring_step a s")
    case (Some s')
    with plain_pcs_step [OF Some] Cons have "list_all plain_pc (rs_prods s')" by simp
    with Cons Some nd show ?thesis by (auto simp: list_all_iff)
  qed simp
qed simp

lemma plain_discards_not: "\<forall>a \<in> set as. \<not> overwrites a \<Longrightarrow> \<not> discards as (ring_system_new z c p)"
  by (rule plain_discards_not_from) (simp_all add: ring_system_new_def list_all_iff)

lemma exec_plain:
  "\<not> discards as s \<Longrightarrow> exec plain_step as s = exec ring_step as s"
proof (induction as arbitrary: s)
  case (Cons a as)
  then show ?case by (cases "ring_step a s") (simp_all add: plain_step_def)
qed simp

lemma mpsc_new:
  assumes "unat c \<le> 2 ^ 62"
  obtains k where "mpsc_inv k (ring_system_new z c p)" "unat c \<le> 2 ^ k"
proof -
  obtain k where k: "1 \<le> k" "k \<le> 63" "unat c \<le> 2 ^ k" "2 ^ k < 2 * max 2 (unat c)"
    "ring_new z c = \<lparr>rb_mask = mask k, write_pos = 0, read_pos = 0,
       slots = map (\<lambda>i. \<lparr>sequence = word_of_nat i, data = z\<rparr>) [0..<2 ^ k]\<rparr>"
    by (rule ring_new_shape [of c z]) (use assms in auto)
  have "(2::nat) ^ k < 2 ^ 63" using k(4) assms by (simp add: max_def split: if_splits)
  then have "k \<le> 62" using power_less_imp_less_exp [of "2::nat" k 63] by simp
  then have "mpsc_inv k (ring_system_new z c p)"
    using k by (simp add: mpsc_inv_def ring_system_new_def freed_def slots_ok_def)
  with k(3) that show thesis by blast
qed

lemma mpsc_run:
  assumes "exec ring_step as (ring_system_new z c p) = Some s" "\<not> discards as (ring_system_new z c p)" "unat c \<le> 2 ^ 62" "taken s < 2 ^ 62"
  obtains k where "mpsc_inv k s"
proof -
  have "mpsc_ok (ring_system_new z c p)" using mpsc_new [OF assms(3), of z p] by (auto simp: mpsc_ok_def)
  with mpsc.exec_keeps [of as "ring_system_new z c p" s] assms that show thesis by (auto simp: mpsc_ok_def exec_plain)
qed

section \<open>The accepted pushes of a producer\<close>

definition accepted :: "nat \<Rightarrow> (nat \<times> 'a \<times> bool) list \<Rightarrow> 'a list" where
  "accepted t rs = map (fst \<circ> snd) (filter (\<lambda>(u, x, ok). u = t \<and> ok) rs)"

definition taken_by :: "nat \<Rightarrow> (nat \<times> 'a) list \<Rightarrow> 'a list" where
  "taken_by t cl = map snd (filter (\<lambda>e. fst e = t) cl)"

definition in_flight :: "nat \<Rightarrow> 'a ring_system \<Rightarrow> 'a list" where
  "in_flight t s = (if t < length (rs_prods s) then case owned (rs_prods s ! t) of Some (pos, x) \<Rightarrow> [x] | None \<Rightarrow> [] else [])"

lemma accepted_snoc: "accepted t (rs @ [(u, x, ok)]) = accepted t rs @ (if u = t \<and> ok then [x] else [])"
  by (simp add: accepted_def)

lemma taken_by_snoc: "taken_by t (cl @ [(u, x)]) = taken_by t cl @ (if u = t then [x] else [])"
  by (simp add: taken_by_def)

definition ledger_ok :: "'a ring_system \<Rightarrow> bool" where
  "ledger_ok s \<longleftrightarrow> (\<forall>t. taken_by t (rs_claimed s) = accepted t (rs_returned s) @ in_flight t s)"

lemma in_flight_to_pc:
  "u < length (rs_prods s) \<Longrightarrow> rs_prods s' = (rs_prods s)[u := pc] \<Longrightarrow>
     in_flight t s' = (if t = u then case owned pc of Some (pos, x) \<Rightarrow> [x] | None \<Rightarrow> [] else in_flight t s)"
  by (simp add: in_flight_def)

lemma ledger_to_pc:
  assumes "ledger_ok s" "u < length (rs_prods s)" "owned pc = owned (rs_prods s ! u)" "rs_prods s' = (rs_prods s)[u := pc]"
    "rs_claimed s' = rs_claimed s" "rs_returned s' = rs_returned s"
  shows "ledger_ok s'"
proof -
  have "in_flight t s' = in_flight t s" for t using assms(2,3) in_flight_to_pc [OF assms(2,4)] by (simp add: in_flight_def)
  with assms show ?thesis by (simp add: ledger_ok_def)
qed

lemma ledger_goto:
  "ledger_ok s \<Longrightarrow> u < length (rs_prods s) \<Longrightarrow> owned pc = owned (rs_prods s ! u) \<Longrightarrow> ledger_ok (to_pc u pc s)"
  by (erule ledger_to_pc) (simp_all add: to_pc_def)

lemma ledger_buf: "ledger_ok (s\<lparr>rs_buf := b\<rparr>) = ledger_ok s"
  by (simp add: ledger_ok_def in_flight_def)

lemma ledger_prod:
  assumes led: "ledger_ok s" and u: "u < length (rs_prods s)" and st: "prod_advance u (rs_prods s ! u) s = Some s'"
  shows "ledger_ok s'"
proof (cases "rs_prods s ! u")
  case (PSeq kd x pos)
  note L = led [unfolded ledger_ok_def, rule_format]
  from st PSeq consider pc where "s' = to_pc u pc s" "owned pc = None" | "s' = returns u x False s"
    by (cases kd) (force simp: push_refused_def Let_def split: if_splits)+
  then show ?thesis
  proof cases
    case 2
    with in_flight_to_pc [OF u, of s' PIdle] PSeq u L show ?thesis
      by (auto simp: ledger_ok_def returns_def to_pc_def accepted_snoc in_flight_def)
  qed (use PSeq ledger_goto [OF led u] in auto)
next
  case (PCas kd x pos)
  note L = led [unfolded ledger_ok_def, rule_format]
  show ?thesis
  proof (cases "write_pos (rs_buf s) = pos")
    case True
    with st PCas in_flight_to_pc [OF u, of s' "PWrite kd x pos"] L L [of u] u show ?thesis
      by (auto simp: ledger_ok_def to_pc_def taken_by_snoc in_flight_def)
  next
    case False
    with st PCas show ?thesis by (auto intro!: ledger_goto [OF led u])
  qed
next
  case (PStore kd x pos)
  note L = led [unfolded ledger_ok_def, rule_format]
  from st PStore in_flight_to_pc [OF u, of s' PIdle] L L [of u] u show ?thesis
    by (auto simp: ledger_ok_def returns_def to_pc_def accepted_snoc in_flight_def)
qed (use st in \<open>auto intro!: ledger_goto [OF led u] simp: ledger_buf split: if_splits\<close>)

lemma ledger_step:
  assumes "ring_step a s = Some s'" "ledger_ok s"
  shows "ledger_ok s'"
proof (cases a)
  case StepCons
  have "rs_claimed (cons_advance c s) = rs_claimed s" "rs_returned (cons_advance c s) = rs_returned s"
    "rs_prods (cons_advance c s) = rs_prods s" for c by (cases c; simp)+
  with StepCons assms show ?thesis by (auto simp: ledger_ok_def in_flight_def)
qed (use assms ledger_prod [of s] in \<open>auto intro!: ledger_goto [OF assms(2)] split: if_splits prod_pc.splits\<close>)

interpretation ledger: stepper ring_step ledger_ok
  by unfold_locales (rule ledger_step)

section \<open>What holds of every schedule\<close>

text \<open>When no operation is in progress, the buffer is a buffer of the sequential model that holds what was
  taken and not yet popped.\<close>

lemma quiet_ring:
  assumes inv: "mpsc_inv k s" and small: "taken s < 2 ^ 62" and idle: "\<forall>t < length (rs_prods s). rs_prods s ! t = PIdle" "rs_cons s = CIdle"
  shows "ring_wf k (rs_buf s)" and "map snd (rs_claimed s) = rs_popped s @ ring_list (rs_buf s)"
proof -
  note I = mpsc_invD [OF inv]
  let ?F = "length (rs_popped s)"
  have F: "freed s = ?F" using idle(2) by (simp add: freed_def)
  have wr: "\<not> writing s n" for n using idle(1) by (simp add: writing_def owns_def)
  have b: "?F < 2 ^ 63" "unat (read_pos (rs_buf s)) = ?F" using I(5,6) F small by (simp_all add: unat_small)
  have cnt: "ring_count (rs_buf s) = taken s - ?F"
    using I(4,5,6) F small unat_small [of "taken s - ?F"] by (simp add: ring_count_def)
  have nth: "nth_slot (rs_buf s) j = slots (rs_buf s) ! ((?F + j) mod 2 ^ k)" for j
    by (simp add: nth_slot_def b I(11))
  have "sequence (nth_slot (rs_buf s) j) = read_pos (rs_buf s) + word_of_nat (if j < ring_count (rs_buf s) then Suc j else j)"
    if "j < 2 ^ k" for j
    using mpsc_seq [OF inv, of "?F + j"] F I(5,6) wr that by (auto simp: nth cnt)
  then show "ring_wf k (rs_buf s)" using I F cnt by (auto simp: ring_wf_def)
  have "data (nth_slot (rs_buf s) j) = snd (rs_claimed s ! (?F + j))" if "j < taken s - ?F" for j
    using I(8) F wr that by (simp add: nth slots_ok_def)
  then have "ring_list (rs_buf s) = map snd (drop ?F (rs_claimed s))"
    by (intro nth_equalityI) (simp_all add: ring_list_def cnt)
  with I(12) show "map snd (rs_claimed s) = rs_popped s @ ring_list (rs_buf s)"
    by (metis append_take_drop_id map_append)
qed

text \<open>A producer that runs alone leaves \<^verbatim>\<open>try_push\<close> after at most six of its steps.\<close>

definition finishes :: "nat \<Rightarrow> nat \<Rightarrow> 'a ring_system \<Rightarrow> bool" where
  "finishes n t s \<longleftrightarrow> (\<exists>m \<le> n. \<exists>s'. exec ring_step (replicate m (StepProd t)) s = Some s' \<and> rs_prods s' ! t = PIdle)"

lemma finishes_step:
  assumes "t < length (rs_prods s)" "prod_advance t (rs_prods s ! t) s = Some s1" "finishes n t s1"
  shows "finishes (Suc n) t s"
proof -
  obtain m s' where "m \<le> n" "exec ring_step (replicate m (StepProd t)) s1 = Some s'" "rs_prods s' ! t = PIdle"
    using assms(3) by (auto simp: finishes_def)
  with assms(1,2) show ?thesis by (auto simp: finishes_def intro!: exI [of _ "Suc m"])
qed

lemma finishes_mono: "finishes n t s \<Longrightarrow> n \<le> m \<Longrightarrow> finishes m t s"
  by (auto simp: finishes_def intro: order_trans)

lemma finishes_idle: "t < length (rs_prods s) \<Longrightarrow> rs_prods s ! t = PIdle \<Longrightarrow> finishes 0 t s"
  by (simp add: finishes_def)

lemma finishes_store:
  assumes "t < length (rs_prods s)" "rs_prods s ! t = PStore k x pos"
  shows "finishes 1 t s"
  using finishes_step [OF assms(1) _ finishes_idle, of "the (prod_advance t (rs_prods s ! t) s)"] assms
  by (simp add: returns_def)

lemma finishes_write:
  assumes "t < length (rs_prods s)" "rs_prods s ! t = PWrite k x pos"
  shows "finishes 2 t s"
  using finishes_step [OF assms(1) _ finishes_store, of "the (prod_advance t (rs_prods s ! t) s)"] assms
  by (simp add: numeral_2_eq_2)

lemma finishes_cas:
  assumes "t < length (rs_prods s)" "rs_prods s ! t = PCas k x pos" "write_pos (rs_buf s) = pos"
  shows "finishes 3 t s"
  using finishes_step [OF assms(1) _ finishes_write, of "the (prod_advance t (rs_prods s ! t) s)"] assms
  by (simp add: numeral_2_eq_2 numeral_3_eq_3)

lemma finishes_seq:
  assumes inv: "mpsc_inv k s" "taken s < 2 ^ 62" and t: "t < length (rs_prods s)" "rs_prods s ! t = PSeq TryPush x (write_pos (rs_buf s))"
  shows "finishes 4 t s"
proof -
  let ?w = "write_pos (rs_buf s)" and ?q = "sequence (slot_at (write_pos (rs_buf s)) (rs_buf s))"
  have w: "?w = word_of_nat (taken s)" using mpsc_invD(4) [OF inv(1)] .
  show ?thesis
  proof (cases "seq_diff ?q ?w < 0")
    case True
    then have "prod_advance t (rs_prods s ! t) s = Some (returns t x False s)" using t by (auto simp: push_refused_def)
    from finishes_step [OF t(1) this finishes_idle] t(1) show ?thesis
      by (auto simp: returns_def intro: finishes_mono)
  next
    case False
    then have "seq_diff ?q ?w = 0" using seq_at_write [OF inv] by (simp add: w split: if_splits)
    then have "prod_advance t (rs_prods s ! t) s = Some (to_pc t (PCas TryPush x ?w) s)" using t by simp
    from finishes_step [OF t(1) this finishes_cas] t(1) show ?thesis by simp
  qed
qed

lemma finishes_load:
  assumes inv: "mpsc_inv k s" "taken s < 2 ^ 62" and t: "t < length (rs_prods s)" "rs_prods s ! t = PLoad TryPush x"
  shows "finishes 5 t s"
proof -
  let ?s = "to_pc t (PSeq TryPush x (write_pos (rs_buf s))) s"
  have st: "prod_advance t (rs_prods s ! t) s = Some ?s" using t by simp
  have "mpsc_inv k ?s" using mpsc_prod [OF inv(1) t(1) st] inv(2) t(1) by simp
  then have "finishes 4 t ?s" using inv(2) t(1) by (intro finishes_seq [where k = k]) simp_all
  from finishes_step [OF t(1) st this] show ?thesis by simp
qed

lemma finishes_cas_any:
  assumes inv: "mpsc_inv k s" "taken s < 2 ^ 62" and t: "t < length (rs_prods s)" "rs_prods s ! t = PCas TryPush x pos"
  shows "finishes 5 t s"
proof (cases "write_pos (rs_buf s) = pos")
  case True
  then show ?thesis using finishes_cas [OF t] by (auto intro: finishes_mono)
next
  case False
  let ?s = "to_pc t (PSeq TryPush x (write_pos (rs_buf s))) s"
  have st: "prod_advance t (rs_prods s ! t) s = Some ?s" using t False by simp
  have "mpsc_inv k ?s" using mpsc_prod [OF inv(1) t(1) st] inv(2) t(1) by simp
  then have "finishes 4 t ?s" using inv(2) t(1) by (intro finishes_seq [where k = k]) simp_all
  from finishes_step [OF t(1) st this] show ?thesis by simp
qed

lemma finishes_seq_any:
  assumes inv: "mpsc_inv k s" "taken s < 2 ^ 62" and t: "t < length (rs_prods s)" "rs_prods s ! t = PSeq TryPush x pos"
  shows "finishes 6 t s"
proof -
  obtain s1 where st: "prod_advance t (rs_prods s ! t) s = Some s1" using t by simp
  then have s1: "rs_prods s1 ! t \<in> {PIdle, PCas TryPush x pos, PLoad TryPush x}" "taken s1 = taken s" "length (rs_prods s1) = length (rs_prods s)"
    using t by (auto simp: push_refused_def returns_def Let_def split: if_splits)
  have "mpsc_inv k s1" using mpsc_prod [OF inv(1) t(1) st] inv(2) s1 by auto
  then have "finishes 5 t s1"
    using s1 inv t(1) finishes_cas_any [of k s1 t x pos] finishes_load [of k s1 t x] finishes_idle [of t s1]
    by (auto intro: finishes_mono)
  from finishes_step [OF t(1) st this] show ?thesis by simp
qed

fun calls_try_push :: "'a prod_pc \<Rightarrow> bool" where
  "calls_try_push (PLoad k x) \<longleftrightarrow> k = TryPush"
| "calls_try_push (PSeq k x pos) \<longleftrightarrow> k = TryPush"
| "calls_try_push (PCas k x pos) \<longleftrightarrow> k = TryPush"
| "calls_try_push (PWrite k x pos) \<longleftrightarrow> k = TryPush"
| "calls_try_push (PStore k x pos) \<longleftrightarrow> k = TryPush"
| "calls_try_push _ \<longleftrightarrow> False"

lemma finishes_alone:
  assumes "mpsc_inv k s" "taken s < 2 ^ 62" "t < length (rs_prods s)" "calls_try_push (rs_prods s ! t)"
  shows "finishes 6 t s"
  using assms finishes_load [OF assms(1-3)] finishes_seq_any [OF assms(1-3)] finishes_cas_any [OF assms(1-3)]
    finishes_write [OF assms(3)] finishes_store [OF assms(3)]
  by (cases "rs_prods s ! t") (auto intro: finishes_mono)

text \<open>Data races: two threads at the point where they access the data of a slot.\<close>

lemma writers_apart:
  assumes inv: "mpsc_inv k s" and "t < length (rs_prods s)" "u < length (rs_prods s)" "t \<noteq> u"
    and "owns (rs_prods s ! t) m" "owns (rs_prods s ! u) n"
  shows "m mod 2 ^ k \<noteq> n mod 2 ^ k"
  using owns_claimed [OF inv, of t m] owns_claimed [OF inv, of u n] assms mpsc_invD(7) [OF inv]
    window_mod_inj [of "freed s" m "2 ^ k" n] by auto

lemma reader_apart:
  assumes inv: "mpsc_inv k s" and "t < length (rs_prods s)" "owns (rs_prods s ! t) m" "rs_cons s = CMove pos"
  shows "m mod 2 ^ k \<noteq> freed s mod 2 ^ k"
proof -
  have "m \<noteq> freed s" using mpsc_invD(9) [OF inv] assms by (auto simp: writing_def)
  with owns_claimed [OF inv, of t m] assms mpsc_invD(7) [OF inv] window_mod_inj [of "freed s" m "2 ^ k" "freed s"]
  show ?thesis by auto
qed

definition data_access :: "'a ring_system \<Rightarrow> nat option \<Rightarrow> nat option" where
  "data_access s who =
     (case who of
        Some t \<Rightarrow>
          if t < length (rs_prods s)
          then (case rs_prods s ! t of PWrite k x pos \<Rightarrow> Some (slot_index (rs_buf s) pos) | _ \<Rightarrow> None) else None
      | None \<Rightarrow> (case rs_cons s of CMove pos \<Rightarrow> Some (slot_index (rs_buf s) pos) | _ \<Rightarrow> None))"

lemma access_prod:
  assumes inv: "mpsc_inv k s" and small: "taken s < 2 ^ 62" and a: "data_access s (Some t) = Some i"
  obtains n where "t < length (rs_prods s)" "owns (rs_prods s ! t) n" "i = n mod 2 ^ k"
proof -
  obtain kd x pos where t: "t < length (rs_prods s)" and pc: "rs_prods s ! t = PWrite kd x pos" "i = slot_index (rs_buf s) pos"
    using a by (auto simp: data_access_def split: prod_pc.splits if_splits)
  have "unat pos < 2 ^ 63" using mpsc_invD(10) [OF inv t] pc small by simp
  then have "i = unat pos mod 2 ^ k" using slot_index_nat [OF mpsc_invD(3,2) [OF inv], of "unat pos"] pc by simp
  with t pc that show thesis by (simp add: owns_def)
qed

lemma access_cons:
  assumes inv: "mpsc_inv k s" and small: "taken s < 2 ^ 62" and a: "data_access s None = Some i"
  obtains pos where "rs_cons s = CMove pos" "i = freed s mod 2 ^ k"
proof -
  obtain pos where c: "rs_cons s = CMove pos" "i = slot_index (rs_buf s) pos"
    using a by (auto simp: data_access_def split: cons_pc.splits)
  have "pos = word_of_nat (freed s)" "freed s < 2 ^ 63" using mpsc_invD(5,6,9) [OF inv] c small by (simp_all add: freed_def)
  with c that slot_index_nat [OF mpsc_invD(3,2) [OF inv], of "freed s"] show thesis by simp
qed

lemma no_data_race:
  assumes inv: "mpsc_inv k s" and small: "taken s < 2 ^ 62" and who: "p \<noteq> q"
    and a: "data_access s p = Some i" "data_access s q = Some j"
  shows "i \<noteq> j"
  using assms
  by (cases p; cases q)
    (auto elim!: access_prod [OF inv small] access_cons [OF inv small] dest: writers_apart [OF inv] reader_apart [OF inv])

text \<open>When a producer is refused the buffer is full at that moment; when the consumer gets nothing it is
  empty or the producer that owns the next position has not stored its element yet.\<close>

lemma refused_full:
  assumes inv: "mpsc_inv k s" "taken s < 2 ^ 62" and st: "ring_step a s = Some s'" "rs_returned s' = rs_returned s @ [(t, x, False)]"
  shows "taken s = freed s + 2 ^ k"
proof -
  have "rs_returned (cons_advance c s) = rs_returned s" for c by (cases c) simp_all
  with st obtain u where u: "a = StepProd u" "u < length (rs_prods s)" "prod_advance u (rs_prods s ! u) s = Some s'"
    by (cases a) (auto simp: to_pc_def split: if_splits prod_pc.splits)
  then obtain kd pos where pc: "rs_prods s ! u = PSeq kd x pos" "seq_diff (sequence (slot_at pos (rs_buf s))) pos < 0"
    using st(2) by (cases "rs_prods s ! u")
      (auto simp: push_refused_def returns_def to_pc_def Let_def split: if_splits push_kind.splits)
  with mpsc_invD(10) [OF inv(1) u(2)] seq_behind [OF inv, of "unat pos"] show ?thesis by simp
qed

lemma empty_pop:
  assumes inv: "mpsc_inv k s" "taken s < 2 ^ 62" and c: "rs_cons s = CSeq pos" "rs_cons (cons_advance (rs_cons s) s) = CIdle"
  shows "taken s = length (rs_popped s) \<or> writing s (length (rs_popped s))"
proof -
  have F: "freed s = length (rs_popped s)" "pos = read_pos (rs_buf s)" using c(1) mpsc_invD(9) [OF inv(1)] by (simp_all add: freed_def)
  with published_iff [OF inv] c mpsc_invD(6) [OF inv(1)] show ?thesis by (auto split: if_splits)
qed

section \<open>Properties\<close>

lemmas ring_run_defs = slot_at_def set_slot_def to_pc_def returns_def push_refused_def slot_index_def seq_diff_def
  ring_system_new_def ring_new_2

text \<open>Two producers race for the first position; the second one wins, and the consumer takes its element
  while the other is still writing.\<close>

definition sample_race :: "nat ring_act list" where
  "sample_race = [CallPush 0 TryPush 10, CallPush 1 PushOverwrite 20, StepProd 0, StepProd 1, StepProd 0, StepProd 1,
     StepProd 1, StepProd 0, StepProd 0, StepProd 0, StepProd 1, StepProd 1,
     StepCons, StepCons, StepCons, StepCons, StepCons, StepProd 0]"

lemma sample_race_plain: "\<not> discards sample_race (ring_system_new 0 2 2)"
  by (simp add: sample_race_def ring_run_defs numeral_2_eq_2)

text \<open>C5: As long as no \<^verbatim>\<open>push_overwrite\<close> finds the buffer full, whatever the interleaving of any number of
  producers with the consumer, the elements that come out are
  exactly the elements whose producers took a position, in the order of the positions and without gap or
  repetition; and the elements a producer got positions for are, in the order of its calls, the ones whose
  push returned true, followed by the one it is writing now, if any.\<close>

theorem mpsc_fifo:
  assumes "exec ring_step as (ring_system_new z c p) = Some s" and "\<not> discards as (ring_system_new z c p)"
    and "unat c \<le> 2 ^ 62" and "length (rs_claimed s) < 2 ^ 62"
  shows "rs_popped s = map snd (take (length (rs_popped s)) (rs_claimed s)) \<and>
    (\<forall>t. taken_by t (rs_claimed s) = accepted t (rs_returned s) @ in_flight t s)"
proof -
  obtain k where "mpsc_inv k s" using mpsc_run [OF assms] .
  moreover have "ledger_ok (ring_system_new z c p)"
    by (simp add: ledger_ok_def ring_system_new_def taken_by_def accepted_def in_flight_def)
  then have "ledger_ok s" by (rule ledger.exec_keeps [OF assms(1)])
  ultimately show ?thesis using mpsc_invD(12) by (auto simp: ledger_ok_def)
qed

theorem mpsc_fifo_witness:
  "\<exists>s. exec ring_step sample_race (ring_system_new 0 2 2) = Some s \<and> rs_popped s = [20] \<and>
     rs_popped s = map snd (take (length (rs_popped s)) (rs_claimed s)) \<and>
     taken_by 0 (rs_claimed s) = accepted 0 (rs_returned s) @ in_flight 0 s"
proof -
  obtain s where s: "exec ring_step sample_race (ring_system_new 0 2 2) = Some s" "rs_popped s = [20]"
      "rs_claimed s = [(1, 20), (0, 10)]"
    by (simp add: sample_race_def ring_run_defs)
  have "rs_popped s = map snd (take (length (rs_popped s)) (rs_claimed s)) \<and>
    (\<forall>t. taken_by t (rs_claimed s) = accepted t (rs_returned s) @ in_flight t s)"
    using mpsc_fifo [OF s(1) sample_race_plain] s(3) by simp
  with s show ?thesis by blast
qed

text \<open>C6: As long as no \<^verbatim>\<open>push_overwrite\<close> finds the buffer full, between operations the concurrent buffer is the sequential one: when every thread is outside of the
  member functions, the shared memory satisfies the invariant of the sequential ring buffer, its content is
  what was pushed and not yet popped, and every position taken belongs to a push that returned true.\<close>

theorem mpsc_quiescent:
  assumes "exec ring_step as (ring_system_new z c p) = Some s" and "\<not> discards as (ring_system_new z c p)"
    and "unat c \<le> 2 ^ 62" and "length (rs_claimed s) < 2 ^ 62"
    and "\<forall>pc \<in> set (rs_prods s). pc = PIdle" and "rs_cons s = CIdle"
  shows "ring_inv (rs_buf s) \<and> map snd (rs_claimed s) = rs_popped s @ ring_list (rs_buf s) \<and>
    (\<forall>t. taken_by t (rs_claimed s) = accepted t (rs_returned s))"
proof -
  obtain k where k: "mpsc_inv k s" using mpsc_run [OF assms(1-4)] .
  have idle: "\<forall>t < length (rs_prods s). rs_prods s ! t = PIdle" using assms(5) by simp
  have "ledger_ok (ring_system_new z c p)"
    by (simp add: ledger_ok_def ring_system_new_def taken_by_def accepted_def in_flight_def)
  then have "ledger_ok s" by (rule ledger.exec_keeps [OF assms(1)])
  moreover have "in_flight t s = []" for t using idle by (simp add: in_flight_def)
  ultimately show ?thesis using quiet_ring [OF k assms(4) idle assms(6)] by (auto simp: ledger_ok_def ring_inv_def)
qed

theorem mpsc_quiescent_witness:
  "\<exists>s. exec ring_step (sample_race @ [StepProd 0]) (ring_system_new 0 2 2) = Some s \<and> ring_inv (rs_buf s) \<and>
     map snd (rs_claimed s) = rs_popped s @ ring_list (rs_buf s)"
proof -
  obtain s where s: "exec ring_step (sample_race @ [StepProd 0]) (ring_system_new 0 2 2) = Some s"
      "rs_claimed s = [(1, 20), (0, 10)]" "rs_prods s = [PIdle, PIdle]" "rs_cons s = CIdle"
    by (simp add: sample_race_def ring_run_defs numeral_2_eq_2)
  have "\<not> discards (sample_race @ [StepProd 0]) (ring_system_new 0 2 2)" by (simp add: sample_race_def ring_run_defs numeral_2_eq_2)
  from mpsc_quiescent [OF s(1) this _ _ _ s(4)] s show ?thesis by simp
qed



text \<open>C30: As long as no \<^verbatim>\<open>push_overwrite\<close> finds the buffer full, a refusal is justified at the moment it is decided: \<^verbatim>\<open>try_push\<close> returns false only when as many positions are
  taken and not given back as there are slots, and \<^verbatim>\<open>pop\<close> returns nothing only when every element taken in
  is already popped or the producer that owns the next position has not finished storing it.\<close>

theorem mpsc_full_or_empty:
  assumes "exec ring_step as (ring_system_new z c p) = Some s" and "\<not> discards as (ring_system_new z c p)"
    and "unat c \<le> 2 ^ 62" and "length (rs_claimed s) < 2 ^ 62"
  shows "(ring_step a s = Some s' \<and> rs_returned s' = rs_returned s @ [(t, x, False)] \<longrightarrow>
      length (rs_claimed s) = freed s + length (slots (rs_buf s))) \<and>
    (rs_cons s = CSeq pos \<and> ring_step StepCons s = Some s' \<and> rs_cons s' = CIdle \<longrightarrow>
      length (rs_claimed s) = length (rs_popped s) \<or> writing s (length (rs_popped s)))"
proof -
  obtain k where k: "mpsc_inv k s" using mpsc_run [OF assms] .
  then show ?thesis
    using refused_full [OF k assms(4), of a s' t x] empty_pop [OF k assms(4), of pos] by (auto simp: mpsc_invD(11))
qed

theorem mpsc_full_or_empty_witness:
  "\<exists>s. exec ring_step (CallPush 0 TryPush (1::nat) # replicate 5 (StepProd 0) @ CallPush 0 TryPush 2 # replicate 5 (StepProd 0) @
     [CallPush 0 TryPush 3, StepProd 0]) (ring_system_new 0 2 1) = Some s \<and> length (rs_claimed s) = freed s + length (slots (rs_buf s))"
  (is "\<exists>s. exec ring_step ?as _ = Some s \<and> _")
proof -
  obtain s where s: "exec ring_step ?as (ring_system_new 0 2 1) = Some s" "rs_claimed s = [(0, 1), (0, 2)]"
      "\<exists>s'. ring_step (StepProd 0) s = Some s' \<and> rs_returned s' = rs_returned s @ [(0, 3, False)]"
    by (simp add: ring_run_defs eval_nat_numeral)
  then obtain s' where s': "ring_step (StepProd 0) s = Some s' \<and> rs_returned s' = rs_returned s @ [(0, 3, False)]" by blast
  have "\<not> discards ?as (ring_system_new 0 2 1)" by (rule plain_discards_not) simp
  from mpsc_full_or_empty [OF s(1) this, of "StepProd 0" s' 0 3] s(1,2) s' show ?thesis by simp
qed

text \<open>C39: As long as no \<^verbatim>\<open>push_overwrite\<close> finds the buffer full, the slots' data need no lock: in every reachable state, no two threads are at the point of
  accessing the data of the same slot, be they producers that store or the consumer that moves it out.\<close>

theorem mpsc_race_free:
  assumes "exec ring_step as (ring_system_new z c p) = Some s" and "\<not> discards as (ring_system_new z c p)"
    and "unat c \<le> 2 ^ 62" and "length (rs_claimed s) < 2 ^ 62"
    and "who \<noteq> who'" and "data_access s who = Some i" and "data_access s who' = Some j"
  shows "i \<noteq> j"
proof -
  obtain k where "mpsc_inv k s" using mpsc_run [OF assms(1-4)] .
  from no_data_race [OF this assms(4-7)] show ?thesis .
qed

theorem mpsc_race_free_witness:
  "\<exists>s i j. exec ring_step (take 14 sample_race) (ring_system_new 0 2 2) = Some s \<and>
     data_access s None = Some i \<and> data_access s (Some 0) = Some j \<and> i \<noteq> j"
proof -
  obtain s i j where s: "exec ring_step (take 14 sample_race) (ring_system_new 0 2 2) = Some s"
      "length (rs_claimed s) < 2 ^ 62" "data_access s None = Some i" "data_access s (Some 0) = Some j"
    by (simp add: sample_race_def ring_run_defs data_access_def)
  have "\<not> discards (take 14 sample_race) (ring_system_new 0 2 2)" using sample_race_plain discards_take by blast
  from mpsc_race_free [OF s(1) this _ s(2) _ s(3,4)] s show ?thesis by auto
qed

end
