(* ===== verification/Ring_Race.thy ===== *)
theory Ring_Race
  imports Ring_Mpsc
begin

text \<open>
  \<^verbatim>\<open>push_overwrite\<close> against \<^verbatim>\<open>pop\<close>.  The comment in \<^verbatim>\<open>ring_buffer.h\<close> allows the call from a single producer; the
  topic queues with the strategy \<^verbatim>\<open>DROP_OLDEST\<close> and the option ticks of the gateway rely on that.  The schedule
  below, with one producer and the consumer, ends in a buffer that delivers nothing any more and
  accepts nothing any more: the consumer is between reading an element and handing its slot back when the
  producer discards that element and fills the slot; then the consumer's store of the sequence
  number hides the new element, and its position is never read.
\<close>

section \<open>The schedule\<close>

definition wedge_schedule :: "'a \<Rightarrow> 'a \<Rightarrow> 'a \<Rightarrow> 'a \<Rightarrow> 'a ring_act list" where
  "wedge_schedule a b c d =
     CallPush 0 TryPush a # replicate 5 (StepProd 0) @ CallPush 0 TryPush b # replicate 5 (StepProd 0) @
     CallPush 0 PushOverwrite c # replicate 2 (StepProd 0) @ replicate 3 StepCons @ replicate 9 (StepProd 0) @
     replicate 2 StepCons @ replicate 5 StepCons @ CallPush 0 TryPush d # replicate 5 (StepProd 0)"

text \<open>The states from which nothing gets through any more: the first slot waits for a position that is already
  taken and was never stored, and the consumer waits for that store.\<close>

fun stuck_pc :: "'a prod_pc \<Rightarrow> bool" where
  "stuck_pc PIdle \<longleftrightarrow> True"
| "stuck_pc (PLoad k x) \<longleftrightarrow> True"
| "stuck_pc (PSeq k x pos) \<longleftrightarrow> pos = 4"
| "stuck_pc (PDiscard x) \<longleftrightarrow> True"
| "stuck_pc (PDiscardSeq x rpos) \<longleftrightarrow> rpos = 2"
| "stuck_pc _ \<longleftrightarrow> False"

definition wedged :: "'a ring_system \<Rightarrow> bool" where
  "wedged s \<longleftrightarrow> rb_mask (rs_buf s) = 1 \<and> write_pos (rs_buf s) = 4 \<and> read_pos (rs_buf s) = 2 \<and>
     map sequence (slots (rs_buf s)) = [2, 4] \<and> rs_cons s \<in> {CIdle, CSeq 2} \<and>
     (\<forall>pc \<in> set (rs_prods s). stuck_pc pc)"

lemma wedge_run:
  "\<exists>s. exec ring_step (wedge_schedule a b c d) (ring_system_new z 2 1) = Some s \<and> wedged s \<and>
     rs_claimed s = [(0, a), (0, b), (0, c), (0, d)] \<and> rs_popped s = [a, b] \<and> rs_prods s = [PIdle] \<and>
     rs_returned s = [(0, a, True), (0, b, True), (0, c, True), (0, d, True)] \<and> rs_cons s = CIdle"
  by (simp add: wedge_schedule_def ring_run_defs eval_nat_numeral wedged_def)

definition no_progress :: "'a ring_system \<Rightarrow> 'a ring_system \<Rightarrow> bool" where
  "no_progress s s' \<longleftrightarrow> rs_claimed s' = rs_claimed s \<and> rs_popped s' = rs_popped s \<and>
     (\<exists>rs. rs_returned s' = rs_returned s @ rs \<and> (\<forall>(t, x, ok) \<in> set rs. \<not> ok))"

lemma no_progress_simps [simp]:
  "no_progress s (to_pc t pc s)" "no_progress s (returns t x False s)" "no_progress s (s\<lparr>rs_cons := c\<rparr>)"
  by (simp_all add: no_progress_def to_pc_def returns_def)

lemma wedged_slot:
  assumes "wedged s"
  shows "seq_diff (sequence (slot_at 4 (rs_buf s))) 4 < 0" and "sequence (slot_at 2 (rs_buf s)) = 2"
proof -
  obtain x y where "slots (rs_buf s) = [x, y]" "sequence x = 2" "sequence y = 4" "rb_mask (rs_buf s) = 1"
    using assms by (auto simp: wedged_def map_eq_Cons_conv)
  then show "seq_diff (sequence (slot_at 4 (rs_buf s))) 4 < 0" and "sequence (slot_at 2 (rs_buf s)) = 2"
    by (simp_all add: slot_at_def slot_index_def seq_diff_def)
qed

lemma wedged_to_pc:
  "wedged s \<Longrightarrow> stuck_pc pc \<Longrightarrow> wedged (to_pc t pc s)"
  using set_update_subset_insert [of "rs_prods s" t pc] by (auto simp: wedged_def to_pc_def)

lemma wedged_returns: "wedged s \<Longrightarrow> wedged (returns t x ok s)"
  using wedged_to_pc [of s PIdle t] by (simp add: wedged_def returns_def to_pc_def)

lemma wedged_prod:
  assumes "wedged s" and "prod_advance t pc s = Some s'"
    and "stuck_pc pc"
  shows "wedged s' \<and> no_progress s s'"
proof -
  have "write_pos (rs_buf s) = 4" "read_pos (rs_buf s) = 2" using assms(1) by (simp_all add: wedged_def)
  with assms wedged_slot [OF assms(1)] show ?thesis
    by (cases pc) (auto simp: push_refused_def wedged_to_pc wedged_returns split: push_kind.splits)
qed

lemma wedged_cons: "wedged s \<Longrightarrow> wedged (cons_advance (rs_cons s) s) \<and> no_progress s (cons_advance (rs_cons s) s)"
  using wedged_slot [of s] by (auto simp: wedged_def)

lemma wedged_step:
  assumes "ring_step a s = Some s'" and "wedged s"
  shows "wedged s' \<and> no_progress s s'"
proof (cases a)
  case (CallPush t k x)
  with assms show ?thesis by (auto simp: wedged_to_pc split: if_splits)
next
  case (StepProd t)
  with assms have "rs_prods s ! t \<in> set (rs_prods s)" "prod_advance t (rs_prods s ! t) s = Some s'" by (auto split: if_splits)
  with assms(2) show ?thesis by (intro wedged_prod) (auto simp: wedged_def)
next
  case (SpuriousCas t)
  with assms have "rs_prods s ! t \<in> set (rs_prods s)" "\<exists>k x pos. rs_prods s ! t = PCas k x pos"
    by (auto split: if_splits prod_pc.splits)
  with assms(2) show ?thesis by (auto simp: wedged_def)
next
  case StepCons
  with assms wedged_cons show ?thesis by auto
qed

interpretation wedge: stepper ring_step wedged
  by unfold_locales (use wedged_step in blast)

lemma no_progress_trans: "no_progress s t \<Longrightarrow> no_progress t u \<Longrightarrow> no_progress s u"
  by (fastforce simp: no_progress_def)

lemma wedged_forever:
  "exec ring_step as s = Some s' \<Longrightarrow> wedged s \<Longrightarrow> no_progress s s'"
  by (rule wedge.exec_relates) (auto intro: no_progress_trans simp: no_progress_def [of s s for s] dest: wedged_step)
text \<open>C7: One producer that calls \<^verbatim>\<open>push_overwrite\<close> while the consumer is in \<^verbatim>\<open>pop\<close> can lock up the buffer for good.
  There is a schedule of one producer and the consumer after which all four pushes have returned, two of the elements are
  in the buffer, no thread is in an operation, and yet in whatever way any threads go on, with whatever
  calls, nothing is popped again, no push takes a position, and no \<^verbatim>\<open>push_overwrite\<close> or \<^verbatim>\<open>push_blocking\<close> ever returns.\<close>

theorem overwrite_wedges:
  "\<exists>as s. exec ring_step as (ring_system_new z 2 1) = Some s \<and> rs_prods s = [PIdle] \<and> rs_cons s = CIdle \<and>
     accepted 0 (rs_returned s) = [a, b, c, d] \<and> rs_popped s = [a, b] \<and> ring_size (rs_buf s) = 2 \<and>
     (\<forall>bs s'. exec ring_step bs s = Some s' \<longrightarrow> no_progress s s')"
proof -
  obtain s where s: "exec ring_step (wedge_schedule a b c d) (ring_system_new z 2 1) = Some s" "wedged s"
      "rs_popped s = [a, b]" "rs_prods s = [PIdle]" "rs_cons s = CIdle"
      "rs_returned s = [(0, a, True), (0, b, True), (0, c, True), (0, d, True)]"
    using wedge_run [of a b c d z] by auto
  moreover have "ring_size (rs_buf s) = 2" using s(2) by (simp add: wedged_def ring_size_def word_le_nat_alt)
  moreover have "\<forall>bs s'. exec ring_step bs s = Some s' \<longrightarrow> no_progress s s'" using wedged_forever [OF _ s(2)] by blast
  moreover have "accepted 0 (rs_returned s) = [a, b, c, d]" using s(6) by (simp add: accepted_def)
  ultimately show ?thesis by blast
qed

theorem overwrite_wedges_witness:
  "\<exists>as s. exec ring_step as (ring_system_new 0 2 1) = Some s \<and> rs_popped s = [1, 2 :: nat] \<and>
     ring_size (rs_buf s) = 2 \<and> no_progress s (cons_advance (rs_cons s) s)"
proof -
  obtain as s where s: "exec ring_step as (ring_system_new 0 2 1) = Some s" "rs_popped s = [1, 2 :: nat]" "ring_size (rs_buf s) = 2"
      "\<forall>bs s'. exec ring_step bs s = Some s' \<longrightarrow> no_progress s s'"
    using overwrite_wedges [of 0 1 2 3 4] by blast
  have "exec ring_step [StepCons] s = Some (cons_advance (rs_cons s) s)" by simp
  with s show ?thesis by blast
qed

end
