(* ===== verification/Shm_Lifetime.thy ===== *)
theory Shm_Lifetime
  imports Shm_Queue "HOL-Library.Multiset"
begin

text \<open>
  Creating, opening and destroying a shared memory queue on POSIX: the part of the constructor and destructor of
  \<^verbatim>\<open>shared_memory_queue.cpp\<close> that talks to the operating system.  The system keeps objects by number, a table of
  names, the descriptors that are open and the mappings that are in place, the last two with
  multiplicity.  Which call fails is an argument (\<open>shm_faults\<close>).
\<close>

section \<open>The system and the handle\<close>

record shm_faults =
  sf_open :: bool
  sf_truncate :: bool
  sf_mmap :: bool

record shm_os =
  so_names :: "string \<Rightarrow> nat option"
  so_objects :: "shm_segment list"
  so_fds :: "nat multiset"
  so_maps :: "nat multiset"

text \<open>An end of a queue: the handle of \<open>Shm_Queue\<close>, the descriptor, and the object that is mapped.\<close>

record shm_end =
  se_queue :: shm_queue
  se_fd :: "nat option"
  se_mapped :: "nat option"

text \<open>A new object holds zero bytes.\<close>

definition zero_segment :: shm_segment where
  "zero_segment = \<lparr>write_seq = 0, read_seq = 0, h_slot_count = 0, h_max_msg_size = 0, h_magic = 0, h_version = 0, seg_slots = []\<rparr>"

definition shm_path :: "shm_config \<Rightarrow> string" where
  "shm_path cfg = ''/tyche_shm_'' @ cfg_name cfg"

definition shm_unlink :: "string \<Rightarrow> shm_os \<Rightarrow> shm_os" where
  "shm_unlink nm os = os\<lparr>so_names := (so_names os)(nm := None)\<rparr>"

text \<open>\<^verbatim>\<open>shm_open\<close>: the object of the name; with \<^verbatim>\<open>O_CREAT\<close> a new, empty one when there is none.\<close>

definition os_open :: "bool \<Rightarrow> string \<Rightarrow> shm_os \<Rightarrow> (nat \<times> shm_os) option" where
  "os_open creat nm os =
     (case so_names os nm of
        Some n \<Rightarrow> Some (n, os\<lparr>so_fds := so_fds os + {#n#}\<rparr>)
      | None \<Rightarrow>
          if creat
          then (let n = length (so_objects os)
                in Some (n, os\<lparr>so_names := (so_names os)(nm \<mapsto> n), so_objects := so_objects os @ [zero_segment], so_fds := so_fds os + {#n#}\<rparr>))
          else None)"

definition os_close :: "nat \<Rightarrow> shm_os \<Rightarrow> shm_os" where
  "os_close n os = os\<lparr>so_fds := so_fds os - {#n#}\<rparr>"

definition os_mmap :: "nat \<Rightarrow> shm_os \<Rightarrow> shm_os" where
  "os_mmap n os = os\<lparr>so_maps := so_maps os + {#n#}\<rparr>"

definition os_munmap :: "nat \<Rightarrow> shm_os \<Rightarrow> shm_os" where
  "os_munmap n os = os\<lparr>so_maps := so_maps os - {#n#}\<rparr>"

definition end_of :: "shm_queue \<Rightarrow> nat option \<Rightarrow> nat option \<Rightarrow> shm_end" where
  "end_of q fd mapped = \<lparr>se_queue = q, se_fd = fd, se_mapped = mapped\<rparr>"

text \<open>After the platform's part the constructor goes on as in \<open>shm_open\<close>: the owner writes the header and the slots, the other end
  compares the header.\<close>

definition shm_attach :: "shm_config \<Rightarrow> bool \<Rightarrow> nat \<Rightarrow> shm_os \<Rightarrow> shm_end \<times> shm_os" where
  "shm_attach cfg own n os =
     (case shm_open cfg own (Some (so_objects os ! n)) of
        (q, Some seg) \<Rightarrow> (end_of q (Some n) (Some n), (os_mmap n os)\<lparr>so_objects := (so_objects os)[n := seg]\<rparr>)
      | (q, None) \<Rightarrow> (end_of q (Some n) (Some n), os_mmap n os))"

definition shm_construct :: "shm_faults \<Rightarrow> shm_config \<Rightarrow> bool \<Rightarrow> shm_os \<Rightarrow> shm_end \<times> shm_os" where
  "shm_construct f cfg own os =
     (let os1 = (if own then shm_unlink (shm_path cfg) os else os)
      in case (if sf_open f then None else os_open own (shm_path cfg) os1) of
           None \<Rightarrow> (end_of (fst (shm_open cfg own None)) None None, os1)
         | Some (n, os2) \<Rightarrow>
             if own \<and> sf_truncate f then (end_of (fst (shm_open cfg own None)) None None, os_close n os2)
             else if sf_mmap f then (end_of (fst (shm_open cfg own None)) (Some n) None, os2)
             else shm_attach cfg own n os2)"

definition shm_destruct :: "shm_end \<Rightarrow> shm_os \<Rightarrow> shm_os" where
  "shm_destruct e os =
     (let os1 = (case se_mapped e of Some n \<Rightarrow> os_munmap n os | None \<Rightarrow> os);
          os2 = (case se_fd e of Some n \<Rightarrow> os_close n os1 | None \<Rightarrow> os1)
      in if owner (se_queue e) then shm_unlink (shm_path (config (se_queue e))) os2 else os2)"

section \<open>Properties\<close>

lemmas shm_os_defs = shm_unlink_def os_open_def os_close_def os_mmap_def os_munmap_def end_of_def shm_attach_def shm_open_def

text \<open>Whatever fails, destroying an end gives back exactly the descriptor and the mapping its construction took.\<close>

lemma shm_resources:
  assumes "shm_construct f cfg own os = (e, os1)" and "so_fds os2 = so_fds os1" and "so_maps os2 = so_maps os1"
  shows "so_fds (shm_destruct e os2) = so_fds os \<and> so_maps (shm_destruct e os2) = so_maps os"
  using assms
  by (auto simp: shm_construct_def shm_destruct_def shm_os_defs Let_def split: if_splits option.splits prod.splits)

text \<open>An owner starts with an object of its own, under the name, with no message: whoever had the queue before keeps the old
  object, which the new end cannot touch.\<close>

lemma shm_owner_fresh:
  assumes "shm_construct f cfg True os = (e, os')" and "valid (se_queue e)"
  shows "\<exists>n. se_mapped e = Some n \<and> n = length (so_objects os) \<and> so_names os' (shm_path cfg) = Some n \<and>
     so_objects os' = so_objects os @ [init_segment cfg]"
  using assms by (auto simp: shm_construct_def shm_os_defs Let_def split: if_splits)

text \<open>A peer that opens the name with the same configuration gets the owner's object.\<close>

lemma shm_peer_attaches:
  assumes "shm_construct f cfg True os = (e, os1)" and "valid (se_queue e)" and "\<not> sf_open g" and "\<not> sf_mmap g"
    and "shm_construct g cfg False os1 = (p, os2)"
  shows "valid (se_queue p) \<and> se_mapped p = se_mapped e"
  using assms by (auto simp: shm_construct_def shm_os_defs init_segment_def Let_def nth_append split: if_splits)

text \<open>The destructor removes the name, not the object: when a second owner has taken the name over, destroying the first leaves the second
  without a name, and no peer can open its queue.\<close>

lemma shm_name_stolen:
  assumes "shm_construct f cfg True os = (e1, os1)" and "shm_construct g cfg True os1 = (e2, os2)" and "valid (se_queue e2)"
    and "shm_construct h cfg False (shm_destruct e1 os2) = (p, os3)"
  shows "\<not> valid (se_queue p)"
proof -
  have "owner (se_queue e1)" "config (se_queue e1) = cfg"
    using assms(1) by (auto simp: shm_construct_def shm_os_defs Let_def split: if_splits option.splits prod.splits)
  then have "so_names (shm_destruct e1 os2) (shm_path cfg) = None" by (simp add: shm_destruct_def shm_unlink_def Let_def)
  then show ?thesis using assms(4) by (auto simp: shm_construct_def shm_os_defs Let_def split: if_splits)
qed

definition sample_os :: shm_os where
  "sample_os = \<lparr>so_names = (\<lambda>_. None), so_objects = [], so_fds = {#}, so_maps = {#}\<rparr>"

definition no_faults :: shm_faults where
  "no_faults = \<lparr>sf_open = False, sf_truncate = False, sf_mmap = False\<rparr>"

lemma shm_name_stolen_witness:
  "\<exists>e1 os1 e2 os2 p os3. shm_construct no_faults \<lparr>cfg_name = ''q'', cfg_slot_count = 4, cfg_max_msg_size = 8\<rparr> True sample_os = (e1, os1) \<and>
     shm_construct no_faults \<lparr>cfg_name = ''q'', cfg_slot_count = 4, cfg_max_msg_size = 8\<rparr> True os1 = (e2, os2) \<and> valid (se_queue e2) \<and>
     shm_construct no_faults \<lparr>cfg_name = ''q'', cfg_slot_count = 4, cfg_max_msg_size = 8\<rparr> False (shm_destruct e1 os2) = (p, os3) \<and>
     \<not> valid (se_queue p)"
proof -
  let ?c = "\<lparr>cfg_name = ''q'', cfg_slot_count = 4, cfg_max_msg_size = 8\<rparr>"
  obtain e1 os1 where 1: "shm_construct no_faults ?c True sample_os = (e1, os1)" by (metis surj_pair)
  obtain e2 os2 where 2: "shm_construct no_faults ?c True os1 = (e2, os2)" by (metis surj_pair)
  obtain p os3 where 3: "shm_construct no_faults ?c False (shm_destruct e1 os2) = (p, os3)" by (metis surj_pair)
  have v: "valid (se_queue e2)" using 2 by (auto simp: shm_construct_def shm_os_defs no_faults_def Let_def)
  from shm_name_stolen [OF 1 2 v 3] 1 2 3 v show ?thesis by blast
qed

end
