(* ===== verification/Object_Pool.thy ===== *)
theory Object_Pool
  imports Step_Systems
begin

text \<open>
  The pool of preallocated objects (\<^verbatim>\<open>object_pool.h\<close>), a lock-free stack of free slots, and the
  adaptive waiting strategy (\<^verbatim>\<open>adaptive_spin.h\<close>).  A slot is its index, the null pointer \<open>None\<close>.  The pool's operations are
  modelled twice: run alone, and as the atomic steps of threads that interleave; one
  \<^verbatim>\<open>compare_exchange_weak\<close> is one step, which may also fail spuriously.
\<close>

section \<open>The pool run by one thread\<close>

type_synonym slot_ref = "nat option"

record object_pool =
  slot_next :: "slot_ref list"
  free_list :: slot_ref
  available_count :: u64

definition pool_new :: "nat \<Rightarrow> object_pool" where
  "pool_new n = \<lparr>slot_next = map (\<lambda>i. if i + 1 < n then Some (i + 1) else None) [0..<n],
     free_list = Some 0, available_count = word_of_nat n\<rparr>"

definition pool_acquire :: "object_pool \<Rightarrow> slot_ref \<times> object_pool" where
  "pool_acquire p =
     (case free_list p of
        None \<Rightarrow> (None, p)
      | Some first \<Rightarrow> (Some first, p\<lparr>free_list := slot_next p ! first, available_count := available_count p - 1\<rparr>))"

definition pool_release :: "slot_ref \<Rightarrow> object_pool \<Rightarrow> object_pool" where
  "pool_release obj p =
     (case obj of
        None \<Rightarrow> p
      | Some s \<Rightarrow> p\<lparr>slot_next := (slot_next p)[s := free_list p], free_list := Some s,
           available_count := available_count p + 1\<rparr>)"

section \<open>Interleaved threads\<close>

text \<open>Where a thread is: it has loaded the head, then the head's successor; or it is releasing a
  slot and has loaded the head, then linked the slot to it.\<close>

datatype pool_pc = Idle | AcqHead nat | AcqNext nat slot_ref | AcqCount nat
  | RelHead nat slot_ref | RelLinked nat slot_ref | RelCount

record pool_system =
  ps_pool :: object_pool
  ps_pc :: "pool_pc list"
  ps_held :: "nat list list"

datatype pool_act = StartAcquire | StartRelease nat | Advance | SpuriousFail

definition after_load :: "slot_ref \<Rightarrow> pool_pc" where
  "after_load first = (case first of None \<Rightarrow> Idle | Some s \<Rightarrow> AcqHead s)"

definition pool_step :: "nat \<Rightarrow> pool_act \<Rightarrow> pool_system \<Rightarrow> pool_system option" where
  "pool_step t act s =
     (let p = ps_pool s; pc = ps_pc s ! t; held = ps_held s ! t;
          go = (\<lambda>pc'. s\<lparr>ps_pc := (ps_pc s)[t := pc']\<rparr>)
      in if t \<ge> length (ps_pc s) then None
         else case (act, pc) of
           (StartAcquire, Idle) \<Rightarrow> Some (go (after_load (free_list p)))
         | (StartRelease x, Idle) \<Rightarrow>
             if x \<in> set held
             then Some ((go (RelHead x (free_list p)))\<lparr>ps_held := (ps_held s)[t := remove1 x held]\<rparr>) else None
         | (Advance, AcqHead h) \<Rightarrow> Some (go (AcqNext h (slot_next p ! h)))
         | (Advance, AcqNext h nx) \<Rightarrow>
             if free_list p = Some h then Some ((go (AcqCount h))\<lparr>ps_pool := p\<lparr>free_list := nx\<rparr>\<rparr>)
             else Some (go (after_load (free_list p)))
         | (SpuriousFail, AcqNext h nx) \<Rightarrow> Some (go (after_load (free_list p)))
         | (Advance, AcqCount h) \<Rightarrow>
             Some ((go Idle)\<lparr>ps_pool := p\<lparr>available_count := available_count p - 1\<rparr>,
                             ps_held := (ps_held s)[t := h # held]\<rparr>)
         | (Advance, RelHead x first) \<Rightarrow>
             Some ((go (RelLinked x first))\<lparr>ps_pool := p\<lparr>slot_next := (slot_next p)[x := first]\<rparr>\<rparr>)
         | (Advance, RelLinked x first) \<Rightarrow>
             if free_list p = first then Some ((go RelCount)\<lparr>ps_pool := p\<lparr>free_list := Some x\<rparr>\<rparr>)
             else Some (go (RelHead x (free_list p)))
         | (SpuriousFail, RelLinked x first) \<Rightarrow> Some (go (RelHead x (free_list p)))
         | (Advance, RelCount) \<Rightarrow> Some ((go Idle)\<lparr>ps_pool := p\<lparr>available_count := available_count p + 1\<rparr>\<rparr>)
         | _ \<Rightarrow> None)"

definition pool_run :: "(nat \<times> pool_act) list \<Rightarrow> pool_system \<Rightarrow> pool_system option" where
  "pool_run = exec (\<lambda>(t, act). pool_step t act)"

definition pool_system_new :: "nat \<Rightarrow> nat \<Rightarrow> pool_system" where
  "pool_system_new n threads = \<lparr>ps_pool = pool_new n, ps_pc = replicate threads Idle, ps_held = replicate threads []\<rparr>"

section \<open>Adaptive waiting\<close>

datatype wait_phase = SpinPause | YieldThread | SleepMicros i32

record adaptive_spin =
  idle_count :: i32
  spin_threshold :: i32
  yield_threshold :: i32
  sleep_us :: i32

definition spin_new :: "i32 \<Rightarrow> i32 \<Rightarrow> i32 \<Rightarrow> adaptive_spin" where
  "spin_new st yt su = \<lparr>idle_count = 0, spin_threshold = st, yield_threshold = yt, sleep_us = su\<rparr>"

definition spin_reset :: "adaptive_spin \<Rightarrow> adaptive_spin" where
  "spin_reset a = a\<lparr>idle_count := 0\<rparr>"

text \<open>\<open>None\<close>: incrementing the largest \<^verbatim>\<open>int\<close> is undefined.\<close>

definition spin_wait :: "adaptive_spin \<Rightarrow> (wait_phase \<times> adaptive_spin) option" where
  "spin_wait a =
     (if sint (idle_count a) = 2 ^ 31 - 1 then None
      else
        let a' = a\<lparr>idle_count := idle_count a + 1\<rparr>
        in Some (if sint (idle_count a') < sint (spin_threshold a') then SpinPause
                 else if sint (idle_count a') < sint (yield_threshold a') then YieldThread
                 else SleepMicros (sleep_us a'), a'))"

section \<open>One thread: no slot is handed out twice\<close>

fun linked :: "slot_ref list \<Rightarrow> slot_ref \<Rightarrow> nat list \<Rightarrow> bool" where
  "linked nx first [] = (first = None)"
| "linked nx first (x # xs) = (first = Some x \<and> x < length nx \<and> linked nx (nx ! x) xs)"

definition pool_inv :: "nat \<Rightarrow> nat list \<Rightarrow> nat set \<Rightarrow> object_pool \<Rightarrow> bool" where
  "pool_inv n free held p \<longleftrightarrow> length (slot_next p) = n \<and> linked (slot_next p) (free_list p) free \<and>
     distinct free \<and> set free \<inter> held = {} \<and> set free \<union> held = {..<n} \<and>
     available_count p = word_of_nat (length free)"

lemma linked_upd: "x \<notin> set xs \<Longrightarrow> linked (nx[x := v]) first xs = linked nx first xs"
  by (induction xs arbitrary: first) auto

lemma linked_upt:
  "k \<le> n \<Longrightarrow> linked (map (\<lambda>i. if i + 1 < n then Some (i + 1) else None) [0..<n]) (if k < n then Some k else None) [k..<n]"
proof (induction "n - k" arbitrary: k)
  case (Suc d)
  then have k: "k < n" "Suc k \<le> n" "d = n - Suc k" by simp_all
  have "(map (\<lambda>i. if i + 1 < n then Some (i + 1) else None) [0..<n]) ! k = (if Suc k < n then Some (Suc k) else None)"
    using k(1) by simp
  with Suc.hyps(1) [OF k(3,2)] k(1) show ?case unfolding upt_conv_Cons [OF k(1)] linked.simps by simp
qed simp

lemma pool_new_inv: "0 < n \<Longrightarrow> pool_inv n [0..<n] {} (pool_new n)"
  using linked_upt [of 0 n] by (auto simp: pool_inv_def pool_new_def)

lemma pool_acquire_spec:
  assumes "pool_inv n free held p"
  shows "free = [] \<Longrightarrow> pool_acquire p = (None, p)"
    and "free = x # xs \<Longrightarrow> fst (pool_acquire p) = Some x \<and> x \<notin> held \<and> pool_inv n xs (insert x held) (snd (pool_acquire p))"
  using assms by (auto simp: pool_inv_def pool_acquire_def)

lemma pool_release_spec:
  assumes "pool_inv n free held p" and "x \<in> held"
  shows "pool_inv n (x # free) (held - {x}) (pool_release (Some x) p)"
proof -
  have x: "x \<notin> set free" "x < length (slot_next p)" using assms by (auto simp: pool_inv_def)
  with assms show ?thesis by (auto simp: pool_inv_def pool_release_def linked_upd)
qed

text \<open>A run of acquisitions and releases by one thread: the slots it got, and its holdings.\<close>

datatype pool_op = Acquire | Release nat

fun pool_ops :: "pool_op list \<Rightarrow> object_pool \<Rightarrow> nat set \<Rightarrow> (slot_ref list \<times> object_pool \<times> nat set) option" where
  "pool_ops [] p held = Some ([], p, held)"
| "pool_ops (Acquire # ops) p held =
     (let (r, p1) = pool_acquire p in
      do { (rs, p2, held2) \<leftarrow> pool_ops ops p1 (case r of None \<Rightarrow> held | Some x \<Rightarrow> insert x held);
           Some (r # rs, p2, held2) })"
| "pool_ops (Release x # ops) p held =
     (if x \<in> held then pool_ops ops (pool_release (Some x) p) (held - {x}) else None)"


lemma pool_ops_inv:
  assumes "pool_inv n free held p" and "pool_ops ops p held = Some (rs, p', held')"
  shows "\<exists>free'. pool_inv n free' held' p'"
  using assms
proof (induction ops p held arbitrary: free rs rule: pool_ops.induct)
  case (2 ops p held)
  obtain r p1 where a: "pool_acquire p = (r, p1)" by force
  with "2.prems"(2) obtain rs1 where
    rest: "pool_ops ops p1 (case r of None \<Rightarrow> held | Some x \<Rightarrow> insert x held) = Some (rs1, p', held')"
    by (auto split: bind_splits)
  have "\<exists>free1. pool_inv n free1 (case r of None \<Rightarrow> held | Some x \<Rightarrow> insert x held) p1"
    using "2.prems"(1) pool_acquire_spec [OF "2.prems"(1)] a by (cases free) auto
  with "2.IH" [OF a [symmetric] refl _ rest] show ?case by blast
next
  case (3 x ops p held)
  then show ?case using pool_release_spec [OF "3.prems"(1), of x] by (auto split: if_splits)
qed auto

section \<open>Properties\<close>

text \<open>Used by one thread at a time, the pool never hands out a slot that is held: after any
  sequence of acquisitions and releases of held slots an acquisition yields a slot of the pool that
  is not held, or null exactly when all slots are; and the counter is the number of free slots.\<close>

lemma pool_exclusive:
  assumes "0 < n" and "n < 2 ^ 64" and "pool_ops ops (pool_new n) {} = Some (rs, p, held)"
  shows "held \<subseteq> {..<n} \<and> unat (available_count p) = n - card held \<and>
    (case fst (pool_acquire p) of None \<Rightarrow> held = {..<n} | Some x \<Rightarrow> x < n \<and> x \<notin> held)"
proof -
  obtain free where inv: "pool_inv n free held p"
    using pool_ops_inv [OF pool_new_inv [OF assms(1)] assms(3)] by blast
  then have f: "distinct free" "set free \<inter> held = {}" "set free \<union> held = {..<n}"
    "available_count p = word_of_nat (length free)" by (simp_all add: pool_inv_def)
  have fin: "finite held" using f(3) by (metis finite_Un finite_lessThan)
  have "card (set free \<union> held) = length free + card held"
    using card_Un_disjoint [OF _ fin f(2)] distinct_card [OF f(1)] by simp
  then have "length free = n - card held" unfolding f(3) by simp
  moreover have "length free < 2 ^ 64" using assms(2) calculation by linarith
  ultimately have "unat (available_count p) = n - card held" by (simp add: f(4) unat_of_nat)
  moreover have "case fst (pool_acquire p) of None \<Rightarrow> held = {..<n} | Some x \<Rightarrow> x < n \<and> x \<notin> held"
  proof (cases free)
    case Nil
    with pool_acquire_spec(1) [OF inv] f(3) show ?thesis by simp
  next
    case (Cons x xs)
    then have "x < n" using f(3) by auto
    with Cons pool_acquire_spec(2) [OF inv] show ?thesis by auto
  qed
  ultimately show ?thesis using f(3) by blast
qed

lemma pool_exclusive_witness:
  "\<exists>rs p held. pool_ops [Acquire, Acquire, Release 0] (pool_new 3) {} = Some (rs, p, held) \<and>
     held = {1} \<and> unat (available_count p) = 2"
proof -
  have eval: "pool_ops [Acquire, Acquire, Release 0] (pool_new 3) {} =
      Some ([Some 0, Some 1], snd (pool_acquire (snd (pool_acquire (pool_new 3)))) \<lparr>
        slot_next := [Some 2, Some 2, None], free_list := Some 0, available_count := 2\<rparr>, {1})"
    by (simp add: pool_new_def pool_acquire_def pool_release_def upt_rec insert_Diff_if)
  from pool_exclusive [OF _ _ eval] eval show ?thesis by simp
qed

text \<open>C38: With two threads the pool can hand out the same slot twice: the first reads the head and its
  successor, the second takes both slots and returns the first, and the exchange of the first
  thread then succeeds although the successor is in use (the ABA problem), so that it gets the slot
  the other still holds.\<close>

theorem pool_aba:
  "\<exists>acts s x. pool_run acts (pool_system_new 2 2) = Some s \<and> x \<in> set (ps_held s ! 0) \<and> x \<in> set (ps_held s ! 1)"
proof -
  let ?acq = "\<lambda>t. [(t, StartAcquire), (t, Advance), (t, Advance), (t, Advance)]"
  let ?acts = "[(0, StartAcquire), (0, Advance)] @ ?acq 1 @ ?acq 1 @
    [(1, StartRelease 0), (1, Advance), (1, Advance), (1, Advance)] @ [(0, Advance), (0, Advance)] @ ?acq (0 :: nat)"
  have "\<exists>s. pool_run ?acts (pool_system_new 2 2) = Some s \<and> ps_held s = [[1, 0], [1]]"
    by (simp add: pool_run_def pool_step_def after_load_def pool_system_new_def pool_new_def upt_rec Let_def numeral_2_eq_2)
  then show ?thesis by (intro exI [of _ ?acts]) auto
qed

end
