(* ===== verification/Rcu_Snapshot.thy ===== *)
theory Rcu_Snapshot
  imports String_Intern "HOL-Library.Sublist"
begin

text \<open>
  Copy-on-write snapshots of the subscription tables, \<^verbatim>\<open>src/tyche/cpp/engine/rcu_snapshot.h\<close>.  Snapshots
  are objects that readers share through pointers, so they live on a heap; a shared pointer is an index
  into it and nothing that is still pointed to is ever freed.  Every operation holds the lock for its
  whole length, so that concurrent use is a sequence of operations.
\<close>

section \<open>Snapshots\<close>

record subscription_snapshot =
  ss_topic_subscribers :: "(u32 \<times> string list) list"
  ss_topic_producers :: "(u32 \<times> string list) list"
  ss_job_handlers :: "(u32 \<times> string list) list"
  ss_module_availability :: "(string \<times> (string \<times> bool) list) list"
  ss_unavailable_handlers :: "(string \<times> string list) list"

definition empty_snapshot :: subscription_snapshot where
  "empty_snapshot = \<lparr>ss_topic_subscribers = [], ss_topic_producers = [], ss_job_handlers = [], ss_module_availability = [],
     ss_unavailable_handlers = []\<rparr>"

record rcu =
  rcu_heap :: "subscription_snapshot list"
  rcu_current :: "nat option"

definition rcu_new :: rcu where
  "rcu_new = \<lparr>rcu_heap = [], rcu_current = None\<rparr>"

text \<open>\<^verbatim>\<open>clone\<close> makes a new object with the five tables of the old one.\<close>

definition clone :: "nat \<Rightarrow> rcu \<Rightarrow> nat \<times> rcu" where
  "clone p r =
     (let s = rcu_heap r ! p;
          copy = empty_snapshot\<lparr>ss_topic_subscribers := ss_topic_subscribers s, ss_topic_producers := ss_topic_producers s,
            ss_job_handlers := ss_job_handlers s, ss_module_availability := ss_module_availability s,
            ss_unavailable_handlers := ss_unavailable_handlers s\<rparr>
      in (length (rcu_heap r), r\<lparr>rcu_heap := rcu_heap r @ [copy]\<rparr>))"

definition rcu_load :: "rcu \<Rightarrow> nat option" where
  "rcu_load r = rcu_current r"

definition rcu_store :: "nat option \<Rightarrow> rcu \<Rightarrow> rcu" where
  "rcu_store p r = r\<lparr>rcu_current := p\<rparr>"

definition rcu_update :: "(subscription_snapshot \<Rightarrow> subscription_snapshot) \<Rightarrow> rcu \<Rightarrow> bool \<times> rcu" where
  "rcu_update modify r =
     (let (p, r1) = (case rcu_current r of
            Some c \<Rightarrow> clone c r
          | None \<Rightarrow> (length (rcu_heap r), r\<lparr>rcu_heap := rcu_heap r @ [empty_snapshot]\<rparr>))
      in (True, r1\<lparr>rcu_heap := (rcu_heap r1)[p := modify (rcu_heap r1 ! p)], rcu_current := Some p\<rparr>))"

datatype rcu_op = RcuUpdate "subscription_snapshot \<Rightarrow> subscription_snapshot" | RcuStore "nat option"

fun rcu_run :: "rcu_op list \<Rightarrow> rcu \<Rightarrow> rcu" where
  "rcu_run [] r = r"
| "rcu_run (RcuUpdate f # ops) r = rcu_run ops (snd (rcu_update f r))"
| "rcu_run (RcuStore p # ops) r = rcu_run ops (rcu_store p r)"

section \<open>What readers see\<close>

definition rcu_ok :: "rcu \<Rightarrow> bool" where
  "rcu_ok r \<longleftrightarrow> (case rcu_current r of Some p \<Rightarrow> p < length (rcu_heap r) | None \<Rightarrow> True)"

definition rcu_content :: "rcu \<Rightarrow> subscription_snapshot" where
  "rcu_content r = (case rcu_load r of Some p \<Rightarrow> rcu_heap r ! p | None \<Rightarrow> empty_snapshot)"

lemma clone_spec: "clone p r = (length (rcu_heap r), r\<lparr>rcu_heap := rcu_heap r @ [rcu_heap r ! p]\<rparr>)"
  by (cases "rcu_heap r ! p") (simp add: clone_def empty_snapshot_def)

lemma rcu_update_spec:
  assumes "rcu_ok r"
  shows "rcu_heap (snd (rcu_update f r)) = rcu_heap r @ [f (rcu_content r)]"
    and "rcu_load (snd (rcu_update f r)) = Some (length (rcu_heap r))"
  using assms
  by (auto simp: rcu_update_def clone_spec rcu_content_def rcu_load_def rcu_ok_def Let_def list_update_append
      split: option.splits)

lemma rcu_update_ok: "rcu_ok r \<Longrightarrow> rcu_ok (snd (rcu_update f r))"
  using rcu_update_spec [of r f] by (simp add: rcu_ok_def rcu_load_def)

text \<open>A snapshot that was handed out is never changed, however many updates follow, and no update is
  lost: the current snapshot is the result of all of them in order.\<close>

lemma rcu_updates:
  assumes "rcu_ok r"
  shows "prefix (rcu_heap r) (rcu_heap (rcu_run (map RcuUpdate fs) r)) \<and>
    rcu_content (rcu_run (map RcuUpdate fs) r) = fold (\<lambda>f. f) fs (rcu_content r)"
  using assms
proof (induction fs arbitrary: r)
  case (Cons f fs)
  note u = rcu_update_spec [OF Cons.prems, of f]
  have "rcu_content (snd (rcu_update f r)) = f (rcu_content r)" using u by (simp add: rcu_content_def)
  with Cons.IH [OF rcu_update_ok [OF Cons.prems, of f]] u show ?case by (auto simp: prefix_def)
qed simp

text \<open>Readers are isolated from writers: the snapshot that a reader has loaded keeps its content
  through any number of updates, while the next load gives what all the updates in order make of it.\<close>

lemma rcu_isolated:
  assumes "rcu_ok r" and "rcu_load r = Some p"
  shows "rcu_heap (rcu_run (map RcuUpdate fs) r) ! p = rcu_heap r ! p"
    and "rcu_content (rcu_run (map RcuUpdate fs) r) = fold (\<lambda>f. f) fs (rcu_content r)"
proof -
  have "p < length (rcu_heap r)" using assms by (simp add: rcu_ok_def rcu_load_def)
  with rcu_updates [OF assms(1), of fs] show "rcu_heap (rcu_run (map RcuUpdate fs) r) ! p = rcu_heap r ! p"
    by (auto simp: prefix_def nth_append)
qed (use rcu_updates [OF assms(1)] in blast)

end
