(* ===== verification/Fast_Clock.thy ===== *)
theory Fast_Clock
  imports Step_Systems
begin

text \<open>
  The cached clock of \<^verbatim>\<open>fast_clock.h\<close> and \<^verbatim>\<open>fast_clock.cpp\<close>: a thread that copies the monotonic clock into an atomic
  variable every millisecond, and the functions that start it, stop it and refresh the variable, called from any
  number of threads.  Loads, stores, taking and giving back the mutex, creating and joining the thread are
  atomic steps; a reading of the clock is an argument of the step that takes it and not below
  an earlier one, as \<^verbatim>\<open>CLOCK_MONOTONIC\<close> promises.  The ratio of the cycle counter, which the thread estimates and
  nothing reads, and sleeping are left out.
\<close>

section \<open>State and steps\<close>

type_synonym i64 = "64 word"

definition system_now_ns :: "i64 \<Rightarrow> i64 \<Rightarrow> i64" where
  "system_now_ns tv_sec tv_nsec = tv_sec * 1000000000 + tv_nsec"

datatype clock_pc =
    ClIdle
  | StartCas | StartLock | StartJoinable | StartRead | StartStore i64 | StartSpawn | StartUnlock
  | EndFlag | EndLock | EndJoinable | EndJoin | EndUnlock
  | CalRead | CalStore i64

text \<open>\<open>LoopNone\<close>: the thread object is not joinable.\<close>

datatype loop_pc = LoopNone | LoopFirst | LoopTest | LoopRead | LoopStore i64 | LoopDone

record fast_clock =
  fc_cached_ns :: i64
  fc_running :: bool
  fc_mutex :: "nat option"
  fc_thread :: loop_pc
  fc_pcs :: "clock_pc list"
  fc_time :: int

definition clock_new :: "nat \<Rightarrow> fast_clock" where
  "clock_new threads = \<lparr>fc_cached_ns = 0, fc_running = False, fc_mutex = None, fc_thread = LoopNone,
     fc_pcs = replicate threads ClIdle, fc_time = 0\<rparr>"

definition clock_now :: "fast_clock \<Rightarrow> real" where
  "clock_now c = real_of_int (sint (fc_cached_ns c)) / 10 ^ 9"

datatype clock_act = CallStart nat | CallEnd nat | CallCalibrate nat | CtlStep nat | CtlRead nat i64 i64 | LoopStep | LoopTakes i64 i64

definition clock_to :: "nat \<Rightarrow> clock_pc \<Rightarrow> fast_clock \<Rightarrow> fast_clock" where
  "clock_to t pc c = c\<lparr>fc_pcs := (fc_pcs c)[t := pc]\<rparr>"

fun ctl_step :: "nat \<Rightarrow> clock_pc \<Rightarrow> fast_clock \<Rightarrow> fast_clock option" where
  "ctl_step t StartCas c =
     Some (if fc_running c then clock_to t ClIdle c else (clock_to t StartLock c)\<lparr>fc_running := True\<rparr>)"
| "ctl_step t StartLock c = (if fc_mutex c = None then Some ((clock_to t StartJoinable c)\<lparr>fc_mutex := Some t\<rparr>) else None)"
| "ctl_step t StartJoinable c = Some (clock_to t (if fc_thread c \<noteq> LoopNone then StartUnlock else StartRead) c)"
| "ctl_step t (StartStore ns) c = Some ((clock_to t StartSpawn c)\<lparr>fc_cached_ns := ns\<rparr>)"
| "ctl_step t StartSpawn c = Some ((clock_to t StartUnlock c)\<lparr>fc_thread := LoopFirst\<rparr>)"
| "ctl_step t StartUnlock c = Some ((clock_to t ClIdle c)\<lparr>fc_mutex := None\<rparr>)"
| "ctl_step t EndFlag c = Some ((clock_to t EndLock c)\<lparr>fc_running := False\<rparr>)"
| "ctl_step t EndLock c = (if fc_mutex c = None then Some ((clock_to t EndJoinable c)\<lparr>fc_mutex := Some t\<rparr>) else None)"
| "ctl_step t EndJoinable c = Some (clock_to t (if fc_thread c \<noteq> LoopNone then EndJoin else EndUnlock) c)"
| "ctl_step t EndJoin c = (if fc_thread c = LoopDone then Some ((clock_to t EndUnlock c)\<lparr>fc_thread := LoopNone\<rparr>) else None)"
| "ctl_step t EndUnlock c = Some ((clock_to t ClIdle c)\<lparr>fc_mutex := None\<rparr>)"
| "ctl_step t (CalStore ns) c = Some ((clock_to t ClIdle c)\<lparr>fc_cached_ns := ns\<rparr>)"
| "ctl_step t _ c = None"

text \<open>Taking a reading of the clock.\<close>

definition takes :: "i64 \<Rightarrow> i64 \<Rightarrow> fast_clock \<Rightarrow> fast_clock option" where
  "takes tv_sec tv_nsec c =
     (let ns = sint tv_sec * 1000000000 + sint tv_nsec
      in if fc_time c \<le> ns \<and> ns < 2 ^ 63 then Some (c\<lparr>fc_time := ns\<rparr>) else None)"

text \<open>The calibration thread: first it spins for a millisecond, then it copies the clock while the flag is up.\<close>

fun loop_step :: "loop_pc \<Rightarrow> fast_clock \<Rightarrow> fast_clock option" where
  "loop_step LoopFirst c = Some (c\<lparr>fc_thread := LoopTest\<rparr>)"
| "loop_step LoopTest c = Some (c\<lparr>fc_thread := (if fc_running c then LoopRead else LoopDone)\<rparr>)"
| "loop_step (LoopStore ns) c = Some (c\<lparr>fc_cached_ns := ns, fc_thread := LoopTest\<rparr>)"
| "loop_step _ c = None"

fun clock_step :: "clock_act \<Rightarrow> fast_clock \<Rightarrow> fast_clock option" where
  "clock_step (CallStart t) c = (if t < length (fc_pcs c) \<and> fc_pcs c ! t = ClIdle then Some (clock_to t StartCas c) else None)"
| "clock_step (CallEnd t) c = (if t < length (fc_pcs c) \<and> fc_pcs c ! t = ClIdle then Some (clock_to t EndFlag c) else None)"
| "clock_step (CallCalibrate t) c = (if t < length (fc_pcs c) \<and> fc_pcs c ! t = ClIdle then Some (clock_to t CalRead c) else None)"
| "clock_step (CtlStep t) c = (if t < length (fc_pcs c) then ctl_step t (fc_pcs c ! t) c else None)"
| "clock_step (CtlRead t sec nsec) c =
     (if t < length (fc_pcs c)
      then (case fc_pcs c ! t of
              StartRead \<Rightarrow> map_option (clock_to t (StartStore (system_now_ns sec nsec))) (takes sec nsec c)
            | CalRead \<Rightarrow> map_option (clock_to t (CalStore (system_now_ns sec nsec))) (takes sec nsec c)
            | _ \<Rightarrow> None)
      else None)"
| "clock_step LoopStep c = loop_step (fc_thread c) c"
| "clock_step (LoopTakes sec nsec) c =
     (if fc_thread c = LoopRead then map_option (\<lambda>c'. c'\<lparr>fc_thread := LoopStore (system_now_ns sec nsec)\<rparr>) (takes sec nsec c) else None)"

section \<open>Starting and stopping keep the clock monotone\<close>

lemma sint_system_now:
  assumes "0 \<le> sint s * 1000000000 + sint n" "sint s * 1000000000 + sint n < 2 ^ 63"
  shows "sint (system_now_ns s n) = sint s * 1000000000 + sint n"
proof -
  have "system_now_ns s n = word_of_int (sint s * 1000000000 + sint n)" by (simp add: system_now_ns_def)
  then show ?thesis using assms by (simp only:) (subst sint_sbintrunc', simp add: signed_take_bit_int_eq_self)
qed

fun locked_pc :: "clock_pc \<Rightarrow> bool" where
  "locked_pc StartJoinable \<longleftrightarrow> True"
| "locked_pc StartRead \<longleftrightarrow> True"
| "locked_pc (StartStore v) \<longleftrightarrow> True"
| "locked_pc StartSpawn \<longleftrightarrow> True"
| "locked_pc StartUnlock \<longleftrightarrow> True"
| "locked_pc EndJoinable \<longleftrightarrow> True"
| "locked_pc EndJoin \<longleftrightarrow> True"
| "locked_pc EndUnlock \<longleftrightarrow> True"
| "locked_pc _ \<longleftrightarrow> False"

text \<open>A value that is about to be stored is not below the one that is there.\<close>

fun ctl_ok :: "fast_clock \<Rightarrow> clock_pc \<Rightarrow> bool" where
  "ctl_ok c StartRead \<longleftrightarrow> fc_thread c = LoopNone"
| "ctl_ok c (StartStore v) \<longleftrightarrow> fc_thread c = LoopNone \<and> sint (fc_cached_ns c) \<le> sint v \<and> sint v \<le> fc_time c"
| "ctl_ok c StartSpawn \<longleftrightarrow> fc_thread c = LoopNone"
| "ctl_ok c CalRead \<longleftrightarrow> False"
| "ctl_ok c (CalStore v) \<longleftrightarrow> False"
| "ctl_ok c _ \<longleftrightarrow> True"

fun loop_ok :: "fast_clock \<Rightarrow> loop_pc \<Rightarrow> bool" where
  "loop_ok c (LoopStore v) \<longleftrightarrow> sint (fc_cached_ns c) \<le> sint v \<and> sint v \<le> fc_time c"
| "loop_ok c _ \<longleftrightarrow> True"

definition clock_inv :: "fast_clock \<Rightarrow> bool" where
  "clock_inv c \<longleftrightarrow> 0 \<le> fc_time c \<and> sint (fc_cached_ns c) \<le> fc_time c \<and>
     (\<forall>t < length (fc_pcs c). ctl_ok c (fc_pcs c ! t) \<and> (locked_pc (fc_pcs c ! t) \<longrightarrow> fc_mutex c = Some t)) \<and>
     loop_ok c (fc_thread c)"

lemma ctl_ok_unlocked: "\<not> locked_pc pc \<Longrightarrow> ctl_ok c pc \<Longrightarrow> ctl_ok c' pc"
  by (cases pc) simp_all

lemma loop_ok_simps [simp]:
  "loop_ok (c\<lparr>fc_pcs := ps\<rparr>) q = loop_ok c q" "loop_ok (c\<lparr>fc_running := r\<rparr>) q = loop_ok c q"
  "loop_ok (c\<lparr>fc_mutex := m\<rparr>) q = loop_ok c q" "loop_ok (c\<lparr>fc_thread := h\<rparr>) q = loop_ok c q"
  by (cases q; simp)+

lemma clock_invD:
  assumes "clock_inv c" "u < length (fc_pcs c)"
  shows "ctl_ok c (fc_pcs c ! u)" "locked_pc (fc_pcs c ! u) \<Longrightarrow> fc_mutex c = Some u"
  using assms by (simp_all add: clock_inv_def)

text \<open>A step of one thread: what it has to establish for itself, for the mutex and for the others.\<close>

lemma clock_inv_step:
  assumes inv: "clock_inv c" and t: "t < length (fc_pcs c)" and pcs: "fc_pcs c' = (fc_pcs c)[t := fc_pcs c' ! t]"
    and own: "ctl_ok c' (fc_pcs c' ! t)" "locked_pc (fc_pcs c' ! t) \<Longrightarrow> fc_mutex c' = Some t"
    and mutex: "fc_mutex c' = fc_mutex c \<or> fc_mutex c = None \<or> fc_mutex c = Some t"
    and others: "locked_pc (fc_pcs c ! t) \<or> fc_thread c' = fc_thread c \<and> fc_cached_ns c' = fc_cached_ns c \<and> fc_time c' = fc_time c"
    and val: "0 \<le> fc_time c'" "sint (fc_cached_ns c') \<le> fc_time c'"
      "loop_ok c' (fc_thread c')"
  shows "clock_inv c'"
proof -
  have "ctl_ok c' (fc_pcs c ! u) \<and> (locked_pc (fc_pcs c ! u) \<longrightarrow> fc_mutex c' = Some u)" if u: "u < length (fc_pcs c)" "u \<noteq> t" for u
  proof (cases "locked_pc (fc_pcs c ! u)")
    case True
    then have m: "fc_mutex c = Some u" using clock_invD(2) [OF inv u(1)] by blast
    with u(2) clock_invD(2) [OF inv t] have "\<not> locked_pc (fc_pcs c ! t)" by auto
    with others have same: "fc_thread c' = fc_thread c" "fc_cached_ns c' = fc_cached_ns c" "fc_time c' = fc_time c" by simp_all
    have "ctl_ok c' (fc_pcs c ! u)"
      using clock_invD(1) [OF inv u(1)] same by (cases "fc_pcs c ! u") simp_all
    with m mutex u(2) show ?thesis by auto
  qed (use clock_invD(1) [OF inv u(1)] ctl_ok_unlocked in blast)
  then have "ctl_ok c' (fc_pcs c' ! u) \<and> (locked_pc (fc_pcs c' ! u) \<longrightarrow> fc_mutex c' = Some u)" if "u < length (fc_pcs c)" for u
    using own that by (cases "u = t") (simp_all, metis pcs nth_list_update_neq)
  moreover have "length (fc_pcs c') = length (fc_pcs c)" by (metis pcs length_list_update)
  ultimately show ?thesis using val by (simp add: clock_inv_def)
qed

lemma clock_ctl:
  assumes inv: "clock_inv c" and t: "t < length (fc_pcs c)" and st: "ctl_step t (fc_pcs c ! t) c = Some c'"
  shows "clock_inv c' \<and> sint (fc_cached_ns c) \<le> sint (fc_cached_ns c')"
proof -
  note I = clock_invD [OF inv t]
  have base: "0 \<le> fc_time c" "sint (fc_cached_ns c) \<le> fc_time c" "loop_ok c (fc_thread c)"
    using inv by (simp_all add: clock_inv_def)
  show ?thesis
    using st I base t
    by (cases "fc_pcs c ! t") (auto simp: clock_to_def split: if_splits intro!: clock_inv_step [OF inv t])
qed

lemma ctl_ok_loop: "fc_thread c \<noteq> LoopNone \<Longrightarrow> ctl_ok c pc \<Longrightarrow> ctl_ok c' pc"
  by (cases pc) simp_all

text \<open>The thread's own steps: while it exists no caller is about to write.\<close>

lemma clock_loop:
  assumes inv: "clock_inv c" and th: "fc_thread c \<noteq> LoopNone" and same: "fc_pcs c' = fc_pcs c" "fc_mutex c' = fc_mutex c"
    and val: "0 \<le> fc_time c'" "sint (fc_cached_ns c') \<le> fc_time c'" "loop_ok c' (fc_thread c')"
  shows "clock_inv c'"
  using inv ctl_ok_loop [OF th, of _ c'] same val by (simp add: clock_inv_def)

lemma takes_spec:
  assumes "takes s n c = Some c'" "0 \<le> fc_time c"
  shows "c' = c\<lparr>fc_time := sint (system_now_ns s n)\<rparr>" "fc_time c \<le> sint (system_now_ns s n)"
  using assms sint_system_now [of s n] by (auto simp: takes_def Let_def split: if_splits)

fun refreshes :: "clock_act \<Rightarrow> bool" where
  "refreshes (CallCalibrate t) \<longleftrightarrow> True"
| "refreshes _ \<longleftrightarrow> False"

lemma clock_inv_call:
  assumes "clock_inv c" "t < length (fc_pcs c)" "fc_pcs c ! t = ClIdle" "pc = StartCas \<or> pc = EndFlag"
  shows "clock_inv (clock_to t pc c)"
  using assms by (intro clock_inv_step [OF assms(1,2)]) (auto simp: clock_to_def clock_inv_def)

lemma clock_keeps:
  assumes st: "clock_step a c = Some c'" and a: "\<not> refreshes a" and inv: "clock_inv c"
  shows "clock_inv c' \<and> sint (fc_cached_ns c) \<le> sint (fc_cached_ns c')"
proof -
  have base: "0 \<le> fc_time c" "sint (fc_cached_ns c) \<le> fc_time c" "loop_ok c (fc_thread c)"
    using inv by (simp_all add: clock_inv_def)
  show ?thesis
  proof (cases a)
    case (CtlStep t)
    with st clock_ctl [OF inv, of t] show ?thesis by (auto split: if_splits)
  next
    case (CtlRead t s n)
    with st obtain d where t: "t < length (fc_pcs c)" and d: "takes s n c = Some d"
      and pc: "fc_pcs c ! t = StartRead \<and> c' = clock_to t (StartStore (system_now_ns s n)) d \<or> fc_pcs c ! t = CalRead"
      by (auto split: if_splits clock_pc.splits)
    have pc: "fc_pcs c ! t = StartRead" "c' = clock_to t (StartStore (system_now_ns s n)) d"
      using pc clock_invD(1) [OF inv t] by auto
    note T = takes_spec [OF d base(1)]
    have "clock_inv c'"
      using pc T base t clock_invD [OF inv t] by (intro clock_inv_step [OF inv t]) (auto simp: clock_to_def)
    with pc(2) T(1) show ?thesis by (simp add: clock_to_def)
  next
    case LoopStep
    with st have l: "loop_step (fc_thread c) c = Some c'" by simp
    then have "clock_inv c'" using base
      by (intro clock_loop [OF inv]) (cases "fc_thread c"; auto split: if_splits)+
    with l base(3) show ?thesis by (cases "fc_thread c") (auto split: if_splits)
  next
    case (LoopTakes s n)
    with st obtain d where d: "takes s n c = Some d" "fc_thread c = LoopRead" "c' = d\<lparr>fc_thread := LoopStore (system_now_ns s n)\<rparr>"
      by (auto split: if_splits)
    note T = takes_spec [OF d(1) base(1)]
    have "clock_inv c'" using d T base by (intro clock_loop [OF inv]) auto
    with d T show ?thesis by simp
  qed (use st a inv in \<open>auto simp: clock_to_def [symmetric] intro!: clock_inv_call split: if_splits, auto simp: clock_to_def\<close>)
qed

definition quiet_step :: "clock_act \<Rightarrow> fast_clock \<Rightarrow> fast_clock option" where
  "quiet_step a c = (if refreshes a then None else clock_step a c)"

interpretation clock: stepper quiet_step clock_inv
  by unfold_locales (auto simp: quiet_step_def dest: clock_keeps split: if_splits)

lemma exec_quiet: "\<forall>a \<in> set as. \<not> refreshes a \<Longrightarrow> exec quiet_step as c = exec clock_step as c"
proof (induction as arbitrary: c)
  case (Cons a as)
  then show ?case by (cases "clock_step a c") (simp_all add: quiet_step_def)
qed simp

lemma clock_now_mono: "sint (fc_cached_ns c) \<le> sint (fc_cached_ns c') \<Longrightarrow> clock_now c \<le> clock_now c'"
  unfolding clock_now_def by (intro divide_right_mono) (simp_all only: of_int_le_iff, simp)

lemma quiet_mono:
  "exec quiet_step as c = Some c' \<Longrightarrow> clock_inv c \<Longrightarrow> clock_now c \<le> clock_now c'"
  by (rule clock.exec_relates [where R = "\<lambda>c c'. clock_now c \<le> clock_now c'"])
    (auto simp: quiet_step_def intro!: clock_now_mono dest!: clock_keeps split: if_splits)

lemma clock_new_inv: "clock_inv (clock_new n)"
  by (simp add: clock_inv_def clock_new_def)

section \<open>Properties\<close>

text \<open>The cached time never goes back while any number of threads start and stop the clock, with the calibration thread running
  in between.\<close>

lemma clock_monotone:
  assumes "exec clock_step as (clock_new n) = Some c" and "exec clock_step bs c = Some c'"
    and "\<forall>a \<in> set (as @ bs). \<not> refreshes a"
  shows "clock_now c \<le> clock_now c'"
proof -
  have "exec quiet_step as (clock_new n) = Some c" "exec quiet_step bs c = Some c'" using assms by (simp_all add: exec_quiet)
  with clock.exec_keeps [OF _ clock_new_inv] quiet_mono show ?thesis by blast
qed

lemma clock_monotone_witness:
  "\<exists>c c'. exec clock_step [CallStart 0, CtlStep 0, CtlStep 0, CtlStep 0, CtlRead 0 5 7, CtlStep 0] (clock_new 1) = Some c \<and>
     exec clock_step [CtlStep 0, LoopStep, LoopStep, LoopTakes 5 9, LoopStep] c = Some c' \<and> clock_now c \<le> clock_now c'"
proof -
  let ?as = "[CallStart 0, CtlStep 0, CtlStep 0, CtlStep 0, CtlRead 0 5 7, CtlStep 0]"
  let ?bs = "[CtlStep 0, LoopStep, LoopStep, LoopTakes 5 9, LoopStep]"
  obtain c where c: "exec clock_step ?as (clock_new 1) = Some c" "\<exists>c'. exec clock_step ?bs c = Some c'"
    by (simp add: clock_new_def clock_to_def takes_def Let_def)
  then obtain c' where c': "exec clock_step ?bs c = Some c'" by blast
  from clock_monotone [OF c(1) c'] c(1) c' show ?thesis by auto
qed

text \<open>Refreshing from another thread can set it back, and a start that comes between the two steps of a stop hangs both callers: the flag is
  up again, the stopping thread holds the mutex and waits for a thread that does not end, the
  starting one waits for the mutex.\<close>

lemma calibrate_goes_back:
  "\<exists>as c a c'. exec clock_step as (clock_new 1) = Some c \<and> clock_step a c = Some c' \<and> clock_now c' < clock_now c"
  by (intro exI [of _ "[CallStart 0, CtlStep 0, CtlStep 0, CtlStep 0, CtlRead 0 5 7, CtlStep 0, CtlStep 0, CtlStep 0,
      CallCalibrate 0, CtlRead 0 5 8, LoopStep, LoopStep, LoopTakes 5 9, LoopStep]"])
    (simp add: clock_new_def clock_to_def takes_def Let_def clock_now_def system_now_ns_def, rule exI [of _ "CtlStep 0"], simp add: clock_to_def)

definition hung :: "fast_clock \<Rightarrow> bool" where
  "hung c \<longleftrightarrow> fc_pcs c = [EndJoin, StartLock] \<and> fc_mutex c = Some 0 \<and> fc_running c \<and> fc_thread c \<notin> {LoopNone, LoopDone}"

lemma hung_step: "clock_step a c = Some c' \<Longrightarrow> hung c \<Longrightarrow> hung c'"
  by (cases a)
    (auto simp: hung_def nth_Cons takes_def Let_def elim!: loop_step.elims split: if_splits nat.splits clock_pc.splits)

interpretation hang: stepper clock_step hung
  by unfold_locales (rule hung_step)

lemma clock_stop_hangs:
  "\<exists>as c. exec clock_step as (clock_new 2) = Some c \<and> (\<forall>bs c'. exec clock_step bs c = Some c' \<longrightarrow> fc_pcs c' = [EndJoin, StartLock])"
proof -
  let ?as = "[CallStart 0, CtlStep 0, CtlStep 0, CtlStep 0, CtlRead 0 5 7, CtlStep 0, CtlStep 0, CtlStep 0,
    CallEnd 0, CtlStep 0, CallStart 1, CtlStep 1, CtlStep 0, CtlStep 0]"
  have "\<exists>c. exec clock_step ?as (clock_new 2) = Some c \<and> hung c"
    by (simp add: clock_new_def clock_to_def takes_def Let_def hung_def numeral_2_eq_2)
  with hang.exec_keeps show ?thesis unfolding hung_def by metis
qed

end
