(* ===== verification/Dynamic_Library.thy ===== *)
theory Dynamic_Library
  imports Step_Systems "HOL-Library.Multiset"
begin

text \<open>
  The wrapper around the platform's loader (\<^verbatim>\<open>dynamic_library.cpp\<close>) and the thread affinity calls
  (\<^verbatim>\<open>thread_affinity.cpp\<close>).  The platform is a parameter: what opening a path gives (\<open>0\<close> is the null pointer), what looking a symbol up
  gives, what the scheduler answers.  The state of the loader is the bag of handles that have been
  opened and not closed, one occurrence for each opening.
\<close>

section \<open>The wrapper\<close>

type_synonym handle = nat

text \<open>\<open>dl_impl\<close> is \<open>None\<close> in an object that was moved from.\<close>

record dynamic_library =
  dl_impl :: "handle option"
  dl_path :: string
  dl_loaded :: bool

definition dl_new :: "(string \<Rightarrow> handle) \<Rightarrow> string \<Rightarrow> dynamic_library" where
  "dl_new dlopen path = \<lparr>dl_impl = Some (dlopen path), dl_path = path, dl_loaded = (dlopen path \<noteq> 0)\<rparr>"

text \<open>What the destructor closes.\<close>

definition dl_destroy :: "dynamic_library \<Rightarrow> handle multiset" where
  "dl_destroy d = (case dl_impl d of Some h \<Rightarrow> if h \<noteq> 0 then {#h#} else {#} | None \<Rightarrow> {#})"

text \<open>The object moved to, and what is left of the source.\<close>

definition dl_move :: "dynamic_library \<Rightarrow> dynamic_library \<times> dynamic_library" where
  "dl_move other = (other, other\<lparr>dl_impl := None, dl_path := [], dl_loaded := False\<rparr>)"

definition dl_get_symbol :: "(handle \<Rightarrow> string \<Rightarrow> nat) \<Rightarrow> string \<Rightarrow> dynamic_library \<Rightarrow> nat option" where
  "dl_get_symbol dlsym name d = (if \<not> dl_loaded d then Some 0 else map_option (\<lambda>h. dlsym h name) (dl_impl d))"

section \<open>Programs with library objects\<close>

record dl_world =
  dw_objs :: "dynamic_library option list"
  dw_open :: "handle multiset"

definition dl_holds :: "dynamic_library option \<Rightarrow> handle multiset" where
  "dl_holds o' = (case o' of Some d \<Rightarrow> dl_destroy d | None \<Rightarrow> {#})"

datatype dl_op = DlNew nat string | DlDestroy nat | DlMoveNew nat nat | DlMoveAssign nat nat

text \<open>Move assignment replaces the members; the object's old \<^verbatim>\<open>Impl\<close> is deleted, which closes nothing.\<close>

fun dl_step :: "(string \<Rightarrow> handle) \<Rightarrow> dl_op \<Rightarrow> dl_world \<Rightarrow> dl_world option" where
  "dl_step dlopen (DlNew i path) w =
     (if i < length (dw_objs w) \<and> dw_objs w ! i = None
      then (let d = dl_new dlopen path
            in Some (w\<lparr>dw_objs := (dw_objs w)[i := Some d], dw_open := dw_open w + (if dlopen path \<noteq> 0 then {#dlopen path#} else {#})\<rparr>))
      else None)"
| "dl_step dlopen (DlDestroy i) w =
     (if i < length (dw_objs w)
      then (case dw_objs w ! i of
              None \<Rightarrow> None
            | Some d \<Rightarrow> Some (w\<lparr>dw_objs := (dw_objs w)[i := None], dw_open := dw_open w - dl_destroy d\<rparr>))
      else None)"
| "dl_step dlopen (DlMoveNew i j) w =
     (if i < length (dw_objs w) \<and> j < length (dw_objs w) \<and> dw_objs w ! i = None
      then (case dw_objs w ! j of
              None \<Rightarrow> None
            | Some d \<Rightarrow> (let (a, b) = dl_move d in Some (w\<lparr>dw_objs := (dw_objs w)[i := Some a, j := Some b]\<rparr>)))
      else None)"
| "dl_step dlopen (DlMoveAssign i j) w =
     (if i < length (dw_objs w) \<and> j < length (dw_objs w)
      then (case (dw_objs w ! i, dw_objs w ! j) of
              (Some c, Some d) \<Rightarrow>
                if i = j then Some w
                else (let (a, b) = dl_move d in Some (w\<lparr>dw_objs := (dw_objs w)[i := Some a, j := Some b]\<rparr>))
            | _ \<Rightarrow> None)
      else None)"

definition dl_world_new :: "nat \<Rightarrow> dl_world" where
  "dl_world_new n = \<lparr>dw_objs = replicate n None, dw_open = {#}\<rparr>"

definition dl_total :: "dynamic_library option list \<Rightarrow> handle multiset" where
  "dl_total xs = sum_list (map dl_holds xs)"

section \<open>Who closes what\<close>

lemma dl_total_update:
  "i < length xs \<Longrightarrow> dl_total (xs[i := y]) + dl_holds (xs ! i) = dl_total xs + dl_holds y"
  by (induction xs arbitrary: i) (auto simp: dl_total_def nth_Cons ac_simps split: nat.splits)

lemma dl_total_None: "i < length xs \<Longrightarrow> xs ! i = None \<Longrightarrow> dl_total (xs[i := y]) = dl_total xs + dl_holds y"
  using dl_total_update [of i xs y] by (simp add: dl_holds_def)

lemma dl_holds_move: "dl_move d = (a, b) \<Longrightarrow> dl_holds (Some a) = dl_holds (Some d) \<and> dl_holds (Some b) = {#}"
  by (auto simp: dl_move_def dl_holds_def dl_destroy_def)

text \<open>What an operation loses: the library of the object that a move assignment overwrites.\<close>

fun dl_loses :: "dl_op \<Rightarrow> dl_world \<Rightarrow> handle multiset" where
  "dl_loses (DlMoveAssign i j) w = (if i = j then {#} else dl_holds (dw_objs w ! i))"
| "dl_loses _ w = {#}"

fun dl_run :: "(string \<Rightarrow> handle) \<Rightarrow> dl_op list \<Rightarrow> dl_world \<Rightarrow> (handle multiset \<times> dl_world) option" where
  "dl_run dlopen [] w = Some ({#}, w)"
| "dl_run dlopen (op # ops) w =
     do { w1 \<leftarrow> dl_step dlopen op w; (l, w') \<leftarrow> dl_run dlopen ops w1; Some (dl_loses op w + l, w') }"

lemma dl_total_move:
  assumes "i < length xs" "j < length xs" "i \<noteq> j" "xs ! j = Some d" "dl_move d = (a, b)"
  shows "dl_total (xs[i := Some a, j := Some b]) + dl_holds (xs ! i) = dl_total xs"
proof -
  have h: "dl_holds (Some a) = dl_holds (Some d)" "dl_holds (Some b) = {#}" using dl_holds_move [OF assms(5)] by simp_all
  have "dl_total (xs[i := Some a, j := Some b]) + dl_holds (Some d) = dl_total (xs[i := Some a])"
    using dl_total_update [of j "xs[i := Some a]" "Some b"] assms h by simp
  then have "dl_total (xs[i := Some a, j := Some b]) + dl_holds (Some d) + dl_holds (xs ! i) = dl_total xs + dl_holds (Some d)"
    using dl_total_update [OF assms(1), of "Some a"] h by simp
  then have "dl_total (xs[i := Some a, j := Some b]) + dl_holds (xs ! i) + dl_holds (Some d) = dl_total xs + dl_holds (Some d)"
    by (simp only: add.assoc add.commute add.left_commute)
  then show ?thesis by simp
qed

lemma dl_total_empty: "\<forall>d \<in> set xs. d = None \<Longrightarrow> dl_total xs = {#}"
  by (induction xs) (simp_all add: dl_total_def dl_holds_def)

lemma dl_step_account:
  assumes "dl_step dlopen op w = Some w'" "dw_open w = dl_total (dw_objs w) + l"
  shows "dw_open w' = dl_total (dw_objs w') + (dl_loses op w + l)"
proof (cases op)
  case (DlNew i path)
  with assms have "w' = w\<lparr>dw_objs := (dw_objs w)[i := Some (dl_new dlopen path)],
      dw_open := dw_open w + (if dlopen path \<noteq> 0 then {#dlopen path#} else {#})\<rparr>" "i < length (dw_objs w)" "dw_objs w ! i = None"
    by (auto simp: Let_def split: if_splits)
  with DlNew assms(2) dl_total_None [of i "dw_objs w"] show ?thesis
    by (simp add: dl_holds_def dl_destroy_def dl_new_def ac_simps)
next
  case (DlDestroy i)
  with assms obtain d where d: "i < length (dw_objs w)" "dw_objs w ! i = Some d"
    "w' = w\<lparr>dw_objs := (dw_objs w)[i := None], dw_open := dw_open w - dl_destroy d\<rparr>"
    by (auto split: if_splits option.splits)
  have "dl_total (dw_objs w) = dl_total ((dw_objs w)[i := None]) + dl_destroy d"
    using dl_total_update [OF d(1), of None] d(2) by (simp add: dl_holds_def)
  with DlDestroy d assms(2) show ?thesis by (simp add: ac_simps)
next
  case (DlMoveNew i j)
  with assms obtain d a b where d: "i < length (dw_objs w)" "j < length (dw_objs w)" "dw_objs w ! i = None" "dw_objs w ! j = Some d"
    "dl_move d = (a, b)" "w' = w\<lparr>dw_objs := (dw_objs w)[i := Some a, j := Some b]\<rparr>"
    by (auto simp: Let_def split: if_splits option.splits prod.splits)
  then have "i \<noteq> j" by auto
  with dl_total_move [OF d(1,2) _ d(4,5)] d DlMoveNew assms(2) show ?thesis by (simp add: dl_holds_def)
next
  case (DlMoveAssign i j)
  show ?thesis
  proof (cases "i = j")
    case False
    with assms DlMoveAssign obtain d a b where d: "i < length (dw_objs w)" "j < length (dw_objs w)" "dw_objs w ! j = Some d"
      "dl_move d = (a, b)" "w' = w\<lparr>dw_objs := (dw_objs w)[i := Some a, j := Some b]\<rparr>"
      by (auto simp: Let_def split: if_splits option.splits prod.splits)
    have "dw_open w' = dl_total (dw_objs w') + dl_holds (dw_objs w ! i) + l"
      using dl_total_move [OF d(1,2) False d(3,4)] d(5) assms(2) by simp
    with DlMoveAssign False show ?thesis by (simp add: add.assoc)
  qed (use assms DlMoveAssign in \<open>auto split: if_splits option.splits\<close>)
qed

section \<open>Properties\<close>

text \<open>Every handle that is open belongs to a living object, apart from those that move assignments overwrote: they stay
  open for ever.  Without such assignments nothing is open once all objects are destroyed.\<close>

lemma dl_run_account:
  "dl_run dlopen ops w = Some (l, w') \<Longrightarrow> dw_open w = dl_total (dw_objs w) + k \<Longrightarrow>
     dw_open w' = dl_total (dw_objs w') + (l + k)"
proof (induction ops arbitrary: w l k)
  case (Cons op ops)
  then obtain w1 l1 where s: "dl_step dlopen op w = Some w1" "dl_run dlopen ops w1 = Some (l1, w')" "l = dl_loses op w + l1"
    by (auto split: bind_splits prod.splits)
  from Cons.IH [OF s(2) dl_step_account [OF s(1) Cons.prems(2)]] s(3) show ?case by (simp add: ac_simps)
qed simp

lemma dl_handles_account:
  assumes "dl_run dlopen ops (dl_world_new n) = Some (l, w)" and "\<forall>d \<in> set (dw_objs w). d = None"
  shows "dw_open w = l"
proof -
  have "dl_total (replicate n None) = {#}" by (simp add: dl_total_empty)
  then show ?thesis using dl_run_account [OF assms(1), of "{#}"] dl_total_empty [OF assms(2)] by (simp add: dl_world_new_def)
qed

lemma dl_handles_account_witness:
  "\<exists>w. dl_run (\<lambda>p. length p) [DlNew 0 ''a'', DlNew 1 ''bc'', DlMoveAssign 0 1, DlDestroy 0, DlDestroy 1] (dl_world_new 2) =
     Some ({#1#}, w) \<and> dw_open w = {#1#}"
proof -
  have "\<exists>w. dl_run (\<lambda>p. length p) [DlNew 0 ''a'', DlNew 1 ''bc'', DlMoveAssign 0 1, DlDestroy 0, DlDestroy 1] (dl_world_new 2) =
     Some ({#1#}, w) \<and> (\<forall>d \<in> set (dw_objs w). d = None)"
    by (simp add: dl_world_new_def dl_new_def dl_move_def dl_destroy_def dl_holds_def numeral_2_eq_2)
  with dl_handles_account show ?thesis by blast
qed

text \<open>A symbol is only looked up in a library that is loaded, never through a null pointer.\<close>

definition dl_ok :: "dynamic_library \<Rightarrow> bool" where
  "dl_ok d \<longleftrightarrow> (dl_loaded d \<longrightarrow> (\<exists>h. dl_impl d = Some h \<and> h \<noteq> 0))"

lemma dl_ok_ops: "dl_ok (dl_new dlopen p)" "dl_ok d \<Longrightarrow> dl_ok (fst (dl_move d)) \<and> dl_ok (snd (dl_move d))"
  by (simp_all add: dl_ok_def dl_new_def dl_move_def)

lemma dl_get_symbol_defined: "dl_ok d \<Longrightarrow> \<exists>p. dl_get_symbol dlsym name d = Some p"
  by (auto simp: dl_ok_def dl_get_symbol_def)

section \<open>Thread affinity\<close>

text \<open>On Windows the core is a bit of a 64-bit mask (\<open>None\<close>: shifting by the width or more is undefined), on POSIX a member of a set, which
  leaves out cores beyond its 1024.\<close>

definition set_affinity_windows :: "(u64 \<Rightarrow> u64) \<Rightarrow> i32 \<Rightarrow> bool option" where
  "set_affinity_windows set_mask cpu_core =
     (if sint cpu_core < 0 then Some False
      else if sint cpu_core \<ge> 64 then None
      else Some (set_mask (push_bit (nat (sint cpu_core)) 1) \<noteq> 0))"

definition set_affinity_posix :: "(nat set \<Rightarrow> i32) \<Rightarrow> i32 \<Rightarrow> bool" where
  "set_affinity_posix setaffinity cpu_core =
     (if sint cpu_core < 0 then False
      else setaffinity (if sint cpu_core < 1024 then {nat (sint cpu_core)} else {}) = 0)"

end
