(* ===== verification/Gateway_Quotes.thy ===== *)
theory Gateway_Quotes
  imports Ring_Buffer Tyche_Module
begin

text \<open>
  The quote path of the CTP gateway, \<^verbatim>\<open>src/modules/ctp_gateway_cpp/src\<close>: the depth record of the
  market data API is turned into a payload (\<^verbatim>\<open>md_spi.cpp\<close>), a quote of a future is published at
  once, one of an option becomes a \<open>quote_tick\<close> in a ring buffer from which the dispatch thread
  publishes it (\<^verbatim>\<open>ctp_gateway.cpp\<close>, \<^verbatim>\<open>quote_tick.h\<close>).  The fields of the vendored depth record are
  the ones the gateway reads; a character array is the list of its characters.  Clock readings in
  nanoseconds are arguments.
\<close>

section \<open>Data\<close>

record depth_data =
  d_instrument_id :: string
  d_exchange_id :: string
  d_last_price :: double_bits
  d_volume :: i32
  d_bid_price1 :: double_bits
  d_bid_volume1 :: i32
  d_ask_price1 :: double_bits
  d_ask_volume1 :: i32
  d_upper_limit_price :: double_bits
  d_lower_limit_price :: double_bits
  d_open_price :: double_bits
  d_highest_price :: double_bits
  d_lowest_price :: double_bits
  d_pre_settlement_price :: double_bits
  d_open_interest :: double_bits
  d_turnover :: double_bits
  d_update_time :: string
  d_update_millisec :: i32
  d_trading_day :: string

record quote_tick =
  qt_instrument_id :: string
  qt_last_price :: double_bits
  qt_bid_price1 :: double_bits
  qt_ask_price1 :: double_bits
  qt_bid_volume1 :: i32
  qt_ask_volume1 :: i32
  qt_open_interest :: double_bits
  qt_turnover :: double_bits
  qt_upper_limit_price :: double_bits
  qt_lower_limit_price :: double_bits
  qt_open_price :: double_bits
  qt_high_price :: double_bits
  qt_low_price :: double_bits
  qt_pre_settle_price :: double_bits
  qt_update_time :: string
  qt_exchange_id :: string
  qt_trading_day :: string
  qt_volume :: i32
  qt_update_millisec :: i32
  qt_receive_ts_ns :: u64
  qt_sequence :: u32
  qt_flags :: u8

text \<open>\<open>c_str\<close>: a character array up to its first null character (\<^verbatim>\<open>strnlen\<close>, \<^verbatim>\<open>c_str()\<close>,
  \<^verbatim>\<open>instrument_id_sv\<close>).  \<open>copied n s\<close>: an array of \<open>n\<close> zeros after \<^verbatim>\<open>strncpy\<close> of \<open>n - 1\<close>
  characters of \<open>s\<close>.\<close>

definition c_str :: "string \<Rightarrow> string" where
  "c_str s = takeWhile (\<lambda>c. c \<noteq> CHR 0x00) s"

definition copied :: "nat \<Rightarrow> string \<Rightarrow> string" where
  "copied n s = (let c = take (n - 1) (c_str s) in c @ replicate (n - length c) (CHR 0x00))"

definition zero_tick :: quote_tick where
  "zero_tick = \<lparr>qt_instrument_id = replicate 32 (CHR 0x00), qt_last_price = 0, qt_bid_price1 = 0, qt_ask_price1 = 0,
     qt_bid_volume1 = 0, qt_ask_volume1 = 0, qt_open_interest = 0, qt_turnover = 0, qt_upper_limit_price = 0,
     qt_lower_limit_price = 0, qt_open_price = 0, qt_high_price = 0, qt_low_price = 0, qt_pre_settle_price = 0,
     qt_update_time = replicate 9 (CHR 0x00), qt_exchange_id = replicate 9 (CHR 0x00),
     qt_trading_day = replicate 9 (CHR 0x00), qt_volume = 0, qt_update_millisec = 0, qt_receive_ts_ns = 0,
     qt_sequence = 0, qt_flags = 0\<rparr>"

section \<open>Conversions\<close>

definition depth_to_payload :: "depth_data \<Rightarrow> payload" where
  "depth_to_payload d =
     [(''instrument_id'', AString (c_str (d_instrument_id d))), (''exchange_id'', AString (c_str (d_exchange_id d))),
      (''last_price'', ADouble (d_last_price d)), (''volume'', AInt (d_volume d)),
      (''bid_price1'', ADouble (d_bid_price1 d)), (''bid_volume1'', AInt (d_bid_volume1 d)),
      (''ask_price1'', ADouble (d_ask_price1 d)), (''ask_volume1'', AInt (d_ask_volume1 d)),
      (''upper_limit_price'', ADouble (d_upper_limit_price d)), (''lower_limit_price'', ADouble (d_lower_limit_price d)),
      (''open_price'', ADouble (d_open_price d)), (''high_price'', ADouble (d_highest_price d)),
      (''low_price'', ADouble (d_lowest_price d)), (''pre_settle_price'', ADouble (d_pre_settlement_price d)),
      (''open_interest'', ADouble (d_open_interest d)), (''turnover'', ADouble (d_turnover d)),
      (''update_time'', AString (c_str (d_update_time d))), (''update_millisec'', AInt (d_update_millisec d)),
      (''trading_day'', AString (c_str (d_trading_day d)))]"

definition depth_to_tick :: "u64 \<Rightarrow> depth_data \<Rightarrow> quote_tick" where
  "depth_to_tick now_ns d = zero_tick\<lparr>qt_instrument_id := copied 32 (d_instrument_id d),
     qt_exchange_id := copied 9 (d_exchange_id d), qt_update_time := copied 9 (d_update_time d),
     qt_trading_day := copied 9 (d_trading_day d), qt_last_price := d_last_price d, qt_volume := d_volume d,
     qt_bid_price1 := d_bid_price1 d, qt_bid_volume1 := d_bid_volume1 d, qt_ask_price1 := d_ask_price1 d,
     qt_ask_volume1 := d_ask_volume1 d, qt_upper_limit_price := d_upper_limit_price d,
     qt_lower_limit_price := d_lower_limit_price d, qt_open_price := d_open_price d,
     qt_high_price := d_highest_price d, qt_low_price := d_lowest_price d,
     qt_pre_settle_price := d_pre_settlement_price d, qt_open_interest := d_open_interest d,
     qt_turnover := d_turnover d, qt_update_millisec := d_update_millisec d, qt_receive_ts_ns := now_ns\<rparr>"

definition tick_to_payload :: "quote_tick \<Rightarrow> payload" where
  "tick_to_payload t =
     [(''instrument_id'', AString (c_str (qt_instrument_id t))), (''exchange_id'', AString (c_str (qt_exchange_id t))),
      (''last_price'', ADouble (qt_last_price t)), (''volume'', AInt (qt_volume t)),
      (''bid_price1'', ADouble (qt_bid_price1 t)), (''bid_volume1'', AInt (qt_bid_volume1 t)),
      (''ask_price1'', ADouble (qt_ask_price1 t)), (''ask_volume1'', AInt (qt_ask_volume1 t)),
      (''upper_limit'', ADouble (qt_upper_limit_price t)), (''lower_limit'', ADouble (qt_lower_limit_price t)),
      (''open_price'', ADouble (qt_open_price t)), (''high_price'', ADouble (qt_high_price t)),
      (''low_price'', ADouble (qt_low_price t)), (''pre_settle'', ADouble (qt_pre_settle_price t)),
      (''open_interest'', ADouble (qt_open_interest t)), (''turnover'', ADouble (qt_turnover t)),
      (''update_time'', AString (c_str (qt_update_time t))), (''update_millisec'', AInt (qt_update_millisec t)),
      (''trading_day'', AString (c_str (qt_trading_day t)))]"

text \<open>Taking one field from a payload; \<open>None\<close> is the exception of a failed cast, which ends the
  filling and keeps what was filled before.\<close>

definition string_into :: "string \<Rightarrow> nat \<Rightarrow> (string \<Rightarrow> quote_tick \<Rightarrow> quote_tick) \<Rightarrow> payload \<Rightarrow> quote_tick \<Rightarrow> quote_tick option" where
  "string_into key n upd p t =
     (case map_of p key of None \<Rightarrow> Some t | Some (AString s) \<Rightarrow> Some (upd (copied n s) t) | Some _ \<Rightarrow> None)"

definition double_into :: "string \<Rightarrow> (double_bits \<Rightarrow> quote_tick \<Rightarrow> quote_tick) \<Rightarrow> payload \<Rightarrow> quote_tick \<Rightarrow> quote_tick option" where
  "double_into key upd p t =
     (case map_of p key of None \<Rightarrow> Some t | Some (ADouble d) \<Rightarrow> Some (upd d t) | Some _ \<Rightarrow> None)"

definition int_into :: "string \<Rightarrow> (i32 \<Rightarrow> quote_tick \<Rightarrow> quote_tick) \<Rightarrow> payload \<Rightarrow> quote_tick \<Rightarrow> quote_tick option" where
  "int_into key upd p t =
     (case map_of p key of None \<Rightarrow> Some t | Some (AInt i) \<Rightarrow> Some (upd i t) | Some _ \<Rightarrow> None)"

fun fill_fields :: "(payload \<Rightarrow> quote_tick \<Rightarrow> quote_tick option) list \<Rightarrow> payload \<Rightarrow> quote_tick \<Rightarrow> quote_tick" where
  "fill_fields [] p t = t"
| "fill_fields (f # fs) p t = (case f p t of None \<Rightarrow> t | Some t' \<Rightarrow> fill_fields fs p t')"

definition tick_fields :: "(payload \<Rightarrow> quote_tick \<Rightarrow> quote_tick option) list" where
  "tick_fields =
     [string_into ''instrument_id'' 32 (\<lambda>x. qt_instrument_id_update (\<lambda>_. x)),
      string_into ''exchange_id'' 9 (\<lambda>x. qt_exchange_id_update (\<lambda>_. x)),
      double_into ''last_price'' (\<lambda>x. qt_last_price_update (\<lambda>_. x)),
      int_into ''volume'' (\<lambda>x. qt_volume_update (\<lambda>_. x)),
      double_into ''bid_price1'' (\<lambda>x. qt_bid_price1_update (\<lambda>_. x)),
      int_into ''bid_volume1'' (\<lambda>x. qt_bid_volume1_update (\<lambda>_. x)),
      double_into ''ask_price1'' (\<lambda>x. qt_ask_price1_update (\<lambda>_. x)),
      int_into ''ask_volume1'' (\<lambda>x. qt_ask_volume1_update (\<lambda>_. x)),
      double_into ''upper_limit'' (\<lambda>x. qt_upper_limit_price_update (\<lambda>_. x)),
      double_into ''lower_limit'' (\<lambda>x. qt_lower_limit_price_update (\<lambda>_. x)),
      double_into ''open_price'' (\<lambda>x. qt_open_price_update (\<lambda>_. x)),
      double_into ''high_price'' (\<lambda>x. qt_high_price_update (\<lambda>_. x)),
      double_into ''low_price'' (\<lambda>x. qt_low_price_update (\<lambda>_. x)),
      double_into ''pre_settle'' (\<lambda>x. qt_pre_settle_price_update (\<lambda>_. x)),
      double_into ''open_interest'' (\<lambda>x. qt_open_interest_update (\<lambda>_. x)),
      double_into ''turnover'' (\<lambda>x. qt_turnover_update (\<lambda>_. x)),
      string_into ''update_time'' 9 (\<lambda>x. qt_update_time_update (\<lambda>_. x)),
      int_into ''update_millisec'' (\<lambda>x. qt_update_millisec_update (\<lambda>_. x)),
      string_into ''trading_day'' 9 (\<lambda>x. qt_trading_day_update (\<lambda>_. x))]"

definition payload_tick :: "u64 \<Rightarrow> payload \<Rightarrow> quote_tick" where
  "payload_tick now_ns p = (fill_fields tick_fields p zero_tick)\<lparr>qt_receive_ts_ns := now_ns\<rparr>"

section \<open>The gateway\<close>

record gateway =
  gw_module :: tyche_module
  gw_instruments :: "string list"
  gw_options :: "string list"
  gw_ring :: "quote_tick ring_buffer"
  gw_ctp_running :: bool
  gw_cleanup_done :: bool
  gw_started :: bool
  gw_stopping :: bool
  gw_ticks_received :: u64
  gw_ticks_sent :: u64
  gw_option_errors :: i32
  gw_option_dropped :: i32
  gw_tick_stale :: bool
  gw_last_tick_ns :: u64
  gw_reconnects :: i32
  gw_start_secs :: int
  gw_md_tick_time :: u64

definition on_quote_received :: "codec \<Rightarrow> u64 \<Rightarrow> payload \<Rightarrow> gateway \<Rightarrow> (bytes list list \<times> gateway) option" where
  "on_quote_received cx now_ns p g =
     (let g1 = g\<lparr>gw_last_tick_ns := now_ns\<rparr>;
          instrument_id = (case map_of p ''instrument_id'' of Some (AString s) \<Rightarrow> s | _ \<Rightarrow> [])
      in if instrument_id \<noteq> [] \<and> instrument_id \<in> set (gw_options g1) then
           let tick = payload_tick now_ns p in
           do { (ok, rb) \<leftarrow> try_push tick (gw_ring g1);
                g2 \<leftarrow> (if ok then Some (g1\<lparr>gw_ring := rb\<rparr>)
                      else do { rb' \<leftarrow> push_overwrite tick rb;
                                Some (g1\<lparr>gw_ring := rb', gw_option_dropped := gw_option_dropped g1 + 1\<rparr>) });
                Some ([], g2\<lparr>gw_ticks_received := gw_ticks_received g2 + 1\<rparr>) }
         else
           Some (send_event cx ''quote'' p None (gw_module g1),
                 g1\<lparr>gw_ticks_sent := gw_ticks_sent g1 + 1, gw_ticks_received := gw_ticks_received g1 + 1\<rparr>))"

text \<open>\<^verbatim>\<open>OnRtnDepthMarketData\<close>, with the readings of the clock when the tick is made and when the quote is
  received; \<open>None\<close> is the null pointer.\<close>

definition on_depth :: "codec \<Rightarrow> u64 \<Rightarrow> u64 \<Rightarrow> depth_data option \<Rightarrow> gateway \<Rightarrow> (bytes list list \<times> gateway) option" where
  "on_depth cx tick_ns now_ns d g =
     (case d of
        None \<Rightarrow> Some ([], g)
      | Some d \<Rightarrow>
          (let tick = depth_to_tick tick_ns d;
               g1 = g\<lparr>gw_md_tick_time := (if qt_receive_ts_ns tick > 0 then qt_receive_ts_ns tick else now_ns)\<rparr>
           in on_quote_received cx now_ns (depth_to_payload d) g1))"

definition last_tick_age_ms :: "u64 \<Rightarrow> gateway \<Rightarrow> int" where
  "last_tick_age_ms now_ns g = sint ((now_ns - gw_last_tick_ns g) div 1000000)"

definition is_tick_stale :: "u64 \<Rightarrow> gateway \<Rightarrow> bool" where
  "is_tick_stale now_ns g \<longleftrightarrow> last_tick_age_ms now_ns g > 5000"

definition BATCH_SIZE :: nat where
  "BATCH_SIZE = 64"

fun pop_batch :: "nat \<Rightarrow> quote_tick ring_buffer \<Rightarrow> quote_tick list \<times> quote_tick ring_buffer" where
  "pop_batch 0 rb = ([], rb)"
| "pop_batch (Suc n) rb =
     (case pop rb of (None, rb1) \<Rightarrow> ([], rb1)
      | (Some t, rb1) \<Rightarrow> (let (ts, rb2) = pop_batch n rb1 in (t # ts, rb2)))"

definition greeks_event :: "codec \<Rightarrow> tyche_module \<Rightarrow> quote_tick \<Rightarrow> bytes list list" where
  "greeks_event cx m t = send_event cx ''send_compute_greeks'' (tick_to_payload t) None m"

text \<open>One iteration of the dispatch loop: \<open>due\<close> is whether thirty seconds have passed since the last
  check for stale data.\<close>

definition dispatch_iteration :: "codec \<Rightarrow> bool \<Rightarrow> u64 \<Rightarrow> gateway \<Rightarrow> bytes list list \<times> gateway" where
  "dispatch_iteration cx due now_ns g =
     (let g1 = (if due \<and> last_tick_age_ms now_ns g > 30000 then g\<lparr>gw_tick_stale := True\<rparr> else g);
          (batch, rb) = pop_batch BATCH_SIZE (gw_ring g1)
      in (concat (map (greeks_event cx (gw_module g1)) batch),
          g1\<lparr>gw_ring := rb, gw_ticks_sent := gw_ticks_sent g1 + word_of_nat (length batch)\<rparr>))"

text \<open>After the loop: what is left in the buffer.\<close>

partial_function (option) drain_ring :: "quote_tick ring_buffer \<Rightarrow> quote_tick list \<Rightarrow>
    (quote_tick list \<times> quote_tick ring_buffer) option" where
  "drain_ring rb acc =
     (if ring_empty rb then Some (acc, rb)
      else case pop rb of (None, rb1) \<Rightarrow> Some (acc, rb1) | (Some t, rb1) \<Rightarrow> drain_ring rb1 (acc @ [t]))"

definition dispatch_drain :: "codec \<Rightarrow> gateway \<Rightarrow> (bytes list list \<times> gateway) option" where
  "dispatch_drain cx g =
     do { (ts, rb) \<leftarrow> drain_ring (gw_ring g) [];
          Some (concat (map (greeks_event cx (gw_module g)) ts),
                g\<lparr>gw_ring := rb, gw_ticks_sent := gw_ticks_sent g + word_of_nat (length ts)\<rparr>) }"

definition get_status_payload :: "u64 \<Rightarrow> gateway \<Rightarrow> payload" where
  "get_status_payload now_ns g =
     [(''module_id'', AString (shown_id (gw_module g))), (''ticks_received'', AInt64 (gw_ticks_received g)),
      (''ticks_sent'', AInt64 (gw_ticks_sent g)), (''option_dropped'', AInt (gw_option_dropped g)),
      (''option_errors'', AInt (gw_option_errors g)), (''tick_stale'', ABool (is_tick_stale now_ns g)),
      (''last_tick_age_ms'', AInt64 (word_of_int (last_tick_age_ms now_ns g))),
      (''reconnect_count'', AInt (gw_reconnects g)), (''ctp_running'', ABool (gw_ctp_running g)),
      (''ring_buffer_size'', AUInt64 (ring_size (gw_ring g))), (''ring_buffer_cap'', AUInt64 (ring_capacity (gw_ring g)))]"

text \<open>The handler of the job \<^verbatim>\<open>gateway_status\<close>.\<close>

definition gateway_status :: "int \<Rightarrow> u64 \<Rightarrow> gateway \<Rightarrow> payload" where
  "gateway_status now_secs now_ns g =
     [(''status'', AString (if gw_ctp_running g then ''running'' else ''stopped'')),
      (''instruments_count'', AInt (word_of_nat (length (gw_instruments g)))),
      (''option_ring_buffer_depth'', AInt (ucast (ring_size (gw_ring g)))),
      (''reconnect_count'', AInt (gw_reconnects g)), (''ticks_received'', AUInt64 (gw_ticks_received g)),
      (''ticks_sent'', AUInt64 (gw_ticks_sent g)), (''option_dropped_count'', AInt (gw_option_dropped g)),
      (''option_err_count'', AInt (gw_option_errors g)), (''tick_stale'', ABool (gw_tick_stale g)),
      (''uptime_secs'', AInt64 (word_of_int (now_secs - gw_start_secs g))),
      (''last_tick_age_ms'', AInt64 (word_of_int (last_tick_age_ms now_ns g)))]"


section \<open>Strings in character arrays\<close>

lemma c_str_no_null: "CHR 0x00 \<notin> set (c_str s)"
  by (auto simp: c_str_def dest: set_takeWhileD)

lemma c_str_pad: "CHR 0x00 \<notin> set c \<Longrightarrow> c_str (c @ replicate k (CHR 0x00)) = c"
  by (cases k) (auto simp: c_str_def takeWhile_append2 takeWhile_eq_all_conv [THEN iffD2] takeWhile_tail)

lemma c_str_copied [simp]: "c_str (copied n s) = take (n - 1) (c_str s)"
  unfolding copied_def Let_def using c_str_no_null [of s] by (intro c_str_pad) (auto dest: in_set_takeD)

lemma c_str_idem [simp]: "c_str (c_str s) = c_str s"
  by (simp add: c_str_def)

section \<open>The ring buffer of ticks\<close>

lemma pop_batch_spec:
  assumes "ring_inv rb"
  shows "fst (pop_batch n rb) = take n (ring_list rb) \<and> ring_inv (snd (pop_batch n rb)) \<and>
    ring_list (snd (pop_batch n rb)) = drop n (ring_list rb) \<and> length (slots (snd (pop_batch n rb))) = length (slots rb)"
  using assms
proof (induction n arbitrary: rb)
  case (Suc n)
  from Suc.prems show ?case
  proof (cases rule: rb.take_cases)
    case (some x rb1)
    with Suc.IH [OF some(3)] show ?thesis by (auto split: prod.splits)
  next
    case none
    with Suc.prems show ?thesis by simp
  qed
qed simp

lemma drain_ring_spec:
  assumes "ring_inv rb" and "read_pos rb \<le> write_pos rb"
  shows "\<exists>rb'. drain_ring rb acc = Some (acc @ ring_list rb, rb') \<and> ring_inv rb' \<and> ring_list rb' = []"
  using assms
proof (induction "ring_list rb" arbitrary: rb acc)
  case Nil
  have "unat (ring_size rb) = 0" using ring_size_exact [OF Nil.prems(2)] Nil.hyps by simp
  then have "ring_empty rb" by (simp add: ring_empty_def unat_eq_zero)
  with Nil show ?case by (subst drain_ring.simps) simp
next
  case (Cons x xs)
  have "unat (ring_size rb) \<noteq> 0"
    using ring_size_exact [OF Cons.prems(2)] unfolding Cons.hyps(2) [symmetric] by simp
  then have ne: "\<not> ring_empty rb" by (auto simp: ring_empty_def)
  note tk = ring_take_some [OF Cons.prems(1) Cons.hyps(2) [symmetric]]
  have "read_pos rb \<noteq> write_pos rb" using ne by (auto simp: ring_empty_def ring_size_def)
  with Cons.prems(2) have "read_pos rb < write_pos rb" by (simp add: order.strict_iff_order)
  then have "read_pos rb + 1 \<le> write_pos rb" by (rule inc_le)
  then have le: "read_pos (popped rb) \<le> write_pos (popped rb)" by (simp add: popped_def)
  from Cons.hyps(1) [OF tk(3) [symmetric] tk(2) le, of "acc @ [x]"] obtain rb' where
    "drain_ring (popped rb) (acc @ [x]) = Some ((acc @ [x]) @ ring_list (popped rb), rb')" "ring_inv rb'" "ring_list rb' = []"
    by blast
  with ne tk Cons.hyps(2) [symmetric] show ?case by (subst drain_ring.simps) simp
qed

definition option_quote :: "payload \<Rightarrow> gateway \<Rightarrow> bool" where
  "option_quote p g \<longleftrightarrow> (\<exists>s. map_of p ''instrument_id'' = Some (AString s) \<and> s \<noteq> [] \<and> s \<in> set (gw_options g))"

lemma option_quote_iff:
  "option_quote p g \<longleftrightarrow>
     (let s = (case map_of p ''instrument_id'' of Some (AString s) \<Rightarrow> s | _ \<Rightarrow> []) in s \<noteq> [] \<and> s \<in> set (gw_options g))"
  by (auto simp: option_quote_def Let_def split: option.splits any_val.splits)

text \<open>The flag for stale data is never taken back.\<close>

lemma tick_stale_stays:
  "gw_tick_stale g \<Longrightarrow> gw_tick_stale (snd (dispatch_iteration cx due now_ns g))"
  "gw_tick_stale g \<Longrightarrow> on_quote_received cx now_ns p g = Some (sent, g') \<Longrightarrow> gw_tick_stale g'"
  by (auto simp: dispatch_iteration_def on_quote_received_def Let_def split: prod.splits if_splits bind_splits)

lemma on_quote_received_spec:
  assumes "ring_inv (gw_ring g)"
  shows "\<exists>sent g'. on_quote_received cx now_ns p g = Some (sent, g') \<and> ring_inv (gw_ring g') \<and>
    length (slots (gw_ring g')) = length (slots (gw_ring g)) \<and>
    gw_ticks_received g' = gw_ticks_received g + 1 \<and> gw_last_tick_ns g' = now_ns \<and>
    (let room = length (ring_list (gw_ring g)) < length (slots (gw_ring g))
     in if option_quote p g
        then sent = [] \<and> gw_ticks_sent g' = gw_ticks_sent g \<and>
          ring_list (gw_ring g') = (if room then ring_list (gw_ring g) else tl (ring_list (gw_ring g))) @ [payload_tick now_ns p] \<and>
          gw_option_dropped g' = (if room then gw_option_dropped g else gw_option_dropped g + 1)
        else sent = send_event cx ''quote'' p None (gw_module g) \<and> gw_ring g' = gw_ring g \<and>
          gw_ticks_sent g' = gw_ticks_sent g + 1 \<and> gw_option_dropped g' = gw_option_dropped g)"
proof (cases "option_quote p g")
  case False
  then have "on_quote_received cx now_ns p g = Some (send_event cx ''quote'' p None (gw_module g),
      g\<lparr>gw_last_tick_ns := now_ns, gw_ticks_sent := gw_ticks_sent g + 1, gw_ticks_received := gw_ticks_received g + 1\<rparr>)"
    unfolding option_quote_iff by (auto simp: on_quote_received_def Let_def)
  with False assms show ?thesis by (simp add: Let_def)
next
  case True
  let ?t = "payload_tick now_ns p"
  show ?thesis
  proof (cases "length (ring_list (gw_ring g)) < length (slots (gw_ring g))")
    case room: True
    note o = ring_offer_room [OF assms room, of ?t]
    have "on_quote_received cx now_ns p g = Some ([], g\<lparr>gw_last_tick_ns := now_ns, gw_ring := pushed ?t (gw_ring g),
        gw_ticks_received := gw_ticks_received g + 1\<rparr>)"
      using True o(1) unfolding option_quote_iff by (simp add: on_quote_received_def Let_def)
    with True room o(2,3) show ?thesis by (simp add: Let_def pushed_def)
  next
    case full: False
    then have eq: "length (ring_list (gw_ring g)) = length (slots (gw_ring g))" using rb.content_le [OF assms] by simp
    from push_overwrite_spec [OF assms, of ?t] full obtain rb' where
      rb': "push_overwrite ?t (gw_ring g) = Some rb'" "ring_inv rb'" "ring_list rb' = tl (ring_list (gw_ring g)) @ [?t]"
      "length (slots rb') = length (slots (gw_ring g))" by auto
    have "on_quote_received cx now_ns p g = Some ([], g\<lparr>gw_last_tick_ns := now_ns, gw_ring := rb',
        gw_option_dropped := gw_option_dropped g + 1, gw_ticks_received := gw_ticks_received g + 1\<rparr>)"
      using True rb'(1) ring_offer_full [OF assms eq, of ?t] unfolding option_quote_iff
      by (simp add: on_quote_received_def Let_def)
    with True full rb'(2-4) show ?thesis by (simp add: Let_def)
  qed
qed

section \<open>Properties\<close>

text \<open>A quote always gets through: one whose instrument is a known option goes last into the ring
  buffer as a tick, displacing only the oldest tick when the buffer is full, which is counted; any
  other quote is published unchanged at once.  Either way it is counted as received.\<close>

lemma quote_routing:
  assumes "ring_inv (gw_ring g)"
  shows "\<exists>sent g'. on_quote_received cx now_ns p g = Some (sent, g') \<and> ring_inv (gw_ring g') \<and>
    gw_ticks_received g' = gw_ticks_received g + 1 \<and> gw_last_tick_ns g' = now_ns \<and>
    (let room = length (ring_list (gw_ring g)) < length (slots (gw_ring g))
     in if option_quote p g
        then sent = [] \<and> gw_ticks_sent g' = gw_ticks_sent g \<and>
          ring_list (gw_ring g') = (if room then ring_list (gw_ring g) else tl (ring_list (gw_ring g))) @ [payload_tick now_ns p] \<and>
          gw_option_dropped g' = (if room then gw_option_dropped g else gw_option_dropped g + 1)
        else sent = send_event cx ''quote'' p None (gw_module g) \<and> gw_ring g' = gw_ring g \<and>
          gw_ticks_sent g' = gw_ticks_sent g + 1 \<and> gw_option_dropped g' = gw_option_dropped g)"
  using on_quote_received_spec [OF assms, of cx now_ns p] by blast

definition sample_gateway :: gateway where
  "sample_gateway = \<lparr>gw_module = module_new \<lparr>host = ''h'', port = 1\<rparr> ''ctp'' None, gw_instruments = [''IF'', ''IO''],
     gw_options = [''IO''], gw_ring = ring_new zero_tick 65536, gw_ctp_running = True, gw_cleanup_done = False,
     gw_started = True, gw_stopping = False, gw_ticks_received = 0, gw_ticks_sent = 0, gw_option_errors = 0,
     gw_option_dropped = 0, gw_tick_stale = False, gw_last_tick_ns = 0, gw_reconnects = 0, gw_start_secs = 0,
     gw_md_tick_time = 0x8000000000000000\<rparr>"

lemma sample_ring: "ring_inv (gw_ring sample_gateway)" "ring_list (gw_ring sample_gateway) = []"
    "65536 \<le> length (slots (gw_ring sample_gateway))"
  using ring_inv_new [of 65536 zero_tick] by (simp_all add: sample_gateway_def)

lemma quote_routing_witness:
  "\<exists>sent g'. on_quote_received sample_base 7 [(''instrument_id'', AString ''IO'')] sample_gateway = Some (sent, g') \<and>
     sent = [] \<and> ring_list (gw_ring g') = [payload_tick 7 [(''instrument_id'', AString ''IO'')]]"
proof -
  let ?p = "[(''instrument_id'', AString ''IO'')]"
  have o: "option_quote ?p sample_gateway" by (simp add: option_quote_def sample_gateway_def)
  from quote_routing [OF sample_ring(1), of sample_base 7 ?p] o sample_ring(2,3) show ?thesis
    by (auto simp: Let_def)
qed

text \<open>The dispatch thread publishes the ticks of the ring buffer in order: an iteration the first 64,
  leaving the rest, and the final drain, while the write counter has not wrapped, all of them.\<close>

lemma option_dispatch_order:
  assumes "ring_inv (gw_ring g)" and "ring_list (gw_ring g) = ts"
  shows "fst (dispatch_iteration cx due now_ns g) = concat (map (greeks_event cx (gw_module g)) (take 64 ts)) \<and>
    ring_inv (gw_ring (snd (dispatch_iteration cx due now_ns g))) \<and>
    ring_list (gw_ring (snd (dispatch_iteration cx due now_ns g))) = drop 64 ts \<and>
    (read_pos (gw_ring g) \<le> write_pos (gw_ring g) \<longrightarrow>
       (\<exists>g'. dispatch_drain cx g = Some (concat (map (greeks_event cx (gw_module g)) ts), g') \<and> ring_list (gw_ring g') = []))"
proof (intro conjI impI)
  note b = pop_batch_spec [OF assms(1), of 64]
  have ring: "gw_ring (if c then g\<lparr>gw_tick_stale := True\<rparr> else g) = gw_ring g"
    "gw_module (if c then g\<lparr>gw_tick_stale := True\<rparr> else g) = gw_module g" for c by simp_all
  show "fst (dispatch_iteration cx due now_ns g) = concat (map (greeks_event cx (gw_module g)) (take 64 ts))"
    "ring_inv (gw_ring (snd (dispatch_iteration cx due now_ns g)))"
    "ring_list (gw_ring (snd (dispatch_iteration cx due now_ns g))) = drop 64 ts"
    using b assms(2) by (auto simp: dispatch_iteration_def BATCH_SIZE_def Let_def ring split: prod.splits)
  assume le: "read_pos (gw_ring g) \<le> write_pos (gw_ring g)"
  from drain_ring_spec [OF assms(1) le, of "[]"] assms(2)
  show "\<exists>g'. dispatch_drain cx g = Some (concat (map (greeks_event cx (gw_module g)) ts), g') \<and> ring_list (gw_ring g') = []"
    by (auto simp: dispatch_drain_def)
qed

lemma option_dispatch_order_witness:
  "fst (dispatch_iteration sample_base False 1 sample_gateway) = [] \<and>
   (\<exists>g'. dispatch_drain sample_base sample_gateway = Some ([], g'))"
proof -
  have "read_pos (gw_ring sample_gateway) \<le> write_pos (gw_ring sample_gateway)"
    by (simp add: sample_gateway_def ring_new_def Let_def)
  with option_dispatch_order [OF sample_ring(1,2), of sample_base False 1] show ?thesis by auto
qed

text \<open>What an option quote is published with: every value the exchange sent, the strings cut to
  their arrays, except the price limits and the previous settlement price, which are always zero,
  because the payload carries them under other names than the tick is filled from.\<close>

lemma option_tick_values:
  "map_of (tick_to_payload (payload_tick now_ns (depth_to_payload d))) k =
     (if k \<in> {''upper_limit'', ''lower_limit'', ''pre_settle''} then Some (ADouble 0)
      else if k \<in> {''upper_limit_price'', ''lower_limit_price'', ''pre_settle_price''} then None
      else if k = ''instrument_id'' then Some (AString (take 31 (c_str (d_instrument_id d))))
      else if k = ''exchange_id'' then Some (AString (take 8 (c_str (d_exchange_id d))))
      else if k = ''update_time'' then Some (AString (take 8 (c_str (d_update_time d))))
      else if k = ''trading_day'' then Some (AString (take 8 (c_str (d_trading_day d))))
      else map_of (depth_to_payload d) k)"
proof -
  have "payload_tick now_ns (depth_to_payload d) =
      (depth_to_tick now_ns d)\<lparr>qt_upper_limit_price := 0, qt_lower_limit_price := 0, qt_pre_settle_price := 0\<rparr>"
    by (simp add: payload_tick_def tick_fields_def depth_to_payload_def string_into_def double_into_def int_into_def
        depth_to_tick_def zero_tick_def copied_def)
  then show ?thesis by (simp add: tick_to_payload_def depth_to_payload_def depth_to_tick_def)
qed

end
