(* ===== verification/Gateway_Config.thy ===== *)
theory Gateway_Config
  imports Gateway_Quotes Engine_Main
begin

text \<open>
  The configuration of the CTP gateway, \<^verbatim>\<open>src/modules/ctp_gateway_cpp/src/config.cpp\<close> and
  \<^verbatim>\<open>config.h\<close>.  The JSON library is a parameter, as for the engine's executable: the document of the
  file is an argument, an object's members are in the order of their keys.
\<close>

section \<open>Configuration\<close>

record gateway_config =
  gc_engine_host :: string
  gc_engine_port :: i32
  gc_family_name :: string
  gc_md_front :: string
  gc_td_front :: string
  gc_broker_id :: string
  gc_user_id :: string
  gc_password :: string
  gc_appid :: string
  gc_authcode :: string
  gc_dll_dir :: string
  gc_md_dll :: string
  gc_td_dll :: string
  gc_underlyings :: "(string \<times> string list) list"
  gc_reconnect_interval_secs :: i32
  gc_static_data_timeout_secs :: i32

text \<open>\<open>JsonError\<close> is an exception of the JSON library, of a value of the wrong type.\<close>

datatype config_error = CannotOpen | ParseError | InvalidPort | MissingGateway | InvalidReconnect
  | InvalidTimeout | MissingField string | JsonError

definition value_string :: "string \<Rightarrow> string \<Rightarrow> json \<Rightarrow> config_error + string" where
  "value_string k dflt j =
     (case j of JObj kvs \<Rightarrow> (case map_of kvs k of None \<Rightarrow> Inr dflt | Some (JStr s) \<Rightarrow> Inr s | Some _ \<Rightarrow> Inl JsonError)
      | _ \<Rightarrow> Inl JsonError)"

definition value_int :: "(double_bits \<Rightarrow> i32) \<Rightarrow> string \<Rightarrow> i32 \<Rightarrow> json \<Rightarrow> config_error + i32" where
  "value_int float_int k dflt j =
     (case j of
        JObj kvs \<Rightarrow>
          (case map_of kvs k of None \<Rightarrow> Inr dflt | Some (JInt i) \<Rightarrow> Inr (word_of_int i)
           | Some (JFloat d) \<Rightarrow> Inr (float_int d) | Some (JBool b) \<Rightarrow> Inr (if b then 1 else 0) | Some _ \<Rightarrow> Inl JsonError)
      | _ \<Rightarrow> Inl JsonError)"

fun string_list :: "json list \<Rightarrow> string list option" where
  "string_list [] = Some []"
| "string_list (JStr s # js) = map_option ((#) s) (string_list js)"
| "string_list (_ # js) = None"

definition products :: "json \<Rightarrow> config_error + string list" where
  "products j = (case j of JArr xs \<Rightarrow> (case string_list xs of Some ss \<Rightarrow> Inr ss | None \<Rightarrow> Inl JsonError) | _ \<Rightarrow> Inl JsonError)"

text \<open>\<^verbatim>\<open>items()\<close>: the members of an object, the elements of an array under their indices, nothing for
  null, and any other value itself under the empty key.\<close>

definition json_items :: "json \<Rightarrow> (string \<times> json) list" where
  "json_items j =
     (case j of JObj kvs \<Rightarrow> kvs | JArr xs \<Rightarrow> map (\<lambda>i. (show_nat i, xs ! i)) [0..<length xs]
      | JNull \<Rightarrow> [] | _ \<Rightarrow> [([], j)])"

text \<open>\<^verbatim>\<open>std::map\<close> keeps its keys in the order of their bytes.\<close>

fun map_put :: "string \<Rightarrow> 'v \<Rightarrow> (string \<times> 'v) list \<Rightarrow> (string \<times> 'v) list" where
  "map_put k v [] = [(k, v)]"
| "map_put k v ((k', v') # ps) =
     (if k = k' then (k, v) # ps else if str_less k k' then (k, v) # (k', v') # ps else (k', v') # map_put k v ps)"

fun read_underlyings :: "(string \<times> json) list \<Rightarrow> (string \<times> string list) list \<Rightarrow>
    config_error + (string \<times> string list) list" where
  "read_underlyings [] acc = Inr acc"
| "read_underlyings ((ex, j) # kvs) acc =
     (case products j of Inl e \<Rightarrow> Inl e | Inr ps \<Rightarrow> read_underlyings kvs (map_put ex ps acc))"

definition require :: "string \<Rightarrow> string \<Rightarrow> config_error + 'a \<Rightarrow> config_error + 'a" where
  "require nm v k = (if v = [] then Inl (MissingField nm) else k)"

text \<open>Errors end the reading at once.\<close>

definition sbind :: "'e + 'a \<Rightarrow> ('a \<Rightarrow> 'e + 'b) \<Rightarrow> 'e + 'b" where
  "sbind m f = (case m of Inl e \<Rightarrow> Inl e | Inr x \<Rightarrow> f x)"

definition engine_section :: "(double_bits \<Rightarrow> i32) \<Rightarrow> json \<Rightarrow> config_error + string \<times> i32" where
  "engine_section float_int j =
     (case json_field ''engine'' j of
        None \<Rightarrow> Inr (''127.0.0.1'', 5555)
      | Some eng \<Rightarrow>
          sbind (value_string ''host'' ''127.0.0.1'' eng) (\<lambda>h.
          sbind (value_int float_int ''port'' 5555 eng) (\<lambda>p.
            if sint p \<le> 0 \<or> sint p > 65535 then Inl InvalidPort else Inr (h, p))))"

definition gateway_section :: "(double_bits \<Rightarrow> i32) \<Rightarrow> string \<times> i32 \<Rightarrow> json \<Rightarrow> config_error + gateway_config" where
  "gateway_section float_int eng gw =
     sbind (value_string ''family_name'' ''ctp_gateway'' gw) (\<lambda>fam.
     sbind (value_string ''md_front'' [] gw) (\<lambda>mdf.
     sbind (value_string ''td_front'' [] gw) (\<lambda>tdf.
     sbind (value_string ''broker_id'' [] gw) (\<lambda>brk.
     sbind (value_string ''user_id'' [] gw) (\<lambda>usr.
     sbind (value_string ''password'' [] gw) (\<lambda>pw.
     sbind (value_string ''appid'' [] gw) (\<lambda>app.
     sbind (value_string ''authcode'' [] gw) (\<lambda>auth.
     sbind (value_string ''dll_dir'' [] gw) (\<lambda>dir.
     sbind (value_string ''md_dll'' [] gw) (\<lambda>mdd.
     sbind (value_string ''td_dll'' [] gw) (\<lambda>tdd.
     sbind (value_int float_int ''reconnect_interval_secs'' 5 gw) (\<lambda>rcn.
     sbind (value_int float_int ''static_data_timeout_secs'' 15 gw) (\<lambda>tmo.
       if sint rcn < 0 then Inl InvalidReconnect
       else if sint tmo \<le> 0 then Inl InvalidTimeout
       else require ''md_front'' mdf (require ''broker_id'' brk (require ''user_id'' usr
         (require ''password'' (c_str pw) (require ''dll_dir'' dir
         (sbind (case json_field ''underlyings'' gw of None \<Rightarrow> Inr [] | Some u \<Rightarrow> read_underlyings (json_items u) []) (\<lambda>us.
           if us = [] then Inl (MissingField ''underlyings'')
           else Inr \<lparr>gc_engine_host = fst eng, gc_engine_port = snd eng, gc_family_name = fam, gc_md_front = mdf,
                gc_td_front = tdf, gc_broker_id = brk, gc_user_id = usr, gc_password = c_str pw, gc_appid = app,
                gc_authcode = auth, gc_dll_dir = dir, gc_md_dll = mdd, gc_td_dll = tdd, gc_underlyings = us,
                gc_reconnect_interval_secs = rcn, gc_static_data_timeout_secs = tmo\<rparr>)))))))))))))))))))"

text \<open>\<open>file\<close>: \<open>None\<close> when it cannot be opened, \<open>Some None\<close> when it is no JSON.\<close>

definition from_file :: "(double_bits \<Rightarrow> i32) \<Rightarrow> json option option \<Rightarrow> config_error + gateway_config" where
  "from_file float_int file =
     (case file of
        None \<Rightarrow> Inl CannotOpen
      | Some None \<Rightarrow> Inl ParseError
      | Some (Some j) \<Rightarrow>
          sbind (engine_section float_int j) (\<lambda>eng.
            case json_field ''gateway'' j of None \<Rightarrow> Inl MissingGateway | Some gw \<Rightarrow> gateway_section float_int eng gw))"

section \<open>What is accepted\<close>

lemma sbind_Inr [simp]: "sbind m f = Inr y \<longleftrightarrow> (\<exists>x. m = Inr x \<and> f x = Inr y)"
  by (cases m) (simp_all add: sbind_def)

lemma require_Inr [simp]: "require nm v k = Inr y \<longleftrightarrow> v \<noteq> [] \<and> k = Inr y"
  by (simp add: require_def)

lemma value_string_Inr:
  "value_string k dflt j = Inr s \<Longrightarrow> s \<noteq> dflt \<Longrightarrow> json_field k j = Some (JStr s)"
  by (auto simp: value_string_def json_field_def split: json.splits option.splits)

text \<open>The order of the keys is strict and total.\<close>

lemma str_less_trans: "str_less a b \<Longrightarrow> str_less b c \<Longrightarrow> str_less a c"
  unfolding str_less_def by (rule less_trans)

lemma str_less_total: "a \<noteq> b \<Longrightarrow> str_less a b \<or> str_less b a"
  unfolding str_less_def using linorder_neq_iff inj_eq [OF inj_mapI, of of_char]
  by (metis inj_of_char)

lemma str_less_irrefl [simp]: "\<not> str_less a a"
  by (simp add: str_less_def)

lemma set_map_put: "set (map fst (map_put k v ps)) = insert k (set (map fst ps))"
  by (induction k v ps rule: map_put.induct) auto

lemma map_put_sorted:
  "sorted_wrt str_less (map fst ps) \<Longrightarrow> sorted_wrt str_less (map fst (map_put k v ps))"
proof (induction k v ps rule: map_put.induct)
  case (2 k v k' v' ps)
  show ?case
  proof (cases "k = k' \<or> str_less k k'")
    case True
    with 2(2) show ?thesis by (auto intro: str_less_trans)
  next
    case False
    then have "str_less k' k" using str_less_total by blast
    with False 2 show ?thesis using set_map_put [of k v ps] by auto
  qed
qed simp

lemma map_of_map_put: "sorted_wrt str_less (map fst ps) \<Longrightarrow> map_of (map_put k v ps) = (map_of ps)(k \<mapsto> v)"
  by (induction k v ps rule: map_put.induct) auto

lemma read_underlyings_sorted:
  "read_underlyings kvs acc = Inr us \<Longrightarrow> sorted_wrt str_less (map fst acc) \<Longrightarrow> sorted_wrt str_less (map fst us)"
  by (induction kvs acc rule: read_underlyings.induct) (auto simp: map_put_sorted split: sum.splits)

text \<open>Every member of the object is read, unless one of the keys comes twice.\<close>

lemma read_underlyings_lookup:
  assumes "read_underlyings kvs acc = Inr us" and "sorted_wrt str_less (map fst acc)" and "distinct (map fst kvs)"
  shows "map_of us ex = (case map_of kvs ex of Some j \<Rightarrow> (case products j of Inr ps \<Rightarrow> Some ps | Inl e \<Rightarrow> None)
    | None \<Rightarrow> map_of acc ex)"
  using assms
proof (induction kvs acc rule: read_underlyings.induct)
  case (2 k j kvs acc)
  then obtain ps where ps: "products j = Inr ps" by (cases "products j") auto
  have "map_of kvs k = None" using 2(4) by (auto simp: map_of_eq_None_iff)
  with 2 ps show ?case by (auto simp: map_put_sorted map_of_map_put split: option.splits)
qed simp

lemma engine_section_port:
  "engine_section float_int j = Inr (h, p) \<Longrightarrow> 1 \<le> sint p \<and> sint p \<le> 65535"
  by (auto simp: engine_section_def split: option.splits if_splits)

lemma gateway_section_Inr:
  assumes "gateway_section float_int eng gw = Inr cfg"
  shows "gc_engine_port cfg = snd eng" "value_string ''md_front'' [] gw = Inr (gc_md_front cfg)"
    "value_string ''broker_id'' [] gw = Inr (gc_broker_id cfg)" "value_string ''user_id'' [] gw = Inr (gc_user_id cfg)"
    "value_string ''dll_dir'' [] gw = Inr (gc_dll_dir cfg)"
    "\<exists>pw. value_string ''password'' [] gw = Inr pw \<and> gc_password cfg = c_str pw"
    "gc_md_front cfg \<noteq> []" "gc_broker_id cfg \<noteq> []" "gc_user_id cfg \<noteq> []" "gc_dll_dir cfg \<noteq> []" "gc_password cfg \<noteq> []"
    "0 \<le> sint (gc_reconnect_interval_secs cfg)" "0 < sint (gc_static_data_timeout_secs cfg)" "gc_underlyings cfg \<noteq> []"
    "\<exists>u. json_field ''underlyings'' gw = Some u \<and> read_underlyings (json_items u) [] = Inr (gc_underlyings cfg)"
  using assms unfolding gateway_section_def by (auto split: if_splits option.splits)

section \<open>Properties\<close>

text \<open>C27: A configuration that is accepted is one the gateway can run with: the port is a TCP port, the
  interval is not negative and the timeout positive, every required field is a non-empty string of the
  file's gateway section (the password up to its first null character), and the underlyings are a
  non-empty map, in key order, with exactly the exchanges and products of the file.\<close>

theorem gateway_config_valid:
  assumes "from_file float_int file = Inr cfg"
  shows "\<exists>j gw u. file = Some (Some j) \<and> json_field ''gateway'' j = Some gw \<and> json_field ''underlyings'' gw = Some u \<and>
    1 \<le> sint (gc_engine_port cfg) \<and> sint (gc_engine_port cfg) \<le> 65535 \<and>
    0 \<le> sint (gc_reconnect_interval_secs cfg) \<and> 0 < sint (gc_static_data_timeout_secs cfg) \<and>
    (\<forall>(k, v) \<in> {(''md_front'', gc_md_front cfg), (''broker_id'', gc_broker_id cfg), (''user_id'', gc_user_id cfg),
        (''dll_dir'', gc_dll_dir cfg)}. v \<noteq> [] \<and> json_field k gw = Some (JStr v)) \<and>
    (\<exists>pw. json_field ''password'' gw = Some (JStr pw) \<and> gc_password cfg = c_str pw \<and> gc_password cfg \<noteq> []) \<and>
    gc_underlyings cfg \<noteq> [] \<and> sorted_wrt str_less (map fst (gc_underlyings cfg)) \<and>
    (distinct (map fst (json_items u)) \<longrightarrow> (\<forall>ex ps. map_of (gc_underlyings cfg) ex = Some ps \<longleftrightarrow>
        (\<exists>v. map_of (json_items u) ex = Some v \<and> products v = Inr ps)))"
proof -
  from assms obtain j eng gw where f: "file = Some (Some j)" "engine_section float_int j = Inr eng"
    "json_field ''gateway'' j = Some gw" and g: "gateway_section float_int eng gw = Inr cfg"
    by (auto simp: from_file_def split: option.splits)
  note s = gateway_section_Inr [OF g]
  from s(15) obtain u where u: "json_field ''underlyings'' gw = Some u" and
    r: "read_underlyings (json_items u) [] = Inr (gc_underlyings cfg)" by blast
  have port: "1 \<le> sint (gc_engine_port cfg) \<and> sint (gc_engine_port cfg) \<le> 65535"
    using engine_section_port f(2) s(1) by (metis prod.collapse)
  from s(6) obtain pw where pw: "value_string ''password'' [] gw = Inr pw" "gc_password cfg = c_str pw" by blast
  then have "pw \<noteq> []" using s(11) by (auto simp: c_str_def)
  with pw(1) have "json_field ''password'' gw = Some (JStr pw)" by (rule value_string_Inr)
  with pw s(11) have pwd: "\<exists>pw. json_field ''password'' gw = Some (JStr pw) \<and> gc_password cfg = c_str pw \<and> gc_password cfg \<noteq> []"
    by blast
  have "distinct (map fst (json_items u)) \<longrightarrow> (\<forall>ex ps. map_of (gc_underlyings cfg) ex = Some ps \<longleftrightarrow>
      (\<exists>v. map_of (json_items u) ex = Some v \<and> products v = Inr ps))"
    using read_underlyings_lookup [OF r] by (auto simp del: map_of_eq_Some_iff split: option.splits sum.splits)
  moreover have "\<forall>(k, v) \<in> {(''md_front'', gc_md_front cfg), (''broker_id'', gc_broker_id cfg), (''user_id'', gc_user_id cfg),
      (''dll_dir'', gc_dll_dir cfg)}. v \<noteq> [] \<and> json_field k gw = Some (JStr v)"
    using s(7-10) s(2-5) [THEN value_string_Inr] by simp
  moreover have "sorted_wrt str_less (map fst (gc_underlyings cfg))" using read_underlyings_sorted [OF r] by simp
  ultimately show ?thesis using f(1,3) u port pwd s(12-14) by (intro exI [of _ j] exI [of _ gw] exI [of _ u] conjI) simp_all
qed

definition sample_file :: json where
  "sample_file = JObj [(''gateway'', JObj [(''broker_id'', JStr ''b''), (''dll_dir'', JStr ''/d''), (''md_front'', JStr ''m''),
     (''password'', JStr ''p''), (''underlyings'', JObj [(''CZCE'', JArr [JStr ''SR'']), (''SHFE'', JArr [JStr ''ag''])]),
     (''user_id'', JStr ''u'')])]"

definition sample_config :: gateway_config where
  "sample_config = \<lparr>gc_engine_host = ''127.0.0.1'', gc_engine_port = 5555, gc_family_name = ''ctp_gateway'', gc_md_front = ''m'',
     gc_td_front = [], gc_broker_id = ''b'', gc_user_id = ''u'', gc_password = ''p'', gc_appid = [], gc_authcode = [],
     gc_dll_dir = ''/d'', gc_md_dll = [], gc_td_dll = [], gc_underlyings = [(''CZCE'', [''SR'']), (''SHFE'', [''ag''])],
     gc_reconnect_interval_secs = 5, gc_static_data_timeout_secs = 15\<rparr>"

lemma from_sample_file: "from_file (\<lambda>_. 0) (Some (Some sample_file)) = Inr sample_config"
  by (simp add: from_file_def sample_file_def sample_config_def engine_section_def gateway_section_def json_field_def
      value_string_def value_int_def sbind_def require_def c_str_def json_items_def products_def str_less_def)

theorem gateway_config_valid_witness:
  "from_file (\<lambda>_. 0) (Some (Some sample_file)) = Inr sample_config \<and> map_of (gc_underlyings sample_config) ''CZCE'' = Some [''SR''] \<and>
   sint (gc_engine_port sample_config) \<le> 65535"
  using from_sample_file gateway_config_valid [OF from_sample_file] by (auto simp: sample_config_def)

end
