(* ===== verification/Gateway_Session.thy ===== *)
theory Gateway_Session
  imports Gateway_Config Step_Systems
begin

text \<open>
  The sessions of the CTP gateway with the market data front (\<^verbatim>\<open>md_spi.cpp\<close>) and the trading front
  (\<^verbatim>\<open>td_spi.cpp\<close>), as state machines driven by the callbacks of the vendored API.  What is asked of the
  API is returned as a list of requests.
\<close>

section \<open>The market data session\<close>

datatype md_request = MdLogin string string string i32 | MdSubscribe "string list"

record md_spi =
  md_instruments :: "string list"
  md_logged_in :: bool
  md_req_id :: i32

definition md_spi_new :: md_spi where
  "md_spi_new = \<lparr>md_instruments = [], md_logged_in = False, md_req_id = 0\<rparr>"

definition md_subscribe :: "md_spi \<Rightarrow> md_request list" where
  "md_subscribe s = (if md_instruments s = [] then [] else [MdSubscribe (map (\<lambda>i. i @ [CHR 0x00]) (md_instruments s))])"

definition md_login :: "gateway_config \<Rightarrow> md_spi \<Rightarrow> md_request list \<times> md_spi" where
  "md_login cfg s = ([MdLogin (copied 11 (gc_broker_id cfg)) (copied 16 (gc_user_id cfg)) (copied 41 (gc_password cfg))
     (md_req_id s + 1)], s\<lparr>md_req_id := md_req_id s + 1\<rparr>)"

text \<open>The callbacks; an error code of a response is \<open>None\<close> when there is no information.\<close>

datatype md_event = MdSetInstruments "string list" | MdConnected | MdDisconnected i32 | MdHeartBeatWarning i32
  | MdRspLogin "i32 option" | MdRspLogout "i32 option" | MdRspSub "i32 option"

definition rsp_failed :: "i32 option \<Rightarrow> bool" where
  "rsp_failed err = (case err of Some e \<Rightarrow> e \<noteq> 0 | None \<Rightarrow> False)"

fun md_step :: "gateway_config \<Rightarrow> md_event \<Rightarrow> md_spi \<Rightarrow> md_request list \<times> md_spi" where
  "md_step cfg (MdSetInstruments ids) s =
     (let s1 = s\<lparr>md_instruments := ids\<rparr> in (if md_logged_in s1 then md_subscribe s1 else [], s1))"
| "md_step cfg MdConnected s = md_login cfg s"
| "md_step cfg (MdDisconnected reason) s = ([], s\<lparr>md_logged_in := False\<rparr>)"
| "md_step cfg (MdHeartBeatWarning lapse) s = ([], s)"
| "md_step cfg (MdRspLogin err) s =
     (if rsp_failed err then ([], s)
      else let s1 = s\<lparr>md_logged_in := True\<rparr> in (md_subscribe s1, s1))"
| "md_step cfg (MdRspLogout err) s = ([], s\<lparr>md_logged_in := False\<rparr>)"
| "md_step cfg (MdRspSub err) s = ([], s)"

text \<open>\<^verbatim>\<open>set_instruments\<close> may run on another thread than the callbacks.  Both are made of the steps that
  the lock and the atomic flag make indivisible: storing the list, reading the flag and subscribing on
  the caller's side; setting the flag and subscribing on the callbacks'.  The API runs its callbacks one
  after another.\<close>

datatype md_pc = MdIdle | MdStored | MdSubscribing

record md_system =
  ms_spi :: md_spi
  ms_caller :: md_pc
  ms_callback :: md_pc
  ms_log :: "md_request option list"

text \<open>The log has the requests and, as \<open>None\<close>, the logins that were accepted.\<close>

datatype md_act = ActStore "string list" | ActLoad | ActCallerSubscribe | ActLoginOk | ActCallbackSubscribe | ActCallback md_event

definition ms_say :: "md_request option list \<Rightarrow> md_system \<Rightarrow> md_system" where
  "ms_say rs m = m\<lparr>ms_log := ms_log m @ rs\<rparr>"

fun md_do :: "gateway_config \<Rightarrow> md_act \<Rightarrow> md_system \<Rightarrow> md_system option" where
  "md_do cfg (ActStore ids) m =
     (if ms_caller m = MdIdle then Some (m\<lparr>ms_spi := (ms_spi m)\<lparr>md_instruments := ids\<rparr>, ms_caller := MdStored\<rparr>) else None)"
| "md_do cfg ActLoad m =
     (if ms_caller m = MdStored
      then Some (m\<lparr>ms_caller := (if md_logged_in (ms_spi m) then MdSubscribing else MdIdle)\<rparr>) else None)"
| "md_do cfg ActCallerSubscribe m =
     (if ms_caller m = MdSubscribing
      then Some (ms_say (map Some (md_subscribe (ms_spi m))) (m\<lparr>ms_caller := MdIdle\<rparr>)) else None)"
| "md_do cfg ActLoginOk m =
     (if ms_callback m = MdIdle
      then Some (ms_say [None] (m\<lparr>ms_spi := (ms_spi m)\<lparr>md_logged_in := True\<rparr>, ms_callback := MdSubscribing\<rparr>)) else None)"
| "md_do cfg ActCallbackSubscribe m =
     (if ms_callback m = MdSubscribing
      then Some (ms_say (map Some (md_subscribe (ms_spi m))) (m\<lparr>ms_callback := MdIdle\<rparr>)) else None)"
| "md_do cfg (ActCallback ev) m =
     (if ms_callback m = MdIdle \<and> \<not> (case ev of MdSetInstruments _ \<Rightarrow> True | MdRspLogin err \<Rightarrow> \<not> rsp_failed err | _ \<Rightarrow> False)
      then (let (rs, s) = md_step cfg ev (ms_spi m) in Some (ms_say (map Some rs) (m\<lparr>ms_spi := s\<rparr>))) else None)"

fun md_acts :: "gateway_config \<Rightarrow> md_act list \<Rightarrow> md_system \<Rightarrow> md_system option" where
  "md_acts cfg [] m = Some m"
| "md_acts cfg (a # as) m = do { m1 \<leftarrow> md_do cfg a m; md_acts cfg as m1 }"

definition md_system_of :: "md_spi \<Rightarrow> md_system" where
  "md_system_of s = \<lparr>ms_spi = s, ms_caller = MdIdle, ms_callback = MdIdle, ms_log = []\<rparr>"

section \<open>The trading session\<close>

datatype td_request = TdAuthenticate string string string string i32 | TdLogin string string string i32

record td_spi =
  td_has_api :: bool
  td_logged_in :: bool
  td_req_id :: i32

definition td_login :: "gateway_config \<Rightarrow> td_spi \<Rightarrow> td_request list \<times> td_spi" where
  "td_login cfg s =
     (if \<not> td_has_api s then ([], s)
      else ([TdLogin (copied 11 (gc_broker_id cfg)) (copied 16 (gc_user_id cfg)) (copied 41 (gc_password cfg)) (td_req_id s + 1)],
            s\<lparr>td_req_id := td_req_id s + 1\<rparr>))"

definition td_authenticate_or_login :: "gateway_config \<Rightarrow> td_spi \<Rightarrow> td_request list \<times> td_spi" where
  "td_authenticate_or_login cfg s =
     (if \<not> td_has_api s then ([], s)
      else if gc_appid cfg \<noteq> [] then
        ([TdAuthenticate (copied 11 (gc_broker_id cfg)) (copied 16 (gc_user_id cfg)) (copied 33 (gc_appid cfg))
            (copied 17 (gc_authcode cfg)) (td_req_id s + 1)], s\<lparr>td_req_id := td_req_id s + 1\<rparr>)
      else td_login cfg s)"

datatype td_event = TdConnected | TdDisconnected i32 | TdRspAuthenticate "i32 option" | TdRspLogin "i32 option"
  | TdRspLogout "i32 option"

fun td_step :: "gateway_config \<Rightarrow> td_event \<Rightarrow> td_spi \<Rightarrow> td_request list \<times> td_spi" where
  "td_step cfg TdConnected s = td_authenticate_or_login cfg s"
| "td_step cfg (TdDisconnected reason) s = ([], s\<lparr>td_logged_in := False\<rparr>)"
| "td_step cfg (TdRspAuthenticate err) s = (if rsp_failed err then ([], s) else td_login cfg s)"
| "td_step cfg (TdRspLogin err) s = ([], if rsp_failed err then s else s\<lparr>td_logged_in := True\<rparr>)"
| "td_step cfg (TdRspLogout err) s = ([], s\<lparr>td_logged_in := False\<rparr>)"

fun td_run :: "gateway_config \<Rightarrow> td_event list \<Rightarrow> td_spi \<Rightarrow> td_request list \<times> td_spi" where
  "td_run cfg [] s = ([], s)"
| "td_run cfg (ev # evs) s = (let (o1, s1) = td_step cfg ev s; (o2, s2) = td_run cfg evs s1 in (o1 @ o2, s2))"

definition td_spi_new :: "bool \<Rightarrow> td_spi" where
  "td_spi_new api = \<lparr>td_has_api = api, td_logged_in = False, td_req_id = 0\<rparr>"

text \<open>The callbacks that come until the timeout, each with whether the waiting thread wakes after it; it
  looks at the flag when it starts, when it wakes and when the time is up.\<close>

fun wait_loop :: "gateway_config \<Rightarrow> (td_event \<times> bool) list \<Rightarrow> td_spi \<Rightarrow> bool \<times> td_request list \<times> td_spi" where
  "wait_loop cfg [] s = (td_logged_in s, [], s)"
| "wait_loop cfg ((ev, woken) # evs) s =
     (let (o1, s1) = td_step cfg ev s
      in if woken \<and> td_logged_in s1 then (True, o1, s1)
         else let (b, o2, s2) = wait_loop cfg evs s1 in (b, o1 @ o2, s2))"

definition wait_for_login :: "gateway_config \<Rightarrow> (td_event \<times> bool) list \<Rightarrow> td_spi \<Rightarrow> bool \<times> td_request list \<times> td_spi" where
  "wait_for_login cfg evs s = (if td_logged_in s then (True, [], s) else wait_loop cfg evs s)"

section \<open>Subscriptions\<close>

text \<open>A handler that is not interrupted does what \<^const>\<open>md_step\<close> says.\<close>

definition handler_acts :: "md_event \<Rightarrow> md_spi \<Rightarrow> md_act list" where
  "handler_acts ev s =
     (case ev of
        MdSetInstruments ids \<Rightarrow> [ActStore ids, ActLoad] @ (if md_logged_in s then [ActCallerSubscribe] else [])
      | MdRspLogin err \<Rightarrow> if rsp_failed err then [ActCallback ev] else [ActLoginOk, ActCallbackSubscribe]
      | _ \<Rightarrow> [ActCallback ev])"

definition requests :: "md_request option list \<Rightarrow> md_request list" where
  "requests l = List.map_filter id l"

lemma requests_simps [simp]: "requests [] = []" "requests (None # l) = requests l" "requests (Some r # l) = r # requests l"
  "requests (map Some rs) = rs"
  by (auto simp: requests_def map_filter_def comp_def)

lemma requests_append [simp]: "requests (xs @ ys) = requests xs @ requests ys"
  by (simp add: requests_def map_filter_def)

text \<open>The newest of the subscriptions and logins in the log is a subscription to these instruments.\<close>

fun subscribed :: "md_request option list \<Rightarrow> string list \<Rightarrow> bool" where
  "subscribed [] ids = False"
| "subscribed (Some (MdSubscribe xs) # older) ids = (xs = map (\<lambda>i. i @ [CHR 0x00]) ids)"
| "subscribed (None # older) ids = False"
| "subscribed (Some (MdLogin _ _ _ _) # older) ids = subscribed older ids"

definition md_inv :: "md_system \<Rightarrow> bool" where
  "md_inv m \<longleftrightarrow> (md_logged_in (ms_spi m) \<and> md_instruments (ms_spi m) \<noteq> [] \<and> ms_caller m = MdIdle \<and> ms_callback m = MdIdle
     \<longrightarrow> subscribed (rev (ms_log m)) (md_instruments (ms_spi m)))"

lemma md_do_inv: "md_do cfg a m = Some m' \<Longrightarrow> md_inv m \<Longrightarrow> md_inv m'"
proof (cases a)
  case (ActCallback ev)
  assume "md_do cfg a m = Some m'" and "md_inv m"
  with ActCallback show ?thesis
    by (cases ev) (auto simp: md_inv_def ms_say_def md_login_def split: if_splits)
qed (auto simp: md_inv_def ms_say_def md_subscribe_def split: if_splits)

interpretation md: stepper "md_do cfg" md_inv for cfg
  by unfold_locales (rule md_do_inv)

lemma md_acts_exec: "md_acts cfg as = exec (md_do cfg) as"
  by (induction as) (rule ext, simp)+

lemma md_acts_inv: "md_acts cfg as m = Some m' \<Longrightarrow> md_inv m \<Longrightarrow> md_inv m'"
  unfolding md_acts_exec by (rule md.exec_keeps)

section \<open>Logins\<close>

fun td_req_no :: "td_request \<Rightarrow> i32" where
  "td_req_no (TdAuthenticate _ _ _ _ n) = n"
| "td_req_no (TdLogin _ _ _ n) = n"

definition td_is_login :: "td_request \<Rightarrow> bool" where
  "td_is_login r = (case r of TdLogin _ _ _ _ \<Rightarrow> True | _ \<Rightarrow> False)"

text \<open>The callbacks that make the session log in.\<close>

definition td_cleared :: "gateway_config \<Rightarrow> td_event \<Rightarrow> bool" where
  "td_cleared cfg ev = (case ev of TdConnected \<Rightarrow> gc_appid cfg = [] | TdRspAuthenticate err \<Rightarrow> \<not> rsp_failed err | _ \<Rightarrow> False)"

text \<open>Whether the last callback that says anything about the session says it is up.\<close>

definition td_up :: "td_event \<Rightarrow> bool option" where
  "td_up ev = (case ev of TdRspLogin err \<Rightarrow> if rsp_failed err then None else Some True
     | TdDisconnected _ \<Rightarrow> Some False | TdRspLogout _ \<Rightarrow> Some False | _ \<Rightarrow> None)"

definition td_session :: "td_event list \<Rightarrow> bool \<Rightarrow> bool" where
  "td_session evs b = foldl (\<lambda>b ev. case td_up ev of Some b' \<Rightarrow> b' | None \<Rightarrow> b) b evs"

lemma td_step_spec:
  assumes "td_step cfg ev s = (rs, s')" and "td_has_api s"
  shows "td_has_api s'" "td_req_id s' = td_req_id s + word_of_nat (length rs)"
    "map td_req_no rs = map (\<lambda>k. td_req_id s + word_of_nat k) [1..<Suc (length rs)]"
    "length (filter td_is_login rs) = (if td_cleared cfg ev then 1 else 0)"
    "td_logged_in s' = (case td_up ev of Some b \<Rightarrow> b | None \<Rightarrow> td_logged_in s)"
  using assms by (cases ev; auto simp: td_authenticate_or_login_def td_login_def td_is_login_def td_cleared_def td_up_def
      split: if_splits)+

lemma numbers_shift:
  "map (\<lambda>k. n + word_of_nat m + word_of_nat k) [1..<Suc l] = map (\<lambda>k. n + word_of_nat k :: i32) [Suc m..<Suc (m + l)]"
  by (rule nth_equalityI) (simp_all add: add.assoc add.commute add.left_commute del: upt_Suc)

lemma td_run_spec:
  assumes "td_run cfg evs s = (rs, s')" and "td_has_api s"
  shows "td_has_api s' \<and> map td_req_no rs = map (\<lambda>k. td_req_id s + word_of_nat k) [1..<Suc (length rs)] \<and>
    length (filter td_is_login rs) = length (filter (td_cleared cfg) evs) \<and> td_logged_in s' = td_session evs (td_logged_in s)"
  using assms
proof (induction evs arbitrary: s rs)
  case (Cons ev evs)
  obtain o1 s1 where st: "td_step cfg ev s = (o1, s1)" by fastforce
  with Cons.prems obtain o2 where r: "td_run cfg evs s1 = (o2, s')" "rs = o1 @ o2" by (auto split: prod.splits)
  note sp = td_step_spec [OF st Cons.prems(2)]
  note ih = Cons.IH [OF r(1) sp(1)]
  have "map td_req_no o2 = map (\<lambda>k. td_req_id s + word_of_nat k) [Suc (length o1)..<Suc (length rs)]"
    using ih numbers_shift [of "td_req_id s" "length o1" "length o2"] by (simp add: sp(2) r(2) del: upt_Suc)
  then have "map td_req_no rs = map (\<lambda>k. td_req_id s + word_of_nat k) [1..<Suc (length rs)]"
    using sp(3) upt_add_eq_append [of 1 "Suc (length o1)" "length o2"] by (simp add: r(2) del: upt_Suc)
  with ih sp(4,5) r(2) show ?case by (simp add: td_session_def)
qed (simp add: td_session_def)

lemma wait_loop_flag: "wait_loop cfg evs s = (b, rs, s') \<Longrightarrow> td_logged_in s' = b"
  by (induction cfg evs s arbitrary: b rs rule: wait_loop.induct) (auto split: prod.splits if_splits)

section \<open>Properties\<close>

text \<open>The handlers as they are in the source are the uninterrupted runs of the steps into which the
  lock and the flag divide them: same new state, same requests in the same order.\<close>

lemma handlers_are_runs:
  assumes "ms_caller m = MdIdle" and "ms_callback m = MdIdle"
  shows "\<exists>m'. md_acts cfg (handler_acts ev (ms_spi m)) m = Some m' \<and> ms_spi m' = snd (md_step cfg ev (ms_spi m)) \<and>
    requests (ms_log m') = requests (ms_log m) @ fst (md_step cfg ev (ms_spi m)) \<and>
    ms_caller m' = MdIdle \<and> ms_callback m' = MdIdle"
  using assms by (cases ev) (auto simp: handler_acts_def ms_say_def Let_def md_login_def)

lemma handlers_are_runs_witness:
  "\<exists>m'. md_acts sample_config (handler_acts (MdSetInstruments [''a'']) md_spi_new) (md_system_of md_spi_new) = Some m' \<and>
     md_instruments (ms_spi m') = [''a'']"
  using handlers_are_runs [of "md_system_of md_spi_new" sample_config "MdSetInstruments [''a'']"]
  by (auto simp: md_system_of_def Let_def)

text \<open>C24: However setting the instruments interleaves with the callbacks, through any number of
  disconnections, failed and repeated logins: whenever the session is logged in, there are instruments
  and no handler is under way, the last thing asked of the front since the last login is a subscription
  to exactly the current instruments.\<close>

theorem md_always_subscribed:
  assumes "md_acts cfg as (md_system_of md_spi_new) = Some m"
    and "ms_caller m = MdIdle" and "ms_callback m = MdIdle"
    and "md_logged_in (ms_spi m)" and "md_instruments (ms_spi m) \<noteq> []"
  shows "subscribed (rev (ms_log m)) (md_instruments (ms_spi m))"
proof -
  have "md_inv (md_system_of md_spi_new)" by (simp add: md_inv_def md_system_of_def md_spi_new_def)
  from md_acts_inv [OF assms(1) this] assms(2-5) show ?thesis by (simp add: md_inv_def)
qed

definition sample_acts :: "md_act list" where
  "sample_acts = [ActCallback MdConnected, ActStore [''a''], ActLoginOk, ActLoad, ActCallbackSubscribe, ActCallerSubscribe,
     ActCallback (MdDisconnected 1), ActCallback MdConnected, ActLoginOk, ActCallbackSubscribe]"

theorem md_always_subscribed_witness:
  "\<exists>m. md_acts sample_config sample_acts (md_system_of md_spi_new) = Some m \<and> subscribed (rev (ms_log m)) [''a'']"
proof -
  obtain m where m: "md_acts sample_config sample_acts (md_system_of md_spi_new) = Some m" "ms_caller m = MdIdle"
    "ms_callback m = MdIdle" "md_logged_in (ms_spi m)" "md_instruments (ms_spi m) = [''a'']"
    by (simp add: sample_acts_def md_system_of_def md_spi_new_def ms_say_def md_login_def)
  with md_always_subscribed [OF m(1-4)] show ?thesis by auto
qed

text \<open>The trading session logs in exactly once for each callback that clears it to: with an
  application id only an accepted authentication does, without one the connection does.  Its requests
  are numbered one after another, and it counts as logged in exactly when the last login answer,
  disconnection or logout was an accepted login.\<close>

lemma td_logins_cleared:
  assumes "td_run cfg evs (td_spi_new True) = (rs, s)"
  shows "length (filter td_is_login rs) = length (filter (td_cleared cfg) evs) \<and>
    map td_req_no rs = map word_of_nat [1..<Suc (length rs)] \<and> td_logged_in s = td_session evs False"
  using td_run_spec [OF assms] by (simp add: td_spi_new_def)

definition sample_td_events :: "td_event list" where
  "sample_td_events = [TdConnected, TdRspAuthenticate (Some 3), TdDisconnected 1, TdConnected, TdRspAuthenticate None, TdRspLogin (Some 0)]"

lemma td_logins_cleared_witness:
  "\<exists>rs s. td_run (sample_config\<lparr>gc_appid := ''x''\<rparr>) sample_td_events (td_spi_new True) = (rs, s) \<and>
     length (filter td_is_login rs) = 1 \<and> td_logged_in s"
proof -
  let ?cfg = "sample_config\<lparr>gc_appid := ''x''\<rparr>"
  obtain rs s where r: "td_run ?cfg sample_td_events (td_spi_new True) = (rs, s)" by fastforce
  have "length (filter (td_cleared ?cfg) sample_td_events) = 1" "td_session sample_td_events False"
    by (simp_all add: sample_td_events_def td_cleared_def td_session_def td_up_def rsp_failed_def)
  with td_logins_cleared [OF r] r show ?thesis by auto
qed

end
