(* ===== verification/Gateway_Instruments.thy ===== *)
theory Gateway_Instruments
  imports Gateway_Config "HOL-Library.Sublist"
begin

text \<open>
  How the gateway asks the static data module for the instruments to subscribe to:
  \<^verbatim>\<open>resolve_instruments\<close> of \<^verbatim>\<open>ctp_gateway.cpp\<close>.  The replies to its job requests are an argument.
\<close>

section \<open>The query for instruments\<close>

fun contains :: "string \<Rightarrow> string \<Rightarrow> bool" where
  "contains pat [] = (pat = [])"
| "contains pat (c # cs) = (prefix pat (c # cs) \<or> contains pat cs)"

definition instrument_id :: "any_val \<Rightarrow> string option" where
  "instrument_id item =
     (case item of APayload inst \<Rightarrow> (case map_of inst ''InstrumentID'' of Some (AString s) \<Rightarrow> Some s | _ \<Rightarrow> None) | _ \<Rightarrow> None)"

fun instrument_ids :: "any_val list \<Rightarrow> string list option" where
  "instrument_ids [] = Some []"
| "instrument_ids (x # xs) = do { i \<leftarrow> instrument_id x; ids \<leftarrow> instrument_ids xs; Some (i # ids) }"

text \<open>\<open>None\<close>: it throws.\<close>

definition extract_instrument_ids :: "payload \<Rightarrow> string list option" where
  "extract_instrument_ids response =
     (case map_of response ''result'' of
        Some (APayload result) \<Rightarrow>
          (case map_of result ''instruments'' of Some (AVecAny insts) \<Rightarrow> instrument_ids insts | _ \<Rightarrow> None)
      | _ \<Rightarrow> None)"

definition query_request :: "string \<Rightarrow> string \<Rightarrow> string \<Rightarrow> payload" where
  "query_request ex prd cls = [(''exchange_id'', AString ex), (''product_id'', AString prd),
     (''product_class'', AString cls), (''inst_life_phase'', AString ''1'')]"

text \<open>What a query for futures leads to: the attempt fails, the product is skipped, or the search
  goes on with the instruments found.\<close>

datatype futures_result = QFail | QSkip | QGo "string list"

definition futures_result_of :: "string + payload \<Rightarrow> futures_result" where
  "futures_result_of r =
     (case r of
        Inl what \<Rightarrow> if contains ''timed out'' what then QFail else QGo []
      | Inr result \<Rightarrow>
          (case map_of result ''error'' of
             Some err \<Rightarrow>
               (let msg = (case err of AString s \<Rightarrow> s | _ \<Rightarrow> ''unknown error'')
                in if contains ''No handler'' msg then QFail else QSkip)
           | None \<Rightarrow> (case extract_instrument_ids result of Some ids \<Rightarrow> QGo ids | None \<Rightarrow> QGo [])))"

definition option_products :: "string \<Rightarrow> string \<Rightarrow> string list" where
  "option_products ex prd =
     (if ex \<in> {''SHFE'', ''DCE'', ''INE'', ''GFEX''} then [prd @ ''_o'']
      else if ex = ''CZCE'' then [prd @ ''C'', prd @ ''P'']
      else [prd])"

definition options_result_of :: "string + payload \<Rightarrow> string list" where
  "options_result_of r =
     (case r of Inl what \<Rightarrow> [] | Inr result \<Rightarrow> (case extract_instrument_ids result of Some ids \<Rightarrow> ids | None \<Rightarrow> []))"

text \<open>\<open>reply k req\<close> is what \<^verbatim>\<open>request_event\<close> gives for the \<open>k\<close>-th request.\<close>

record resolution =
  rs_requests :: nat
  rs_instruments :: "string list"
  rs_options :: "string list"

definition query_option :: "(nat \<Rightarrow> payload \<Rightarrow> string + payload) \<Rightarrow> string \<Rightarrow> string \<Rightarrow> resolution \<Rightarrow> resolution" where
  "query_option reply ex prd s =
     (let ids = options_result_of (reply (rs_requests s) (query_request ex prd ''2''))
      in s\<lparr>rs_requests := rs_requests s + 1, rs_instruments := rs_instruments s @ ids,
           rs_options := fold List.insert ids (rs_options s)\<rparr>)"

fun resolve_products :: "(nat \<Rightarrow> payload \<Rightarrow> string + payload) \<Rightarrow> (string \<times> string) list \<Rightarrow> resolution \<Rightarrow> bool \<times> resolution" where
  "resolve_products reply [] s = (False, s)"
| "resolve_products reply ((ex, prd) # rest) s =
     (let r = futures_result_of (reply (rs_requests s) (query_request ex prd ''1''));
          s1 = s\<lparr>rs_requests := rs_requests s + 1\<rparr>
      in case r of
           QFail \<Rightarrow> (True, s1)
         | QSkip \<Rightarrow> resolve_products reply rest s1
         | QGo ids \<Rightarrow> resolve_products reply rest
             (fold (query_option reply ex) (option_products ex prd) (s1\<lparr>rs_instruments := rs_instruments s1 @ ids\<rparr>)))"

definition all_products :: "gateway_config \<Rightarrow> (string \<times> string) list" where
  "all_products cfg = concat (map (\<lambda>(ex, ps). map (Pair ex) ps) (gc_underlyings cfg))"

text \<open>At most thirteen attempts.\<close>

fun resolve_attempts :: "nat \<Rightarrow> gateway_config \<Rightarrow> (nat \<Rightarrow> payload \<Rightarrow> string + payload) \<Rightarrow> resolution \<Rightarrow> resolution" where
  "resolve_attempts 0 cfg reply s = s"
| "resolve_attempts (Suc n) cfg reply s =
     (let (failed, s1) = resolve_products reply (all_products cfg) (s\<lparr>rs_instruments := []\<rparr>)
      in if \<not> failed \<and> rs_instruments s1 \<noteq> [] then s1 else resolve_attempts n cfg reply s1)"

definition resolve_instruments :: "gateway_config \<Rightarrow> (nat \<Rightarrow> payload \<Rightarrow> string + payload) \<Rightarrow> gateway \<Rightarrow> nat \<times> gateway" where
  "resolve_instruments cfg reply g =
     (let s = resolve_attempts 13 cfg reply \<lparr>rs_requests = 0, rs_instruments = [], rs_options = []\<rparr>
      in (rs_requests s, g\<lparr>gw_instruments := rs_instruments s, gw_options := rs_options s\<rparr>))"

section \<open>What a static data module that answers consistently knows\<close>

definition futures_answer :: "(payload \<Rightarrow> string + payload) \<Rightarrow> string \<times> string \<Rightarrow> futures_result" where
  "futures_answer r ep = futures_result_of (r (query_request (fst ep) (snd ep) ''1''))"

definition known_options :: "(payload \<Rightarrow> string + payload) \<Rightarrow> string \<times> string \<Rightarrow> string list" where
  "known_options r ep = (case futures_answer r ep of
     QGo _ \<Rightarrow> concat (map (\<lambda>p. options_result_of (r (query_request (fst ep) p ''2''))) (option_products (fst ep) (snd ep)))
   | _ \<Rightarrow> [])"

definition known_instruments :: "(payload \<Rightarrow> string + payload) \<Rightarrow> string \<times> string \<Rightarrow> string list" where
  "known_instruments r ep = (case futures_answer r ep of QGo ids \<Rightarrow> ids @ known_options r ep | _ \<Rightarrow> [])"

definition answers :: "(payload \<Rightarrow> string + payload) \<Rightarrow> string \<times> string \<Rightarrow> bool" where
  "answers r ep \<longleftrightarrow> futures_answer r ep \<noteq> QFail"

definition query_cost :: "(payload \<Rightarrow> string + payload) \<Rightarrow> string \<times> string \<Rightarrow> nat" where
  "query_cost r ep = (case futures_answer r ep of QGo _ \<Rightarrow> 1 + length (option_products (fst ep) (snd ep)) | _ \<Rightarrow> 1)"

definition attempt_cost :: "(payload \<Rightarrow> string + payload) \<Rightarrow> (string \<times> string) list \<Rightarrow> nat" where
  "attempt_cost r eps = sum_list (map (query_cost r) (takeWhile (answers r) eps)) + (if list_all (answers r) eps then 0 else 1)"

text \<open>From the \<open>n\<close>-th request on the replies are those of \<open>r\<close>.\<close>

definition steady_from :: "nat \<Rightarrow> (nat \<Rightarrow> payload \<Rightarrow> string + payload) \<Rightarrow> (payload \<Rightarrow> string + payload) \<Rightarrow> bool" where
  "steady_from n reply r \<longleftrightarrow> (\<forall>k req. n \<le> k \<longrightarrow> reply k req = r req)"

lemma steady_fromD: "steady_from n reply r \<Longrightarrow> n \<le> k \<Longrightarrow> reply k = r"
  by (auto simp: steady_from_def)

lemma steady_from_mono: "steady_from n reply r \<Longrightarrow> n \<le> k \<Longrightarrow> steady_from k reply r"
  by (auto simp: steady_from_def)

lemma set_fold_insert: "set (fold List.insert xs ys) = set xs \<union> set ys"
  by (induction xs arbitrary: ys) auto

lemma query_options:
  assumes "steady_from (rs_requests s) reply r"
  shows "rs_requests (fold (query_option reply ex) os s) = rs_requests s + length os \<and>
    rs_instruments (fold (query_option reply ex) os s) =
      rs_instruments s @ concat (map (\<lambda>p. options_result_of (r (query_request ex p ''2''))) os) \<and>
    set (rs_options (fold (query_option reply ex) os s)) =
      set (rs_options s) \<union> set (concat (map (\<lambda>p. options_result_of (r (query_request ex p ''2''))) os))"
  using assms
proof (induction os arbitrary: s)
  case (Cons opt os)
  let ?s = "query_option reply ex opt s"
  have q: "rs_requests ?s = rs_requests s + 1"
    "rs_instruments ?s = rs_instruments s @ options_result_of (r (query_request ex opt ''2''))"
    "set (rs_options ?s) = set (rs_options s) \<union> set (options_result_of (r (query_request ex opt ''2'')))"
    using steady_fromD [OF Cons.prems order_refl] by (auto simp: query_option_def Let_def set_fold_insert)
  have "steady_from (rs_requests ?s) reply r" using Cons.prems q(1) by (auto intro: steady_from_mono)
  from Cons.IH [OF this] q show ?case by auto
qed simp

lemma resolve_products_steady:
  assumes "steady_from (rs_requests s) reply r" and "resolve_products reply eps s = (failed, s')"
  shows "failed = (\<not> list_all (answers r) eps) \<and>
    rs_instruments s' = rs_instruments s @ concat (map (known_instruments r) (takeWhile (answers r) eps)) \<and>
    set (rs_options s') = set (rs_options s) \<union> set (concat (map (known_options r) (takeWhile (answers r) eps))) \<and>
    rs_requests s' = rs_requests s + attempt_cost r eps"
  using assms
proof (induction eps arbitrary: s)
  case (Cons ep eps)
  obtain ex pr where ep: "ep = (ex, pr)" by fastforce
  let ?s1 = "s\<lparr>rs_requests := rs_requests s + 1\<rparr>"
  have fut: "futures_result_of (reply (rs_requests s) (query_request ex pr ''1'')) = futures_answer r ep"
    using steady_fromD [OF Cons.prems(1) order_refl] by (simp add: futures_answer_def ep)
  have st1: "steady_from (rs_requests ?s1) reply r" using Cons.prems(1) by (auto intro: steady_from_mono)
  show ?case
  proof (cases "futures_answer r ep")
    case QFail
    with Cons.prems(2) fut show ?thesis by (auto simp: ep answers_def Let_def attempt_cost_def)
  next
    case QSkip
    with Cons.prems(2) fut have "resolve_products reply eps ?s1 = (failed, s')" by (simp add: ep Let_def)
    from Cons.IH [OF st1 this] QSkip show ?thesis
      by (auto simp: answers_def known_instruments_def known_options_def query_cost_def attempt_cost_def)
  next
    case (QGo ids)
    let ?s2 = "?s1\<lparr>rs_instruments := rs_instruments s @ ids\<rparr>"
    let ?s3 = "fold (query_option reply ex) (option_products ex pr) ?s2"
    have run: "resolve_products reply eps ?s3 = (failed, s')" using QGo Cons.prems(2) fut by (simp add: ep Let_def)
    have "steady_from (rs_requests ?s2) reply r" using st1 by simp
    note q = query_options [OF this, of ex "option_products ex pr"]
    have "steady_from (rs_requests ?s3) reply r" using st1 q by (auto intro: steady_from_mono)
    from Cons.IH [OF this run] q QGo show ?thesis
      by (auto simp: ep answers_def known_instruments_def known_options_def query_cost_def attempt_cost_def)
  qed
qed (auto simp: attempt_cost_def)

section \<open>Attempts\<close>

definition found_instruments :: "(payload \<Rightarrow> string + payload) \<Rightarrow> gateway_config \<Rightarrow> string list" where
  "found_instruments r cfg = concat (map (known_instruments r) (takeWhile (answers r) (all_products cfg)))"

definition found_options :: "(payload \<Rightarrow> string + payload) \<Rightarrow> gateway_config \<Rightarrow> string list" where
  "found_options r cfg = concat (map (known_options r) (takeWhile (answers r) (all_products cfg)))"

definition resolves :: "(payload \<Rightarrow> string + payload) \<Rightarrow> gateway_config \<Rightarrow> bool" where
  "resolves r cfg \<longleftrightarrow> list_all (answers r) (all_products cfg) \<and> found_instruments r cfg \<noteq> []"

lemma resolve_attempts_steady:
  assumes "steady_from (rs_requests s) reply r"
  shows "rs_instruments (resolve_attempts (Suc n) cfg reply s) = found_instruments r cfg \<and>
    set (rs_options (resolve_attempts (Suc n) cfg reply s)) = set (rs_options s) \<union> set (found_options r cfg) \<and>
    rs_requests (resolve_attempts (Suc n) cfg reply s) =
      rs_requests s + (if resolves r cfg then 1 else Suc n) * attempt_cost r (all_products cfg)"
  using assms
proof (induction n arbitrary: s)
  case 0
  obtain failed s1 where p: "resolve_products reply (all_products cfg) (s\<lparr>rs_instruments := []\<rparr>) = (failed, s1)" by fastforce
  with resolve_products_steady [OF _ p, of r] 0 show ?case
    by (auto simp: found_instruments_def found_options_def)
next
  case (Suc n)
  obtain failed s1 where p: "resolve_products reply (all_products cfg) (s\<lparr>rs_instruments := []\<rparr>) = (failed, s1)" by fastforce
  from resolve_products_steady [OF _ p, of r] Suc.prems
  have s1: "failed = (\<not> list_all (answers r) (all_products cfg))" "rs_instruments s1 = found_instruments r cfg"
    "set (rs_options s1) = set (rs_options s) \<union> set (found_options r cfg)"
    "rs_requests s1 = rs_requests s + attempt_cost r (all_products cfg)"
    by (simp_all add: found_instruments_def found_options_def)
  show ?case
  proof (cases "resolves r cfg")
    case True
    with p s1 have "resolve_attempts (Suc (Suc n)) cfg reply s = s1" by (simp add: resolves_def del: resolve_attempts.simps(1))
    with True s1 show ?thesis by simp
  next
    case False
    with p s1 have e: "resolve_attempts (Suc (Suc n)) cfg reply s = resolve_attempts (Suc n) cfg reply s1"
      by (subst resolve_attempts.simps(2)) (auto simp: resolves_def simp del: resolve_attempts.simps)
    have "steady_from (rs_requests s1) reply r" using Suc.prems s1(4) by (auto intro: steady_from_mono)
    from Suc.IH [OF this] False s1(3,4) show ?thesis unfolding e by (simp del: resolve_attempts.simps)
  qed
qed

text \<open>As long as the module is not there an attempt ends with its first request.\<close>

lemma resolve_attempts_late:
  assumes "\<And>k req. rs_requests s \<le> k \<Longrightarrow> k < rs_requests s + n \<Longrightarrow> futures_result_of (reply k req) = QFail"
    and "all_products cfg \<noteq> []"
  shows "\<exists>s'. resolve_attempts (m + n) cfg reply s = resolve_attempts m cfg reply s' \<and>
    rs_requests s' = rs_requests s + n \<and> rs_options s' = rs_options s"
  using assms(1)
proof (induction n arbitrary: s)
  case (Suc n)
  let ?s = "s\<lparr>rs_instruments := [], rs_requests := rs_requests s + 1\<rparr>"
  obtain ex pr eps where ps: "all_products cfg = (ex, pr) # eps" using assms(2) by (cases "all_products cfg") auto
  have "resolve_products reply (all_products cfg) (s\<lparr>rs_instruments := []\<rparr>) = (True, ?s)"
    using Suc.prems [of "rs_requests s"] by (simp add: ps)
  then have e: "resolve_attempts (m + Suc n) cfg reply s = resolve_attempts (m + n) cfg reply ?s" by simp
  obtain s' where "resolve_attempts (m + n) cfg reply ?s = resolve_attempts m cfg reply s'" "rs_requests s' = rs_requests ?s + n"
    "rs_options s' = rs_options ?s"
    using Suc.IH [of ?s] Suc.prems by fastforce
  with e show ?case by auto
qed auto

lemma option_products_le: "length (option_products ex pr) \<le> 2"
  by (simp add: option_products_def)

lemma query_option_requests [simp]: "rs_requests (fold (query_option reply ex) os s) = rs_requests s + length os"
  by (induction os arbitrary: s) (simp_all add: query_option_def Let_def)

lemma resolve_products_bound:
  "rs_requests (snd (resolve_products reply eps s)) \<le> rs_requests s + 3 * length eps"
proof (induction reply eps s rule: resolve_products.induct)
  case (2 reply ex pr rest s)
  then show ?case using option_products_le [of ex pr]
    by (fastforce simp: Let_def split: futures_result.splits)
qed simp

lemma resolve_attempts_bound:
  "rs_requests (resolve_attempts n cfg reply s) \<le> rs_requests s + n * (3 * length (all_products cfg))"
proof (induction n arbitrary: s)
  case (Suc n)
  obtain failed s1 where p: "resolve_products reply (all_products cfg) (s\<lparr>rs_instruments := []\<rparr>) = (failed, s1)" by fastforce
  with resolve_products_bound [of reply "all_products cfg" "s\<lparr>rs_instruments := []\<rparr>"] Suc.IH [of s1] show ?case
    by (auto intro: order_trans)
qed simp

section \<open>Properties\<close>

text \<open>C25: Asking a static data module whose answers do not change, whatever they are: the gateway ends
  with exactly the instruments and options of the products before the first one whose query fails, all
  of them when none fails, after one attempt when none fails and something was found, after thirteen
  otherwise.  When the module fails halfway the gateway does not go on with an empty list, as it logs,
  but with that part.\<close>

theorem resolve_steady:
  assumes "steady_from 0 reply r"
  shows "gw_instruments (snd (resolve_instruments cfg reply g)) = found_instruments r cfg \<and>
    set (gw_options (snd (resolve_instruments cfg reply g))) = set (found_options r cfg) \<and>
    fst (resolve_instruments cfg reply g) = (if resolves r cfg then 1 else 13) * attempt_cost r (all_products cfg)"
  using resolve_attempts_steady [of "\<lparr>rs_requests = 0, rs_instruments = [], rs_options = []\<rparr>" reply r 12 cfg] assms
  by (simp add: resolve_instruments_def Let_def numeral_eq_Suc del: resolve_attempts.simps)

definition instruments_reply :: "string list \<Rightarrow> string + payload" where
  "instruments_reply ids = Inr [(''result'', APayload [(''instruments'',
     AVecAny (map (\<lambda>i. APayload [(''InstrumentID'', AString i)]) ids))])]"

definition sample_static :: "string \<Rightarrow> payload \<Rightarrow> string + payload" where
  "sample_static fault req =
     (if map_of req ''product_id'' = Some (AString ''SR'') then instruments_reply [''SR501'']
      else if map_of req ''product_id'' = Some (AString ''SRC'') then instruments_reply [''SR501C1'']
      else Inr [(''error'', AString fault)])"

lemma sample_found:
  "all_products sample_config = [(''CZCE'', ''SR''), (''SHFE'', ''ag'')]"
  "known_instruments (sample_static fault) (''CZCE'', ''SR'') = [''SR501'', ''SR501C1'']"
  "known_options (sample_static fault) (''CZCE'', ''SR'') = [''SR501C1'']"
  "answers (sample_static fault) (''CZCE'', ''SR'')"
  "futures_answer (sample_static fault) (''SHFE'', ''ag'') = (if contains ''No handler'' fault then QFail else QSkip)"
  by (simp_all add: all_products_def sample_config_def known_instruments_def known_options_def answers_def futures_answer_def
      futures_result_of_def sample_static_def query_request_def instruments_reply_def extract_instrument_ids_def
      instrument_id_def option_products_def options_result_of_def)

theorem resolve_steady_witness:
  "gw_instruments (snd (resolve_instruments sample_config (\<lambda>_. sample_static ''No handler'') sample_gateway)) = [''SR501'', ''SR501C1'']"
proof -
  have "steady_from 0 (\<lambda>_. sample_static ''No handler'') (sample_static ''No handler'')" by (simp add: steady_from_def)
  from resolve_steady [OF this, of sample_config sample_gateway] show ?thesis
    by (simp add: found_instruments_def sample_found answers_def [of _ "(''SHFE'', ''ag'')"])
qed

text \<open>A static data module that is missing for up to twelve attempts and answers from then on still
  gives the gateway all its instruments and options.\<close>

lemma resolve_late:
  assumes "n \<le> 12" and "\<And>k req. k < n \<Longrightarrow> futures_result_of (reply k req) = QFail"
    and "steady_from n reply r" and "resolves r cfg"
  shows "gw_instruments (snd (resolve_instruments cfg reply g)) = concat (map (known_instruments r) (all_products cfg)) \<and>
    set (gw_options (snd (resolve_instruments cfg reply g))) = set (concat (map (known_options r) (all_products cfg))) \<and>
    fst (resolve_instruments cfg reply g) = n + attempt_cost r (all_products cfg)"
proof -
  let ?s0 = "\<lparr>rs_requests = 0, rs_instruments = [], rs_options = []\<rparr>"
  have ne: "all_products cfg \<noteq> []" using assms(4) by (auto simp: resolves_def found_instruments_def)
  obtain m where m: "13 = Suc m + n" using assms(1) by (intro that [of "12 - n"]) simp
  obtain s' where s': "resolve_attempts 13 cfg reply ?s0 = resolve_attempts (Suc m) cfg reply s'"
    "rs_requests s' = n" "rs_options s' = []"
    using resolve_attempts_late [of ?s0 n reply cfg "Suc m"] assms(2) ne m by (auto simp del: resolve_attempts.simps)
  have "takeWhile (answers r) (all_products cfg) = all_products cfg"
    using assms(4) by (simp add: resolves_def list_all_iff takeWhile_eq_all_conv)
  with resolve_attempts_steady [of s' reply r m cfg] assms(3,4) s' show ?thesis
    by (simp add: resolve_instruments_def Let_def found_instruments_def found_options_def del: resolve_attempts.simps)
qed

lemma resolve_late_witness:
  "set (gw_options (snd (resolve_instruments sample_config
     (\<lambda>k. if k < 2 then \<lambda>_. Inl ''request timed out'' else sample_static ''unknown product'') sample_gateway))) = {''SR501C1''}"
proof -
  let ?reply = "\<lambda>k. if k < 2 then \<lambda>_. Inl ''request timed out'' else sample_static ''unknown product''"
  let ?r = "sample_static ''unknown product''"
  have f: "futures_result_of (?reply k req) = QFail" if "k < 2" for k req
    using that by (simp add: futures_result_of_def)
  have s: "steady_from 2 ?reply ?r" by (simp add: steady_from_def)
  have a: "futures_answer ?r (''SHFE'', ''ag'') = QSkip" by (simp add: sample_found)
  then have o: "known_options ?r (''SHFE'', ''ag'') = []" "answers ?r (''SHFE'', ''ag'')"
    by (simp_all add: known_options_def answers_def)
  then have "resolves ?r sample_config" by (simp add: resolves_def found_instruments_def sample_found)
  from resolve_late [OF _ f s this, of sample_gateway] o show ?thesis by (simp add: sample_found)
qed

text \<open>However the static data module behaves, the search ends after at most 39 requests for each
  configured product.\<close>

lemma resolve_bounded:
  "fst (resolve_instruments cfg reply g) \<le> 39 * length (all_products cfg)"
  using resolve_attempts_bound [of 13 cfg reply "\<lparr>rs_requests = 0, rs_instruments = [], rs_options = []\<rparr>"]
  by (simp add: resolve_instruments_def Let_def)

end
