(* ===== verification/Ctp_Loader.thy ===== *)
theory Ctp_Loader
  imports Gateway_Config "HOL-Library.Sublist"
begin

text \<open>
  Loading the vendored CTP libraries, \<^verbatim>\<open>src/modules/ctp_gateway_cpp/src/ctp_loader.cpp\<close>, with the
  owners of what is loaded (\<^verbatim>\<open>dll_handle.h\<close>, \<^verbatim>\<open>ctp_api_raii.h\<close>).  What the platform and the libraries
  do is a parameter, \<open>loader\<close>; the calls made to them are the trace that every operation returns.  A null
  pointer is 0.
\<close>

section \<open>The platform\<close>

datatype platform = Windows | Posix

type_synonym pointer = u64

datatype front_side = MdSide | TdSide

datatype ctp_call =
    LibOpen string pointer
  | LibClose pointer
  | ApiCreate pointer
  | ApiRegisterSpi pointer "front_side option"
  | ApiRegisterFront pointer string
  | ApiSubscribeTopics pointer
  | ApiInit pointer
  | ApiRelease pointer
  | ApiJoinLater pointer
  | SpiNew front_side
  | SpiFree front_side

text \<open>A loaded library on Windows: whether the two signatures of its headers are right, the export entry
  of its data directory, its size, the fields of its export directory and what memory holds at an
  offset from its base.\<close>

record pe_image =
  pe_dos_signature :: bool
  pe_nt_signature :: bool
  pe_export_address :: u32
  pe_export_size :: u32
  pe_size_of_image :: u32
  pe_number_of_names :: u32
  pe_number_of_functions :: u32
  pe_address_of_names :: u32
  pe_address_of_name_ordinals :: u32
  pe_address_of_functions :: u32
  pe_dword :: "nat \<Rightarrow> u32"
  pe_word :: "nat \<Rightarrow> 16 word"
  pe_char :: "nat \<Rightarrow> char"

text \<open>\<open>ld_open\<close> is \<^verbatim>\<open>dlopen\<close> or \<^verbatim>\<open>LoadLibraryA\<close>, \<open>ld_sym\<close> is \<^verbatim>\<open>dlsym\<close> or \<^verbatim>\<open>GetProcAddress\<close>,
  \<open>ld_image\<close> the image a handle stands for on Windows, \<open>ld_create\<close> a call of the function, with the
  flow path.\<close>

record loader =
  ld_platform :: platform
  ld_open :: "string \<Rightarrow> pointer"
  ld_sym :: "pointer \<Rightarrow> string \<Rightarrow> pointer"
  ld_image :: "pointer \<Rightarrow> pe_image"
  ld_create :: "pointer \<Rightarrow> string \<Rightarrow> pointer"

datatype load_error = NotAbsolute | Traversal | EmptyName | NameHasSeparator | BadExtension | OpenFailed | SymbolMissing | CreateFailed

section \<open>Searching the export table\<close>

definition MAX_EXPORT_NAMES :: u32 where
  "MAX_EXPORT_NAMES = 1000000"

definition MAX_NAME_LEN :: nat where
  "MAX_NAME_LEN = 4096"

text \<open>The checks before the search; the sums are of 64-bit integers.\<close>

definition export_table_ok :: "pe_image \<Rightarrow> bool" where
  "export_table_ok im \<longleftrightarrow>
     pe_dos_signature im \<and> pe_nt_signature im \<and> pe_export_address im \<noteq> 0 \<and> pe_export_size im \<noteq> 0 \<and>
     pe_export_address im < pe_size_of_image im \<and> pe_export_size im \<le> pe_size_of_image im - pe_export_address im \<and>
     pe_number_of_names im \<noteq> 0 \<and> pe_number_of_names im \<le> MAX_EXPORT_NAMES \<and>
     pe_number_of_functions im \<noteq> 0 \<and> pe_number_of_functions im \<le> MAX_EXPORT_NAMES \<and>
     pe_address_of_names im < pe_size_of_image im \<and> pe_address_of_name_ordinals im < pe_size_of_image im \<and>
     pe_address_of_functions im < pe_size_of_image im \<and>
     ucast (pe_address_of_names im) + ucast (pe_number_of_names im) * 4 \<le> (ucast (pe_size_of_image im) :: u64) \<and>
     ucast (pe_address_of_name_ordinals im) + ucast (pe_number_of_names im) * 2 \<le> (ucast (pe_size_of_image im) :: u64) \<and>
     ucast (pe_address_of_functions im) + ucast (pe_number_of_functions im) * 4 \<le> (ucast (pe_size_of_image im) :: u64)"

text \<open>Where the entries of the three arrays are, and what \<^verbatim>\<open>strnlen\<close> and \<^verbatim>\<open>strstr\<close> see of a name.\<close>

definition names_entry :: "pe_image \<Rightarrow> nat \<Rightarrow> nat" where
  "names_entry im i = unat (pe_address_of_names im) + 4 * i"

definition ordinals_entry :: "pe_image \<Rightarrow> nat \<Rightarrow> nat" where
  "ordinals_entry im i = unat (pe_address_of_name_ordinals im) + 2 * i"

definition functions_entry :: "pe_image \<Rightarrow> nat \<Rightarrow> nat" where
  "functions_entry im i = unat (pe_address_of_functions im) + 4 * i"

definition export_name :: "pe_image \<Rightarrow> u32 \<Rightarrow> string" where
  "export_name im name_rva = c_str (map (pe_char im) [unat name_rva..<unat name_rva + MAX_NAME_LEN])"

definition export_match :: "pe_image \<Rightarrow> string \<Rightarrow> nat \<Rightarrow> u32 option" where
  "export_match im substr i =
     (let name_rva = pe_dword im (names_entry im i)
      in if name_rva \<ge> pe_size_of_image im then None
         else
           let fn_name = export_name im name_rva
           in if length fn_name \<ge> MAX_NAME_LEN then None
              else if sublist substr fn_name then
                (let ordinal = unat (pe_word im (ordinals_entry im i))
                 in if ordinal \<ge> unat (pe_number_of_functions im) then None
                    else
                      let func_rva = pe_dword im (functions_entry im ordinal)
                      in if func_rva \<ge> pe_size_of_image im then None else Some func_rva)
              else None)"

fun search_exports :: "pe_image \<Rightarrow> string \<Rightarrow> nat list \<Rightarrow> u32 option" where
  "search_exports im substr [] = None"
| "search_exports im substr (i # ixs) =
     (case export_match im substr i of Some rva \<Rightarrow> Some rva | None \<Rightarrow> search_exports im substr ixs)"

definition find_export_containing :: "pe_image \<Rightarrow> string \<Rightarrow> u32 option" where
  "find_export_containing im substr =
     (if export_table_ok im then search_exports im substr [0..<unat (pe_number_of_names im)] else None)"

section \<open>Paths\<close>

definition default_md_dll_name :: "platform \<Rightarrow> string" where
  "default_md_dll_name pf = (case pf of Windows \<Rightarrow> ''thostmduserapi_se.dll'' | Posix \<Rightarrow> ''libthostmduserapi_se.so'')"

definition default_td_dll_name :: "platform \<Rightarrow> string" where
  "default_td_dll_name pf = (case pf of Windows \<Rightarrow> ''thosttraderapi_se.dll'' | Posix \<Rightarrow> ''libthosttraderapi_se.so'')"

definition is_separator :: "char \<Rightarrow> bool" where
  "is_separator c \<longleftrightarrow> c = CHR ''/'' \<or> c = CHR 0x5C"

definition join_path :: "string \<Rightarrow> string \<Rightarrow> string" where
  "join_path dir filename =
     (if dir = [] then filename
      else if is_separator (last dir) then dir @ filename
      else dir @ ''/'' @ filename)"

definition is_alpha :: "char \<Rightarrow> bool" where
  "is_alpha c \<longleftrightarrow> c \<in> set ''abcdefghijklmnopqrstuvwxyzABCDEFGHIJKLMNOPQRSTUVWXYZ''"

definition is_absolute :: "platform \<Rightarrow> string \<Rightarrow> bool" where
  "is_absolute pf path =
     (case pf of
        Windows \<Rightarrow>
          (if length path \<ge> 3 \<and> is_alpha (path ! 0) \<and> path ! 1 = CHR '':'' \<and> is_separator (path ! 2) then True
           else length path \<ge> 2 \<and> path ! 0 = CHR 0x5C \<and> path ! 1 = CHR 0x5C)
      | Posix \<Rightarrow> path \<noteq> [] \<and> path ! 0 = CHR ''/'')"

definition lib_extension :: "platform \<Rightarrow> string" where
  "lib_extension pf = (case pf of Windows \<Rightarrow> ''.dll'' | Posix \<Rightarrow> ''.so'')"

definition has_valid_ext :: "platform \<Rightarrow> string \<Rightarrow> bool" where
  "has_valid_ext pf path \<longleftrightarrow> (let k = length (lib_extension pf)
     in length path > k \<and> drop (length path - k) path = lib_extension pf)"

definition validate_dll_path :: "platform \<Rightarrow> string \<Rightarrow> string \<Rightarrow> load_error option" where
  "validate_dll_path pf path expected_name =
     (if \<not> is_absolute pf path then Some NotAbsolute
      else if sublist ''..'' path then Some Traversal
      else if expected_name = [] then Some EmptyName
      else if CHR ''/'' \<in> set expected_name \<or> CHR 0x5C \<in> set expected_name then Some NameHasSeparator
      else if \<not> has_valid_ext pf path then Some BadExtension
      else None)"

definition resolve_md_dll :: "platform \<Rightarrow> string \<Rightarrow> string \<Rightarrow> string" where
  "resolve_md_dll pf dll_dir dll_name = join_path dll_dir (if dll_name = [] then default_md_dll_name pf else dll_name)"

definition resolve_td_dll :: "platform \<Rightarrow> string \<Rightarrow> string \<Rightarrow> string" where
  "resolve_td_dll pf dll_dir dll_name = join_path dll_dir (if dll_name = [] then default_td_dll_name pf else dll_name)"

section \<open>Owners\<close>

text \<open>\<^verbatim>\<open>DllHandle\<close>: each operation gives the calls it makes and the handle it leaves.\<close>

definition dll_destroy :: "pointer \<Rightarrow> ctp_call list" where
  "dll_destroy h = (if h \<noteq> 0 then [LibClose h] else [])"

definition dll_reset :: "pointer \<Rightarrow> pointer \<Rightarrow> ctp_call list \<times> pointer" where
  "dll_reset new h = (if h \<noteq> 0 \<and> h \<noteq> new then [LibClose h] else [], new)"

text \<open>Move assignment, between two different objects: the source is left empty.\<close>

definition dll_move :: "pointer \<Rightarrow> pointer \<Rightarrow> ctp_call list \<times> pointer \<times> pointer" where
  "dll_move src h = (if h \<noteq> 0 then [LibClose h] else [], src, 0)"

text \<open>\<^verbatim>\<open>MdApiDeleter\<close> and \<^verbatim>\<open>TdApiDeleter\<close>: \<^verbatim>\<open>Join\<close> is called by a detached thread, at any later time.\<close>

definition api_delete :: "pointer \<Rightarrow> ctp_call list" where
  "api_delete api = (if api = 0 then [] else [ApiRegisterSpi api None, ApiRelease api, ApiJoinLater api])"

section \<open>Creating an API object\<close>

definition open_lib :: "loader \<Rightarrow> string \<Rightarrow> load_error + pointer" where
  "open_lib ld path = (if ld_open ld path = 0 then Inl OpenFailed else Inr (ld_open ld path))"

definition get_sym :: "loader \<Rightarrow> pointer \<Rightarrow> string \<Rightarrow> load_error + pointer" where
  "get_sym ld h name =
     (if ld_sym ld h name \<noteq> 0 then Inr (ld_sym ld h name)
      else case ld_platform ld of
        Windows \<Rightarrow> (case find_export_containing (ld_image ld h) name of Some rva \<Rightarrow> Inr (h + ucast rva) | None \<Rightarrow> Inl SymbolMissing)
      | Posix \<Rightarrow> Inl SymbolMissing)"

text \<open>From the path on the two creating functions differ in the name of the symbol only.  The library is
  closed by its owner when a later step throws.\<close>

definition create_from :: "loader \<Rightarrow> string \<Rightarrow> string \<Rightarrow> string \<Rightarrow> string \<Rightarrow> ctp_call list \<times> (load_error + pointer \<times> pointer)" where
  "create_from ld path expected sym_name flow_path =
     (case validate_dll_path (ld_platform ld) path expected of
        Some e \<Rightarrow> ([], Inl e)
      | None \<Rightarrow>
          (case open_lib ld path of
             Inl e \<Rightarrow> ([], Inl e)
           | Inr raw_handle \<Rightarrow>
               (case get_sym ld raw_handle sym_name of
                  Inl e \<Rightarrow> (LibOpen path raw_handle # dll_destroy raw_handle, Inl e)
                | Inr fn \<Rightarrow>
                    (let raw_api = ld_create ld fn flow_path
                     in if raw_api = 0 then (LibOpen path raw_handle # dll_destroy raw_handle, Inl CreateFailed)
                        else ([LibOpen path raw_handle, ApiCreate raw_api], Inr (raw_handle, raw_api))))))"

definition create_md_api :: "loader \<Rightarrow> string \<Rightarrow> string \<Rightarrow> string \<Rightarrow> ctp_call list \<times> (load_error + pointer \<times> pointer)" where
  "create_md_api ld dll_dir dll_name flow_path =
     create_from ld (resolve_md_dll (ld_platform ld) dll_dir dll_name)
       (if dll_name = [] then default_md_dll_name (ld_platform ld) else dll_name) ''CreateFtdcMdApi'' flow_path"

definition create_td_api :: "loader \<Rightarrow> string \<Rightarrow> string \<Rightarrow> string \<Rightarrow> ctp_call list \<times> (load_error + pointer \<times> pointer)" where
  "create_td_api ld dll_dir dll_name flow_path =
     create_from ld (resolve_td_dll (ld_platform ld) dll_dir dll_name)
       (if dll_name = [] then default_td_dll_name (ld_platform ld) else dll_name) ''CreateFtdcTraderApi'' flow_path"

section \<open>Bounds of the search\<close>

lemma unat_u32_u64: "unat (ucast (x :: u32) :: u64) = unat x"
  by (simp add: unsigned_ucast_eq take_bit_nat_eq_self less_le_trans [OF unsigned_less])

lemma table_end:
  assumes "ucast a + ucast n * c \<le> (ucast s :: u64)" and "n \<le> MAX_EXPORT_NAMES" and "unat c \<le> 4"
  shows "unat (a :: u32) + unat (n :: u32) * unat c \<le> unat (s :: u32)"
proof -
  have n: "unat n \<le> 1000000" using assms(2) by (simp add: word_le_nat_alt MAX_EXPORT_NAMES_def)
  have p: "unat n * unat c \<le> 4000000" using mult_le_mono [OF n assms(3)] by simp
  have a: "unat a < 4294967296" using unsigned_less [of a, where ?'a = nat] by simp
  with p have lt: "unat a + unat n * unat c < 18446744073709551616" by linarith
  have m: "unat (ucast n * c :: u64) = unat n * unat c"
    using p unat_mult_lem [of "ucast n :: u64" c] by (simp add: unat_u32_u64)
  have "unat (ucast a + ucast n * c :: u64) = unat a + unat n * unat c"
    using lt m unat_add_lem [of "ucast a :: u64" "ucast n * c"] by (simp add: unat_u32_u64)
  moreover have "unat (ucast a + ucast n * c :: u64) \<le> unat (ucast s :: u64)"
    using assms(1) by (simp add: word_le_nat_alt)
  ultimately show ?thesis by (simp add: unat_u32_u64)
qed

lemma search_exports_Some:
  "search_exports im substr ixs = Some rva \<Longrightarrow> \<exists>i \<in> set ixs. export_match im substr i = Some rva"
  by (induction ixs) (auto split: option.splits)

section \<open>Names and directories\<close>

lemma join_path_cases:
  assumes "dir \<noteq> []"
  obtains sep where "join_path dir name = dir @ sep @ name" "sep = [] \<and> is_separator (last dir) \<or> sep = ''/''"
  using assms that [of "[]"] that [of "''/''"]
  by (cases "is_separator (last dir)") (simp_all add: join_path_def)

lemma create_from_opens:
  assumes "LibOpen p h \<in> set (fst (create_from ld path expected fn flow))"
  shows "p = path" "validate_dll_path (ld_platform ld) path expected = None" "h = ld_open ld path" "h \<noteq> 0"
  using assms by (auto simp: create_from_def open_lib_def dll_destroy_def Let_def split: option.splits sum.splits if_splits)

lemma validate_None:
  assumes "validate_dll_path pf path name = None"
  shows "is_absolute pf path" "\<not> sublist ''..'' path" "name \<noteq> []" "\<forall>c \<in> set name. \<not> is_separator c"
    "drop (length path - length (lib_extension pf)) path = lib_extension pf"
  using assms by (auto simp: validate_dll_path_def is_separator_def has_valid_ext_def Let_def split: if_splits)

text \<open>An extension has no separator, so it is the file name that has it.\<close>

lemma extension_of_name:
  assumes "drop (length path - length (lib_extension pf)) path = lib_extension pf" and "path = pre @ [c] @ name" and "is_separator c"
  shows "suffix (lib_extension pf) name"
proof -
  have "suffix (lib_extension pf) path" using assms(1) by (metis suffix_drop)
  then have "suffix (lib_extension pf) (c # name) \<or> suffix (c # name) (lib_extension pf)"
    using assms(2) by (metis append.simps(1,2) suffix_appendI suffix_order.order_refl suffix_same_cases suffixI)
  moreover have "c \<notin> set (lib_extension pf)" using assms(3) by (cases pf) (auto simp: lib_extension_def is_separator_def)
  ultimately show ?thesis by (auto simp: suffix_Cons dest: set_mono_suffix)
qed

lemma posix_opens:
  assumes "ld_platform ld = Posix" and "LibOpen p h \<in> set (fst (create_from ld (join_path dir name) name fn flow))"
  shows "dir \<noteq> []" "hd dir = CHR ''/''" "prefix dir p" "\<not> sublist ''..'' p"
    "\<exists>pre c. p = pre @ [c] @ name \<and> is_separator c" "suffix ''.so'' name" "\<forall>c \<in> set name. \<not> is_separator c"
proof -
  note o = create_from_opens [OF assms(2)]
  note v = validate_None [OF o(2)]
  show sep: "\<forall>c \<in> set name. \<not> is_separator c" by (rule v(4))
  show "\<not> sublist ''..'' p" using v(2) o(1) by simp
  have abs: "p \<noteq> []" "p ! 0 = CHR ''/''" using v(1) o(1) assms(1) by (simp_all add: is_absolute_def)
  show ne: "dir \<noteq> []"
  proof
    assume "dir = []"
    with o(1) abs have "CHR ''/'' \<in> set name" using nth_mem [of 0 name] by (auto simp: join_path_def)
    with sep show False by (auto simp: is_separator_def)
  qed
  obtain sp where j: "join_path dir name = dir @ sp @ name" "sp = [] \<and> is_separator (last dir) \<or> sp = ''/''"
    by (rule join_path_cases [OF ne])
  show "hd dir = CHR ''/''" using j o(1) abs ne by (cases dir) auto
  show "prefix dir p" using j o(1) by simp
  show ex: "\<exists>pre c. p = pre @ [c] @ name \<and> is_separator c"
  proof (cases "sp = []")
    case True
    with j ne o(1) have "p = butlast dir @ [last dir] @ name" "is_separator (last dir)" by auto
    then show ?thesis by blast
  next
    case False
    with j o(1) have "p = dir @ [CHR ''/''] @ name" by auto
    moreover have "is_separator (CHR ''/'')" by (simp add: is_separator_def)
    ultimately show ?thesis by blast
  qed
  then show "suffix ''.so'' name" using extension_of_name v(5) o(1) assms(1) by (metis lib_extension_def platform.case(2))
qed

section \<open>Properties\<close>

text \<open>On a POSIX system, whatever the configuration says, the only file that is ever opened as a CTP
  library lies below the configured directory, which is absolute, on a path without two dots in a row,
  under a file name that is the configured or the default one, has no separator and ends in
  \<^verbatim>\<open>.so\<close>.\<close>

lemma dll_path_confined:
  assumes "ld_platform ld = Posix" and "LibOpen p h \<in> set (fst (create_md_api ld dir name flow)) \<union> set (fst (create_td_api ld dir name flow))"
  shows "\<exists>nm pre c. p = pre @ [c] @ nm \<and> is_separator c \<and> suffix ''.so'' nm \<and> (\<forall>c \<in> set nm. \<not> is_separator c) \<and>
    nm \<in> (if name = [] then {''libthostmduserapi_se.so'', ''libthosttraderapi_se.so''} else {name}) \<and>
    prefix dir p \<and> dir \<noteq> [] \<and> hd dir = CHR ''/'' \<and> \<not> sublist ''..'' p"
proof -
  obtain nm fn where f: "LibOpen p h \<in> set (fst (create_from ld (join_path dir nm) nm fn flow))"
    "nm \<in> (if name = [] then {''libthostmduserapi_se.so'', ''libthosttraderapi_se.so''} else {name})"
    using assms by (auto simp: create_md_api_def create_td_api_def resolve_md_dll_def resolve_td_dll_def
        default_md_dll_name_def default_td_dll_name_def split: if_splits)
  from posix_opens [OF assms(1) f(1)] f(2) show ?thesis by blast
qed

definition sample_image :: pe_image where
  "sample_image = \<lparr>pe_dos_signature = True, pe_nt_signature = True, pe_export_address = 16, pe_export_size = 40,
     pe_size_of_image = 200, pe_number_of_names = 1, pe_number_of_functions = 1, pe_address_of_names = 60,
     pe_address_of_name_ordinals = 64, pe_address_of_functions = 68, pe_dword = \<lambda>a. if a = 60 then 100 else 150,
     pe_word = \<lambda>_. 0, pe_char = \<lambda>a. if 100 \<le> a \<and> a < 106 then ''?Api@@'' ! (a - 100) else CHR 0x00\<rparr>"

definition sample_loader :: loader where
  "sample_loader = \<lparr>ld_platform = Posix, ld_open = \<lambda>path. if sublist ''trader'' path then 2 else 1, ld_sym = \<lambda>h _. 10 + h,
     ld_image = \<lambda>_. sample_image, ld_create = \<lambda>f _. 100 + f\<rparr>"

lemma sample_platform: "ld_platform sample_loader = Posix"
  by (simp add: sample_loader_def)

lemma sample_creates:
  "create_md_api sample_loader ''/d'' [] [] = ([LibOpen ''/d/libthostmduserapi_se.so'' 1, ApiCreate 111], Inr (1, 111))"
  "create_td_api sample_loader ''/d'' [] [] = ([LibOpen ''/d/libthosttraderapi_se.so'' 2, ApiCreate 112], Inr (2, 112))"
  by (simp_all add: create_md_api_def create_td_api_def create_from_def resolve_md_dll_def resolve_td_dll_def sample_loader_def
      default_md_dll_name_def default_td_dll_name_def join_path_def is_separator_def validate_dll_path_def is_absolute_def
      has_valid_ext_def lib_extension_def Let_def open_lib_def get_sym_def sublist_code)

lemma dll_path_confined_witness:
  "LibOpen ''/d/libthostmduserapi_se.so'' 1 \<in> set (fst (create_md_api sample_loader ''/d'' [] [])) \<and>
   \<not> sublist ''..'' ''/d/libthostmduserapi_se.so''"
proof -
  have o: "LibOpen ''/d/libthostmduserapi_se.so'' 1 \<in> set (fst (create_md_api sample_loader ''/d'' [] []))"
    by (simp add: sample_creates)
  with dll_path_confined [OF sample_platform UnI1 [OF o]] show ?thesis by blast
qed


lemma c_str_at:
  assumes "length s < n" and "\<And>i. i < length s \<Longrightarrow> f (a + i) = s ! i" and "f (a + length s) = CHR 0x00" and "CHR 0x00 \<notin> set s"
  shows "c_str (map f [a..<a + n]) = s"
proof -
  have "map f [a..<a + n] = map f [a..<a + length s] @ map f [a + length s..<a + n]"
    using upt_add_eq_append [of a "a + length s" "n - length s"] assms(1) by simp
  moreover have "map f [a..<a + length s] = s" using assms(2) by (auto intro: nth_equalityI)
  moreover have "[a + length s..<a + n] = (a + length s) # [Suc (a + length s)..<a + n]" using assms(1) by (intro upt_conv_Cons) simp
  ultimately have "map f [a..<a + n] = s @ CHR 0x00 # map f [Suc (a + length s)..<a + n]" using assms(3) by simp
  moreover have "x \<noteq> CHR 0x00" if "x \<in> set s" for x using that assms(4) by auto
  ultimately show ?thesis by (simp add: c_str_def takeWhile_append2)
qed

lemma sample_export: "find_export_containing sample_image ''Api'' = Some 150"
proof -
  have "export_name sample_image 100 = ''?Api@@''"
    unfolding export_name_def by (rule c_str_at) (auto simp: sample_image_def MAX_NAME_LEN_def)
  then show ?thesis
    by (simp add: find_export_containing_def export_table_ok_def MAX_EXPORT_NAMES_def export_match_def names_entry_def
        ordinals_entry_def functions_entry_def MAX_NAME_LEN_def Let_def sample_image_def sublist_code)
qed


end
