(* ===== verification/Gateway_Lifecycle.thy ===== *)
theory Gateway_Lifecycle
  imports Gateway_Session Gateway_Instruments Ctp_Loader
begin

text \<open>
  The life of the CTP gateway: construction, start, the quotes of a day, stop (\<^verbatim>\<open>ctp_gateway.cpp\<close>) and
  the executable around it (\<^verbatim>\<open>main.cpp\<close>).  The acknowledgement of the engine, the replies of the static
  data module, the libraries and the callbacks of the trading front are arguments.
\<close>

section \<open>Construction\<close>

definition gateway_new :: "gateway_config \<Rightarrow> (payload \<Rightarrow> payload) \<Rightarrow> gateway" where
  "gateway_new cfg status =
     \<lparr>gw_module = register_job_handler ''gateway_status'' (\<lambda>req. JReturn (status req)) ASYNC_FLUSH
        (register_producer ''send_compute_greeks'' SEND ASYNC_FLUSH (register_producer ''send_quote'' SEND ASYNC_FLUSH
          (module_new \<lparr>host = gc_engine_host cfg, port = sint (gc_engine_port cfg)\<rparr> (gc_family_name cfg)
            (Some \<lparr>host = gc_engine_host cfg, port = sint (gc_engine_port cfg) + 5\<rparr>)))),
      gw_instruments = [], gw_options = [], gw_ring = ring_new zero_tick 65536, gw_ctp_running = False,
      gw_cleanup_done = False, gw_started = False, gw_stopping = False, gw_ticks_received = 0, gw_ticks_sent = 0,
      gw_option_errors = 0, gw_option_dropped = 0, gw_tick_stale = False, gw_last_tick_ns = 0, gw_reconnects = 0,
      gw_start_secs = 0, gw_md_tick_time = 0x8000000000000000\<rparr>"

section \<open>The API objects\<close>

record ctp_side =
  cs_dll :: pointer
  cs_api :: pointer
  cs_spi :: bool

definition empty_side :: ctp_side where
  "empty_side = \<lparr>cs_dll = 0, cs_api = 0, cs_spi = False\<rparr>"

text \<open>The gateway with its API objects, the calls made to the libraries so far and whether the
  dispatch thread was started.\<close>

record gateway_sys =
  gs_gw :: gateway
  gs_md :: ctp_side
  gs_td :: ctp_side
  gs_calls :: "ctp_call list"
  gs_thread :: bool
  gs_md_spi :: md_spi
  gs_td_requests :: "td_request list"

definition gateway_sys_new :: "gateway_config \<Rightarrow> (payload \<Rightarrow> payload) \<Rightarrow> gateway_sys" where
  "gateway_sys_new cfg status = \<lparr>gs_gw = gateway_new cfg status, gs_md = empty_side, gs_td = empty_side, gs_calls = [],
     gs_thread = False, gs_md_spi = md_spi_new, gs_td_requests = []\<rparr>"

text \<open>\<^verbatim>\<open>spi.reset(); api.reset(); dll.reset();\<close>\<close>

definition release_side :: "front_side \<Rightarrow> ctp_side \<Rightarrow> ctp_call list \<times> ctp_side" where
  "release_side sd cs =
     (let (close, dll) = dll_reset 0 (cs_dll cs)
      in ((if cs_spi cs then [SpiFree sd] else []) @ api_delete (cs_api cs) @ close,
          \<lparr>cs_dll = dll, cs_api = 0, cs_spi = False\<rparr>))"

text \<open>The library and the API object are moved into their members and a new callback object is made;
  what the members held before is given up.\<close>

definition adopt_side :: "front_side \<Rightarrow> pointer \<times> pointer \<Rightarrow> ctp_side \<Rightarrow> ctp_call list \<times> ctp_side" where
  "adopt_side sd ha cs =
     (let (close, dll, _) = dll_move (fst ha) (cs_dll cs)
      in (close @ api_delete (cs_api cs) @ [SpiNew sd] @ (if cs_spi cs then [SpiFree sd] else []),
          \<lparr>cs_dll = dll, cs_api = snd ha, cs_spi = True\<rparr>))"

definition cleanup_ctp :: "gateway_sys \<Rightarrow> gateway_sys" where
  "cleanup_ctp s =
     (if gw_cleanup_done (gs_gw s) then s
      else
        let (c1, md) = release_side MdSide (gs_md s);
            (c2, td) = release_side TdSide (gs_td s)
        in s\<lparr>gs_gw := (gs_gw s)\<lparr>gw_cleanup_done := True, gw_ctp_running := False\<rparr>, gs_md := md, gs_td := td,
             gs_calls := gs_calls s @ c1 @ c2\<rparr>)"

section \<open>Start\<close>

definition init_td :: "loader \<Rightarrow> gateway_config \<Rightarrow> (td_event \<times> bool) list \<Rightarrow> gateway_sys \<Rightarrow> gateway_sys" where
  "init_td ld cfg evs s =
     (if gc_td_front cfg = [] then s
      else
        case create_td_api ld (gc_dll_dir cfg) (gc_td_dll cfg) [] of
          (calls, Inl e) \<Rightarrow>
            (let (c2, td) = release_side TdSide (gs_td s) in s\<lparr>gs_calls := gs_calls s @ calls @ c2, gs_td := td\<rparr>)
        | (calls, Inr ha) \<Rightarrow>
            (let (c2, td) = adopt_side TdSide ha (gs_td s);
                 a = cs_api td;
                 (ok, reqs, _) = wait_for_login cfg evs (td_spi_new True)
             in s\<lparr>gs_calls := gs_calls s @ calls @ c2 @ [ApiRegisterSpi a (Some TdSide), ApiRegisterFront a (gc_td_front cfg),
                     ApiSubscribeTopics a, ApiInit a],
                  gs_td := td, gs_td_requests := gs_td_requests s @ reqs\<rparr>))"

text \<open>The result says whether an exception is thrown.\<close>

definition init_md :: "loader \<Rightarrow> gateway_config \<Rightarrow> gateway_sys \<Rightarrow> bool \<times> gateway_sys" where
  "init_md ld cfg s =
     (case create_md_api ld (gc_dll_dir cfg) (gc_md_dll cfg) [] of
        (calls, Inl e) \<Rightarrow> (True, cleanup_ctp (s\<lparr>gs_calls := gs_calls s @ calls\<rparr>))
      | (calls, Inr ha) \<Rightarrow>
          (let (c2, md) = adopt_side MdSide ha (gs_md s);
               a = cs_api md;
               (reqs, spi) = md_step cfg (MdSetInstruments (gw_instruments (gs_gw s))) md_spi_new
           in (False, s\<lparr>gs_calls := gs_calls s @ calls @ c2 @ [ApiRegisterSpi a (Some MdSide),
                 ApiRegisterFront a (gc_md_front cfg), ApiInit a],
               gs_md := md, gs_md_spi := spi, gs_gw := (gs_gw s)\<lparr>gw_ctp_running := True\<rparr>\<rparr>)))"

definition init_ctp :: "loader \<Rightarrow> gateway_config \<Rightarrow> (td_event \<times> bool) list \<Rightarrow> gateway_sys \<Rightarrow> bool \<times> gateway_sys" where
  "init_ctp ld cfg evs s = init_md ld cfg (init_td ld cfg evs s)"

text \<open>\<open>None\<close>: decoding the acknowledgement has undefined behaviour.\<close>

definition gateway_start :: "codec \<Rightarrow> loader \<Rightarrow> gateway_config \<Rightarrow> bytes option \<Rightarrow> (nat \<Rightarrow> payload \<Rightarrow> string + payload) \<Rightarrow>
    (td_event \<times> bool) list \<Rightarrow> gateway_sys \<Rightarrow> (bool \<times> gateway_sys) option" where
  "gateway_start cx ld cfg ack reply evs s =
     (if gw_started (gs_gw s) then Some (False, s)
      else
        let g = (gs_gw s)\<lparr>gw_started := True\<rparr> in
        do { m \<leftarrow> start_workers cx ack (gw_module g);
             let g1 = g\<lparr>gw_module := m\<rparr>;
             if \<not> tm_registered m then Some (False, s\<lparr>gs_gw := g1\<rparr>)
             else
               let (_, g2) = resolve_instruments cfg reply g1;
                   (threw, s1) = init_ctp ld cfg evs (s\<lparr>gs_gw := g2\<rparr>)
               in Some (threw, if threw then s1 else s1\<lparr>gs_thread := True\<rparr>) })"

section \<open>Running and stopping\<close>

datatype gateway_event = GwDepth u64 u64 "depth_data option" | GwDispatch bool u64

fun gateway_run :: "codec \<Rightarrow> gateway_event list \<Rightarrow> gateway \<Rightarrow> (bytes list list \<times> gateway) option" where
  "gateway_run cx [] g = Some ([], g)"
| "gateway_run cx (GwDepth tick_ns now_ns d # evs) g =
     do { (s1, g1) \<leftarrow> on_depth cx tick_ns now_ns d g; (s2, g2) \<leftarrow> gateway_run cx evs g1; Some (s1 @ s2, g2) }"
| "gateway_run cx (GwDispatch due now_ns # evs) g =
     (let (s1, g1) = dispatch_iteration cx due now_ns g
      in do { (s2, g2) \<leftarrow> gateway_run cx evs g1; Some (s1 @ s2, g2) })"

text \<open>Joining the dispatch thread lets it drain the buffer.\<close>

definition gateway_stop :: "codec \<Rightarrow> gateway_sys \<Rightarrow> (bytes list list \<times> gateway_sys) option" where
  "gateway_stop cx s =
     (if gw_stopping (gs_gw s) then Some ([], s)
      else
        let g1 = (gs_gw s)\<lparr>gw_stopping := True, gw_ctp_running := False\<rparr> in
        do { (sent, g2) \<leftarrow> (if gs_thread s then dispatch_drain cx g1 else Some ([], g1));
             let s3 = cleanup_ctp (s\<lparr>gs_gw := g2, gs_thread := False\<rparr>);
             Some (sent, s3\<lparr>gs_gw := (gs_gw s3)\<lparr>gw_module := stop_module (gw_module (gs_gw s3))\<rparr>\<rparr>) })"

definition gateway_destroy :: "codec \<Rightarrow> gateway_sys \<Rightarrow> (bytes list list \<times> gateway_sys) option" where
  "gateway_destroy cx s = (if gw_stopping (gs_gw s) then Some ([], s) else gateway_stop cx s)"

section \<open>The executable\<close>

text \<open>An exit code, or the path of the configuration.\<close>

fun gateway_args :: "string list \<Rightarrow> string \<Rightarrow> nat + string" where
  "gateway_args [] path = (if path = [] then Inl 1 else Inr path)"
| "gateway_args (a # as) path =
     (if a = ''--help'' \<or> a = ''-h'' then Inl 0
      else if a = ''--config'' then (case as of [] \<Rightarrow> Inl 1 | p # rest \<Rightarrow> gateway_args rest p)
      else gateway_args as path)"

text \<open>\<open>files\<close> reads a configuration file; \<open>evs\<close> are the quotes and dispatches until a signal asks for
  the end.  The result is the exit code, what was published and the gateway after its destruction, if
  there was one.\<close>

definition gateway_main :: "codec \<Rightarrow> loader \<Rightarrow> (double_bits \<Rightarrow> i32) \<Rightarrow> (string \<Rightarrow> json option option) \<Rightarrow>
    (payload \<Rightarrow> payload) \<Rightarrow> bytes option \<Rightarrow> (nat \<Rightarrow> payload \<Rightarrow> string + payload) \<Rightarrow> (td_event \<times> bool) list \<Rightarrow>
    gateway_event list \<Rightarrow> string list \<Rightarrow> (nat \<times> bytes list list \<times> gateway_sys option) option" where
  "gateway_main cx ld float_int files status ack reply tevs evs args =
     (case gateway_args args [] of
        Inl code \<Rightarrow> Some (code, [], None)
      | Inr path \<Rightarrow>
          (case from_file float_int (files path) of
             Inl e \<Rightarrow> Some (2, [], None)
           | Inr cfg \<Rightarrow>
               do { (threw, s) \<leftarrow> gateway_start cx ld cfg ack reply tevs (gateway_sys_new cfg status);
                    if threw then do { (sent, s1) \<leftarrow> gateway_destroy cx s; Some (2, sent, Some s1) }
                    else do { (o1, g) \<leftarrow> gateway_run cx (if gs_thread s then evs else []) (gs_gw s);
                              (o2, s1) \<leftarrow> gateway_stop cx (s\<lparr>gs_gw := g\<rparr>);
                              (o3, s2) \<leftarrow> gateway_destroy cx s1;
                              Some (0, o1 @ o2 @ o3, Some s2) } }))"

section \<open>Libraries and API objects\<close>

definition opened :: "pointer \<Rightarrow> ctp_call list \<Rightarrow> nat" where
  "opened h tr = length (filter (\<lambda>c. case c of LibOpen _ h' \<Rightarrow> h' = h | _ \<Rightarrow> False) tr)"

definition closed_libs :: "pointer \<Rightarrow> ctp_call list \<Rightarrow> nat" where
  "closed_libs h tr = length (filter (\<lambda>c. c = LibClose h) tr)"

definition created :: "pointer \<Rightarrow> ctp_call list \<Rightarrow> nat" where
  "created a tr = length (filter (\<lambda>c. c = ApiCreate a) tr)"

definition released :: "pointer \<Rightarrow> ctp_call list \<Rightarrow> nat" where
  "released a tr = length (filter (\<lambda>c. c = ApiRelease a) tr)"

lemmas count_defs = opened_def closed_libs_def created_def released_def

lemma count_append [simp]:
  "opened h (xs @ ys) = opened h xs + opened h ys" "closed_libs h (xs @ ys) = closed_libs h xs + closed_libs h ys"
  "created h (xs @ ys) = created h xs + created h ys" "released h (xs @ ys) = released h xs + released h ys"
  by (simp_all add: count_defs)

definition holds :: "pointer \<Rightarrow> pointer \<Rightarrow> nat" where
  "holds own p = (if own = p \<and> p \<noteq> 0 then 1 else 0)"

definition balanced :: "gateway_sys \<Rightarrow> bool" where
  "balanced s \<longleftrightarrow> (\<forall>p. opened p (gs_calls s) = closed_libs p (gs_calls s) + holds (cs_dll (gs_md s)) p + holds (cs_dll (gs_td s)) p \<and>
     created p (gs_calls s) = released p (gs_calls s) + holds (cs_api (gs_md s)) p + holds (cs_api (gs_td s)) p)"

lemma release_side_counts:
  assumes "release_side sd cs = (tr, cs')"
  shows "opened p tr = 0" "created p tr = 0" "closed_libs p tr = holds (cs_dll cs) p" "released p tr = holds (cs_api cs) p" "cs' = empty_side"
  using assms by (auto simp: release_side_def dll_reset_def api_delete_def count_defs holds_def empty_side_def split: if_splits)

lemma adopt_side_counts:
  assumes "adopt_side sd ha cs = (tr, cs')"
  shows "opened p tr = 0" "created p tr = 0" "closed_libs p tr = holds (cs_dll cs) p" "released p tr = holds (cs_api cs) p"
    "cs_dll cs' = fst ha" "cs_api cs' = snd ha"
  using assms by (auto simp: adopt_side_def dll_move_def api_delete_def count_defs holds_def split: if_splits)

lemma create_counts:
  assumes "create_from ld path expected fn flow = (tr, r)"
  shows "opened p tr = closed_libs p tr + (case r of Inr ha \<Rightarrow> holds (fst ha) p | _ \<Rightarrow> 0)"
    "created p tr = (case r of Inr ha \<Rightarrow> holds (snd ha) p | _ \<Rightarrow> 0)" "released p tr = 0"
  using assms by (auto simp: create_from_def open_lib_def get_sym_def dll_destroy_def count_defs holds_def Let_def
      split: option.splits sum.splits if_splits platform.splits)

lemma holds_empty [simp]: "holds (cs_dll empty_side) p = 0" "holds (cs_api empty_side) p = 0"
  by (simp_all add: empty_side_def holds_def)

lemma cleanup_balanced:
  assumes "balanced s"
  shows "balanced (cleanup_ctp s)"
proof -
  obtain c1 md c2 td where r: "release_side MdSide (gs_md s) = (c1, md)" "release_side TdSide (gs_td s) = (c2, td)" by fastforce
  from assms release_side_counts [OF r(1)] release_side_counts [OF r(2)] show ?thesis
    by (auto simp: cleanup_ctp_def r balanced_def holds_def empty_side_def Let_def)
qed

lemma cleanup_empties:
  assumes "gw_cleanup_done (gs_gw s) \<Longrightarrow> gs_md s = empty_side \<and> gs_td s = empty_side"
  shows "gs_md (cleanup_ctp s) = empty_side \<and> gs_td (cleanup_ctp s) = empty_side"
proof -
  obtain c1 md c2 td where r: "release_side MdSide (gs_md s) = (c1, md)" "release_side TdSide (gs_td s) = (c2, td)" by fastforce
  from assms release_side_counts(5) [OF r(1)] release_side_counts(5) [OF r(2)] show ?thesis
    by (auto simp: cleanup_ctp_def r)
qed

text \<open>Once the objects are given up the gateway has none, and it gives them up only once.\<close>

definition cleaned :: "gateway_sys \<Rightarrow> bool" where
  "cleaned s \<longleftrightarrow> (gw_cleanup_done (gs_gw s) \<longrightarrow> gs_md s = empty_side \<and> gs_td s = empty_side)"

lemma init_td_keeps: "gs_gw (init_td ld cfg evs s) = gs_gw s" "gs_md (init_td ld cfg evs s) = gs_md s"
  by (auto simp: init_td_def Let_def split: prod.splits sum.splits)

lemma init_td_balanced:
  assumes "balanced s"
  shows "balanced (init_td ld cfg evs s)"
proof (cases "gc_td_front cfg = []")
  case False
  obtain tr r where c: "create_td_api ld (gc_dll_dir cfg) (gc_td_dll cfg) [] = (tr, r)" by fastforce
  note n = create_counts [OF c [unfolded create_td_api_def]]
  show ?thesis
  proof (cases r)
    case (Inl e)
    obtain c2 td where r: "release_side TdSide (gs_td s) = (c2, td)" by fastforce
    from release_side_counts [OF this] n assms False c Inl r show ?thesis by (simp add: init_td_def balanced_def)
  next
    case (Inr ha)
    obtain c2 td where r: "adopt_side TdSide ha (gs_td s) = (c2, td)" by fastforce
    have o: "opened p [ApiRegisterSpi a x, ApiRegisterFront a f, ApiSubscribeTopics a, ApiInit a] = 0"
      "closed_libs p [ApiRegisterSpi a x, ApiRegisterFront a f, ApiSubscribeTopics a, ApiInit a] = 0"
      "created p [ApiRegisterSpi a x, ApiRegisterFront a f, ApiSubscribeTopics a, ApiInit a] = 0"
      "released p [ApiRegisterSpi a x, ApiRegisterFront a f, ApiSubscribeTopics a, ApiInit a] = 0" for p a x f
      by (simp_all add: count_defs)
    from adopt_side_counts [OF r] n assms False c Inr r show ?thesis
      by (simp add: init_td_def balanced_def Let_def o split: prod.splits)
  qed
qed (simp add: init_td_def assms)

lemma init_md_balanced:
  assumes "balanced s" and "init_md ld cfg s = (threw, s')"
  shows "balanced s'"
proof -
  obtain tr r where c: "create_md_api ld (gc_dll_dir cfg) (gc_md_dll cfg) [] = (tr, r)" by fastforce
  note n = create_counts [OF c [unfolded create_md_api_def]]
  show ?thesis
  proof (cases r)
    case (Inl e)
    with n assms(1) have "balanced (s\<lparr>gs_calls := gs_calls s @ tr\<rparr>)" by (simp add: balanced_def)
    from cleanup_balanced [OF this] assms(2) c Inl show ?thesis by (simp add: init_md_def)
  next
    case (Inr ha)
    obtain c2 md where r: "adopt_side MdSide ha (gs_md s) = (c2, md)" by fastforce
    have o: "opened p [ApiRegisterSpi a x, ApiRegisterFront a f, ApiInit a] = 0"
      "closed_libs p [ApiRegisterSpi a x, ApiRegisterFront a f, ApiInit a] = 0"
      "created p [ApiRegisterSpi a x, ApiRegisterFront a f, ApiInit a] = 0"
      "released p [ApiRegisterSpi a x, ApiRegisterFront a f, ApiInit a] = 0" for p a x f
      by (simp_all add: count_defs)
    from adopt_side_counts [OF r] n assms c Inr r show ?thesis
      by (auto simp: init_md_def balanced_def Let_def o split: prod.splits)
  qed
qed

lemma init_md_cleaned:
  assumes "init_md ld cfg s = (threw, s')" and "\<not> gw_cleanup_done (gs_gw s)"
  shows "cleaned s'"
proof (cases "snd (create_md_api ld (gc_dll_dir cfg) (gc_md_dll cfg) [])")
  case (Inl e)
  with assms(1) obtain tr where "s' = cleanup_ctp (s\<lparr>gs_calls := gs_calls s @ tr\<rparr>)"
    by (auto simp: init_md_def split: prod.splits)
  with cleanup_empties [of "s\<lparr>gs_calls := gs_calls s @ tr\<rparr>"] assms(2) show ?thesis by (simp add: cleaned_def)
next
  case (Inr ha)
  with assms show ?thesis by (auto simp: init_md_def cleaned_def Let_def split: prod.splits)
qed

lemma cleanup_flags [simp]: "gw_stopping (gs_gw (cleanup_ctp s)) = gw_stopping (gs_gw s)" "gs_thread (cleanup_ctp s) = gs_thread s"
  by (auto simp: cleanup_ctp_def Let_def split: prod.splits)

lemma init_md_flags: "init_md ld cfg s = (threw, s') \<Longrightarrow> gw_stopping (gs_gw s') = gw_stopping (gs_gw s) \<and> gs_thread s' = gs_thread s"
  by (auto simp: init_md_def Let_def simp del: md_step.simps split: prod.splits sum.splits)

lemma resolve_flags: "resolve_instruments cfg reply g = (n, g') \<Longrightarrow> gw_cleanup_done g' = gw_cleanup_done g \<and> gw_stopping g' = gw_stopping g"
  by (auto simp: resolve_instruments_def Let_def simp del: resolve_attempts.simps)

lemma start_keeps:
  assumes "gateway_start cx ld cfg ack reply evs s = Some (threw, s')"
    and "balanced s" and "\<not> gw_cleanup_done (gs_gw s)" and "\<not> gw_stopping (gs_gw s)"
  shows "balanced s' \<and> cleaned s' \<and> \<not> gw_stopping (gs_gw s')"
proof (cases "gw_started (gs_gw s)")
  case True
  with assms show ?thesis by (auto simp: gateway_start_def cleaned_def)
next
  case False
  then obtain m where m: "start_workers cx ack (gw_module (gs_gw s)) = Some m"
    using assms(1) by (auto simp: gateway_start_def split: bind_splits)
  let ?g1 = "(gs_gw s)\<lparr>gw_started := True, gw_module := m\<rparr>"
  show ?thesis
  proof (cases "tm_registered m")
    case True
    obtain n g2 where r: "resolve_instruments cfg reply ?g1 = (n, g2)" by fastforce
    obtain s1 where i: "init_ctp ld cfg evs (s\<lparr>gs_gw := g2\<rparr>) = (threw, s1)" and s': "s' = (if threw then s1 else s1\<lparr>gs_thread := True\<rparr>)"
      using assms(1) False m True r by (auto simp: gateway_start_def Let_def split: prod.splits)
    let ?s0 = "init_td ld cfg evs (s\<lparr>gs_gw := g2\<rparr>)"
    have md: "init_md ld cfg ?s0 = (threw, s1)" using i by (simp add: init_ctp_def)
    have "balanced (s\<lparr>gs_gw := g2\<rparr>)" using assms(2) by (simp add: balanced_def)
    then have "balanced s1" using init_md_balanced [OF init_td_balanced md] by blast
    moreover have f: "\<not> gw_cleanup_done (gs_gw ?s0)" "\<not> gw_stopping (gs_gw ?s0)"
      using resolve_flags [OF r] assms(3,4) by (simp_all add: init_td_keeps)
    moreover have "cleaned s1" by (rule init_md_cleaned [OF md f(1)])
    moreover have "\<not> gw_stopping (gs_gw s1)" using init_md_flags [OF md] f(2) by simp
    ultimately show ?thesis using s' by (auto simp: balanced_def cleaned_def)
  next
    case False
    with assms \<open>\<not> gw_started (gs_gw s)\<close> m show ?thesis by (auto simp: gateway_start_def cleaned_def balanced_def Let_def)
  qed
qed

lemma on_depth_flags: "on_depth cx tick_ns now_ns d g = Some (sent, g') \<Longrightarrow> gw_cleanup_done g' = gw_cleanup_done g \<and> gw_stopping g' = gw_stopping g \<and>
    gw_module g' = gw_module g \<and> gw_options g' = gw_options g"
  by (auto simp: on_depth_def on_quote_received_def Let_def split: option.splits if_splits bind_splits prod.splits)

lemma dispatch_flags: "dispatch_iteration cx due now_ns g = (sent, g') \<Longrightarrow> gw_cleanup_done g' = gw_cleanup_done g \<and> gw_stopping g' = gw_stopping g \<and>
    gw_module g' = gw_module g \<and> gw_options g' = gw_options g \<and> gw_option_dropped g' = gw_option_dropped g"
  by (auto simp: dispatch_iteration_def Let_def split: prod.splits if_splits)

lemma drain_flags: "dispatch_drain cx g = Some (sent, g') \<Longrightarrow> gw_cleanup_done g' = gw_cleanup_done g \<and> gw_stopping g' = gw_stopping g \<and>
    gw_module g' = gw_module g \<and> gw_option_dropped g' = gw_option_dropped g"
  by (auto simp: dispatch_drain_def split: bind_splits)

lemma run_flags: "gateway_run cx evs g = Some (sent, g') \<Longrightarrow> gw_cleanup_done g' = gw_cleanup_done g \<and> gw_stopping g' = gw_stopping g \<and>
    gw_module g' = gw_module g"
proof (induction cx evs g arbitrary: sent rule: gateway_run.induct)
  case (2 cx tick_ns now_ns d evs g)
  then show ?case by (fastforce dest: on_depth_flags split: bind_splits)
next
  case (3 cx due now_ns evs g)
  obtain s1 g1 where d: "dispatch_iteration cx due now_ns g = (s1, g1)" by fastforce
  with 3 dispatch_flags [OF d] show ?case by (fastforce split: bind_splits)
qed simp

lemma stop_empties:
  assumes "gateway_stop cx s = Some (sent, s')" and "balanced s" and "cleaned s" and "\<not> gw_stopping (gs_gw s)"
  shows "balanced s' \<and> gs_md s' = empty_side \<and> gs_td s' = empty_side \<and> gw_stopping (gs_gw s')"
proof -
  let ?g1 = "(gs_gw s)\<lparr>gw_stopping := True, gw_ctp_running := False\<rparr>"
  from assms(1,4) obtain g2 where d: "(if gs_thread s then dispatch_drain cx ?g1 else Some ([], ?g1)) = Some (sent, g2)"
    and s': "s' = (let s3 = cleanup_ctp (s\<lparr>gs_gw := g2, gs_thread := False\<rparr>)
      in s3\<lparr>gs_gw := (gs_gw s3)\<lparr>gw_module := stop_module (gw_module (gs_gw s3))\<rparr>\<rparr>)"
    by (auto simp: gateway_stop_def Let_def split: bind_splits)
  have f: "gw_cleanup_done g2 = gw_cleanup_done (gs_gw s)" "gw_stopping g2"
    using d drain_flags [of cx ?g1] by (auto split: if_splits)
  let ?s2 = "s\<lparr>gs_gw := g2, gs_thread := False\<rparr>"
  have "balanced ?s2" using assms(2) by (simp add: balanced_def)
  then have "balanced (cleanup_ctp ?s2)" by (rule cleanup_balanced)
  moreover have "gs_md (cleanup_ctp ?s2) = empty_side \<and> gs_td (cleanup_ctp ?s2) = empty_side"
    by (rule cleanup_empties) (use assms(3) f(1) in \<open>simp add: cleaned_def\<close>)
  ultimately show ?thesis using s' f(2) by (simp add: Let_def balanced_def)
qed

section \<open>Ticks and quotes of a run\<close>

text \<open>What arrives, by where it goes: the options' ticks and the other quotes.\<close>

fun option_ticks :: "gateway \<Rightarrow> gateway_event list \<Rightarrow> quote_tick list" where
  "option_ticks g [] = []"
| "option_ticks g (GwDepth tick_ns now_ns (Some d) # evs) =
     (if option_quote (depth_to_payload d) g then [payload_tick now_ns (depth_to_payload d)] else []) @ option_ticks g evs"
| "option_ticks g (_ # evs) = option_ticks g evs"

fun plain_quotes :: "gateway \<Rightarrow> gateway_event list \<Rightarrow> payload list" where
  "plain_quotes g [] = []"
| "plain_quotes g (GwDepth tick_ns now_ns (Some d) # evs) =
     (if option_quote (depth_to_payload d) g then [] else [depth_to_payload d]) @ plain_quotes g evs"
| "plain_quotes g (_ # evs) = plain_quotes g evs"

lemma arrivals_cong: "gw_options g = gw_options g' \<Longrightarrow> option_ticks g evs = option_ticks g' evs \<and> plain_quotes g evs = plain_quotes g' evs"
  by (induction g evs rule: option_ticks.induct) (auto simp: option_quote_def)

definition is_greeks :: "bytes list \<Rightarrow> bool" where
  "is_greeks fs \<longleftrightarrow> hd fs = str_bytes ''send_compute_greeks''"

lemma greeks_frames [simp]:
  "filter is_greeks (concat (map (greeks_event cx m) ts)) = concat (map (greeks_event cx m) ts)"
  "filter (\<lambda>f. \<not> is_greeks f) (concat (map (greeks_event cx m) ts)) = []"
  by (induction ts) (auto simp: greeks_event_def send_event_def is_greeks_def)

lemma quote_frames [simp]:
  "filter is_greeks (send_event cx ''quote'' p None m) = []"
  "filter (\<lambda>f. \<not> is_greeks f) (send_event cx ''quote'' p None m) = send_event cx ''quote'' p None m"
  by (auto simp: send_event_def is_greeks_def str_bytes_def)

text \<open>The relation between what a run starts with and what it leaves.\<close>

definition accounted :: "codec \<Rightarrow> gateway_event list \<Rightarrow> gateway \<Rightarrow> bytes list list \<Rightarrow> gateway \<Rightarrow> bool" where
  "accounted cx evs g sent g' \<longleftrightarrow>
     filter (\<lambda>f. \<not> is_greeks f) sent = concat (map (\<lambda>p. send_event cx ''quote'' p None (gw_module g)) (plain_quotes g evs)) \<and>
     (\<exists>ticks d. filter is_greeks sent = concat (map (greeks_event cx (gw_module g)) ticks) \<and>
        subseq (ticks @ ring_list (gw_ring g')) (ring_list (gw_ring g) @ option_ticks g evs) \<and>
        length ticks + length (ring_list (gw_ring g')) + d = length (ring_list (gw_ring g)) + length (option_ticks g evs) \<and>
        gw_option_dropped g' = gw_option_dropped g + word_of_nat d \<and>
        (length (ring_list (gw_ring g)) + length (option_ticks g evs) \<le> length (slots (gw_ring g)) \<longrightarrow> d = 0))"

lemma depth_accounted:
  assumes "ring_inv (gw_ring g)"
  shows "\<exists>sent g'. on_depth cx tick_ns now_ns d g = Some (sent, g') \<and> ring_inv (gw_ring g') \<and>
    length (slots (gw_ring g')) = length (slots (gw_ring g)) \<and> accounted cx [GwDepth tick_ns now_ns d] g sent g'"
proof (cases d)
  case None
  with assms show ?thesis by (auto simp: on_depth_def accounted_def intro!: exI [of _ "[]"])
next
  case (Some dd)
  let ?p = "depth_to_payload dd" and ?r = "ring_list (gw_ring g)" and ?room = "length (ring_list (gw_ring g)) < length (slots (gw_ring g))"
  let ?g = "g\<lparr>gw_md_tick_time := (if tick_ns > 0 then tick_ns else now_ns)\<rparr>"
  from on_quote_received_spec [of ?g cx now_ns ?p] assms obtain sent g' where
    q: "on_quote_received cx now_ns ?p ?g = Some (sent, g')" "ring_inv (gw_ring g')" "length (slots (gw_ring g')) = length (slots (gw_ring g))"
    and o: "option_quote ?p g \<Longrightarrow> sent = [] \<and> ring_list (gw_ring g') = (if ?room then ?r else tl ?r) @ [payload_tick now_ns ?p] \<and>
          gw_option_dropped g' = (if ?room then gw_option_dropped g else gw_option_dropped g + 1)"
    and n: "\<not> option_quote ?p g \<Longrightarrow> sent = send_event cx ''quote'' ?p None (gw_module g) \<and> gw_ring g' = gw_ring g \<and>
          gw_option_dropped g' = gw_option_dropped g"
    by (auto simp: Let_def option_quote_def)
  have "accounted cx [GwDepth tick_ns now_ns d] g sent g'"
  proof (cases "option_quote ?p g")
    case True
    show ?thesis
    proof (cases ?room)
      case room: True
      with True o Some show ?thesis unfolding accounted_def
        by (auto intro!: exI [of _ "[]"] exI [of _ "0 :: nat"])
    next
      case full: False
      moreover have "0 < length (slots (gw_ring g))" using assms by (auto elim!: ring_invE)
      ultimately have "length ?r > 0" by linarith
      then obtain x xs where r: "?r = x # xs" by (cases ?r) auto
      then have l: "length (slots (gw_ring g)) \<le> Suc (length xs)" using full by simp
      from True o Some full have "sent = []" "ring_list (gw_ring g') = xs @ [payload_tick now_ns ?p]"
        "gw_option_dropped g' = gw_option_dropped g + 1" unfolding r by simp_all
      with True Some l show ?thesis unfolding accounted_def r
        by (auto intro!: exI [of _ "[]"] exI [of _ "1 :: nat"] list_emb_Cons)
    qed
  next
    case False
    with n Some show ?thesis unfolding accounted_def by (auto intro!: exI [of _ "[]"])
  qed
  with q Some show ?thesis by (auto simp: on_depth_def depth_to_tick_def)
qed

lemma dispatch_accounted:
  assumes "ring_inv (gw_ring g)" and "dispatch_iteration cx due now_ns g = (sent, g')"
  shows "ring_inv (gw_ring g') \<and> length (slots (gw_ring g')) = length (slots (gw_ring g)) \<and>
    accounted cx [GwDispatch due now_ns] g sent g'"
proof -
  note b = pop_batch_spec [OF assms(1), of BATCH_SIZE]
  from assms(2) have s: "sent = concat (map (greeks_event cx (gw_module g)) (fst (pop_batch BATCH_SIZE (gw_ring g))))"
    "gw_ring g' = snd (pop_batch BATCH_SIZE (gw_ring g))" "gw_option_dropped g' = gw_option_dropped g"
    by (auto simp: dispatch_iteration_def Let_def split: prod.splits if_splits)
  with b show ?thesis unfolding accounted_def
    by (auto intro!: exI [of _ "take BATCH_SIZE (ring_list (gw_ring g))"] exI [of _ "0 :: nat"])
qed

text \<open>One run after another.\<close>

lemma accounted_trans:
  assumes "accounted cx [ev] g s1 g1" and "accounted cx evs g1 s2 g2"
    and "gw_module g1 = gw_module g" and "gw_options g1 = gw_options g" and "length (slots (gw_ring g1)) = length (slots (gw_ring g))"
  shows "accounted cx (ev # evs) g (s1 @ s2) g2"
proof -
  have c: "option_ticks g (ev # evs) = option_ticks g [ev] @ option_ticks g1 evs"
    "plain_quotes g (ev # evs) = plain_quotes g [ev] @ plain_quotes g1 evs"
    using arrivals_cong [OF assms(4), of evs] by (cases ev; cases "\<exists>k n d. ev = GwDepth k n (Some d)"; auto)+
  let ?r = "\<lambda>g. ring_list (gw_ring g)" and ?o1 = "option_ticks g [ev]" and ?o2 = "option_ticks g1 evs"
  from assms(1) obtain t1 d1 where 1: "filter is_greeks s1 = concat (map (greeks_event cx (gw_module g)) t1)"
    "subseq (t1 @ ?r g1) (?r g @ ?o1)" "length t1 + length (?r g1) + d1 = length (?r g) + length ?o1"
    "gw_option_dropped g1 = gw_option_dropped g + word_of_nat d1"
    "length (?r g) + length ?o1 \<le> length (slots (gw_ring g)) \<longrightarrow> d1 = 0"
    unfolding accounted_def by blast
  from assms(2) obtain t2 d2 where 2: "filter is_greeks s2 = concat (map (greeks_event cx (gw_module g1)) t2)"
    "subseq (t2 @ ?r g2) (?r g1 @ ?o2)" "length t2 + length (?r g2) + d2 = length (?r g1) + length ?o2"
    "gw_option_dropped g2 = gw_option_dropped g1 + word_of_nat d2"
    "length (?r g1) + length ?o2 \<le> length (slots (gw_ring g1)) \<longrightarrow> d2 = 0"
    unfolding accounted_def by blast
  have "subseq (t1 @ t2 @ ?r g2) (t1 @ ?r g1 @ ?o2)"
    using list_emb_append_mono [OF subseq_order.order_refl [of t1] 2(2)] by simp
  also have "subseq (t1 @ ?r g1 @ ?o2) (?r g @ ?o1 @ ?o2)"
    using list_emb_append_mono [OF 1(2), of ?o2 ?o2] by simp
  finally have sub: "subseq ((t1 @ t2) @ ?r g2) (?r g @ option_ticks g (ev # evs))" by (simp add: c)
  have gr: "filter is_greeks (s1 @ s2) = concat (map (greeks_event cx (gw_module g)) (t1 @ t2))"
    using 1(1) 2(1) assms(3) by simp
  have len: "length (t1 @ t2) + length (?r g2) + (d1 + d2) = length (?r g) + length (option_ticks g (ev # evs))"
    using 1(3) 2(3) by (simp add: c)
  have drop: "gw_option_dropped g2 = gw_option_dropped g + word_of_nat (d1 + d2)" using 1(4) 2(4) by simp
  have none: "length (?r g) + length (option_ticks g (ev # evs)) \<le> length (slots (gw_ring g)) \<longrightarrow> d1 + d2 = 0"
    using 1(3,5) 2(5) assms(5) by (auto simp: c)
  have "filter (\<lambda>f. \<not> is_greeks f) (s1 @ s2) =
      concat (map (\<lambda>p. send_event cx ''quote'' p None (gw_module g)) (plain_quotes g (ev # evs)))"
    using assms(1-3) by (simp add: c accounted_def)
  with gr sub len drop none show ?thesis unfolding accounted_def by blast
qed

lemma run_accounted:
  assumes "ring_inv (gw_ring g)"
  shows "\<exists>sent g'. gateway_run cx evs g = Some (sent, g') \<and> ring_inv (gw_ring g') \<and> accounted cx evs g sent g'"
  using assms
proof (induction cx evs g rule: gateway_run.induct)
  case (1 cx g)
  then show ?case by (auto simp: accounted_def intro!: exI [of _ "[]"])
next
  case (2 cx tick_ns now_ns d evs g)
  from depth_accounted [OF 2(2)] obtain s1 g1 where d: "on_depth cx tick_ns now_ns d g = Some (s1, g1)" "ring_inv (gw_ring g1)"
    "length (slots (gw_ring g1)) = length (slots (gw_ring g))" "accounted cx [GwDepth tick_ns now_ns d] g s1 g1" by blast
  from 2(1) [OF d(1) refl d(2)] obtain s2 g2 where r: "gateway_run cx evs g1 = Some (s2, g2)" "ring_inv (gw_ring g2)"
    "accounted cx evs g1 s2 g2" by blast
  from accounted_trans [OF d(4) r(3)] on_depth_flags [OF d(1)] d r show ?case by simp
next
  case (3 cx due now_ns evs g)
  obtain s1 g1 where d: "dispatch_iteration cx due now_ns g = (s1, g1)" by fastforce
  note a = dispatch_accounted [OF 3(2) d]
  from 3(1) [OF d [symmetric]] a obtain s2 g2 where r: "gateway_run cx evs g1 = Some (s2, g2)" "ring_inv (gw_ring g2)"
    "accounted cx evs g1 s2 g2" by blast
  from accounted_trans [OF _ r(3)] dispatch_flags [OF d] a d r show ?case by simp
qed

text \<open>The 64-bit counters: the write counter grows by at most one with every event.\<close>

definition counters_ok :: "nat \<Rightarrow> quote_tick ring_buffer \<Rightarrow> bool" where
  "counters_ok n rb \<longleftrightarrow> ring_count rb \<le> unat (write_pos rb) \<and> unat (write_pos rb) + n < 2 ^ 64"

lemma counters_order:
  assumes "counters_ok n rb"
  shows "read_pos rb \<le> write_pos rb"
proof -
  have "write_pos rb - read_pos rb \<le> write_pos rb" using assms by (simp add: counters_ok_def ring_count_def word_le_nat_alt)
  then have "write_pos rb - (write_pos rb - read_pos rb) \<le> write_pos rb" by (rule word_sub_le)
  then show ?thesis by simp
qed

lemma quote_write_pos:
  assumes "ring_inv (gw_ring g)" and "on_quote_received cx now_ns p g = Some (sent, g')"
  shows "gw_ring g' = gw_ring g \<or> write_pos (gw_ring g') = write_pos (gw_ring g) + 1"
proof (cases "option_quote p g")
  case False
  then show ?thesis using assms on_quote_received_spec [OF assms(1), of cx now_ns p] by (auto simp: Let_def)
next
  case True
  show ?thesis
  proof (cases "length (ring_list (gw_ring g)) < length (slots (gw_ring g))")
    case room: True
    note o = ring_offer_room(1) [OF assms(1) room]
    show ?thesis using True assms(2) o unfolding option_quote_iff by (auto simp: on_quote_received_def Let_def pushed_def)
  next
    case False
    then have full: "length (ring_list (gw_ring g)) = length (slots (gw_ring g))" using rb.content_le [OF assms(1)] by simp
    note o = ring_offer_full [OF assms(1) full] push_overwrite_full [OF assms(1) full]
    show ?thesis using True assms(2) o unfolding option_quote_iff
      by (auto simp: on_quote_received_def Let_def pushed_def popped_def)
  qed
qed

lemma depth_counters:
  assumes "ring_inv (gw_ring g)" and "on_depth cx tick_ns now_ns d g = Some (sent, g')" and "counters_ok (Suc n) (gw_ring g)"
  shows "counters_ok n (gw_ring g')"
proof (cases d)
  case (Some dd)
  let ?g = "g\<lparr>gw_md_tick_time := (if tick_ns > 0 then tick_ns else now_ns)\<rparr>"
  have q: "on_quote_received cx now_ns (depth_to_payload dd) ?g = Some (sent, g')"
    using assms(2) Some by (simp add: on_depth_def depth_to_tick_def split: if_splits)
  have len: "length (ring_list (gw_ring g')) \<le> Suc (length (ring_list (gw_ring g)))"
    using on_quote_received_spec [of ?g cx now_ns "depth_to_payload dd"] assms(1) q
    by (auto simp: Let_def simp del: length_ring_list split: if_splits)
  from quote_write_pos [OF _ q] assms(1) consider "gw_ring g' = gw_ring g" | "write_pos (gw_ring g') = write_pos (gw_ring g) + 1" by auto
  then show ?thesis
  proof cases
    case 2
    have "unat (write_pos (gw_ring g)) + 1 < 2 ^ 64" using assms(3) by (simp add: counters_ok_def)
    then have "unat (write_pos (gw_ring g) + 1) = unat (write_pos (gw_ring g)) + 1"
      using unat_add_lem [of "write_pos (gw_ring g)" 1] by simp
    with 2 len assms(3) show ?thesis by (simp add: counters_ok_def)
  qed (use assms(3) in \<open>simp add: counters_ok_def\<close>)
qed (use assms in \<open>auto simp: on_depth_def counters_ok_def\<close>)

lemma pop_batch_write_pos: "write_pos (snd (pop_batch n rb)) = write_pos rb"
proof (induction n arbitrary: rb)
  case (Suc n)
  have "write_pos (snd (pop rb)) = write_pos rb" by (simp add: pop_def Let_def)
  with Suc [of "snd (pop rb)"] show ?case by (auto split: prod.splits option.splits)
qed simp

lemma dispatch_counters:
  assumes "ring_inv (gw_ring g)" and "dispatch_iteration cx due now_ns g = (sent, g')" and "counters_ok (Suc n) (gw_ring g)"
  shows "counters_ok n (gw_ring g')"
proof -
  have r: "gw_ring g' = snd (pop_batch BATCH_SIZE (gw_ring g))"
    using assms(2) by (auto simp: dispatch_iteration_def Let_def split: prod.splits if_splits)
  have "length (ring_list (gw_ring g')) \<le> length (ring_list (gw_ring g))"
    unfolding r using pop_batch_spec [OF assms(1), of BATCH_SIZE] by (simp del: length_ring_list)
  with assms(3) show ?thesis by (simp add: counters_ok_def) (simp add: r pop_batch_write_pos)
qed

lemma run_counters:
  assumes "ring_inv (gw_ring g)" and "counters_ok (length evs) (gw_ring g)" and "gateway_run cx evs g = Some (sent, g')"
  shows "read_pos (gw_ring g') \<le> write_pos (gw_ring g')"
  using assms
proof (induction cx evs g arbitrary: sent rule: gateway_run.induct)
  case (2 cx tick_ns now_ns d evs g)
  from 2(4) obtain s1 g1 s2 where d: "on_depth cx tick_ns now_ns d g = Some (s1, g1)" and r: "gateway_run cx evs g1 = Some (s2, g')"
    by (auto split: bind_splits)
  have "ring_inv (gw_ring g1)" using depth_accounted [OF 2(2), of cx tick_ns now_ns d] d by auto
  moreover have "counters_ok (length evs) (gw_ring g1)" using depth_counters [OF 2(2) d] 2(3) by simp
  ultimately show ?case using 2(1) [OF d refl] r by blast
next
  case (3 cx due now_ns evs g)
  obtain s1 g1 where d: "dispatch_iteration cx due now_ns g = (s1, g1)" by fastforce
  from 3(4) d obtain s2 where r: "gateway_run cx evs g1 = Some (s2, g')" by (auto split: bind_splits)
  have "ring_inv (gw_ring g1)" using dispatch_accounted [OF 3(2) d] by blast
  moreover have "counters_ok (length evs) (gw_ring g1)" using dispatch_counters [OF 3(2) d] 3(3) by simp
  ultimately show ?case using 3(1) [OF d [symmetric]] r by blast
qed (auto intro: counters_order)

lemma stop_drains:
  assumes "gs_thread s" and "\<not> gw_stopping (gs_gw s)" and "ring_inv (gw_ring (gs_gw s))"
    and "read_pos (gw_ring (gs_gw s)) \<le> write_pos (gw_ring (gs_gw s))"
  shows "\<exists>s'. gateway_stop cx s = Some (concat (map (greeks_event cx (gw_module (gs_gw s))) (ring_list (gw_ring (gs_gw s)))), s') \<and>
    ring_list (gw_ring (gs_gw s')) = [] \<and> gw_option_dropped (gs_gw s') = gw_option_dropped (gs_gw s) \<and>
    pub_socket (gw_module (gs_gw s')) = None \<and> gw_stopping (gs_gw s')"
proof -
  from drain_ring_spec [OF assms(3,4), of "[]"] obtain rb where
    d: "drain_ring (gw_ring (gs_gw s)) [] = Some (ring_list (gw_ring (gs_gw s)), rb)" "ring_list rb = []" by auto
  have k: "gw_ring (gs_gw (cleanup_ctp x)) = gw_ring (gs_gw x)" "gw_option_dropped (gs_gw (cleanup_ctp x)) = gw_option_dropped (gs_gw x)"
    for x by (auto simp: cleanup_ctp_def Let_def split: prod.splits)
  from assms(1,2) d show ?thesis by (simp add: gateway_stop_def dispatch_drain_def Let_def k stop_module_def)
qed

section \<open>Properties\<close>


definition sample_depth :: depth_data where
  "sample_depth = \<lparr>d_instrument_id = ''IF'', d_exchange_id = ''CFFEX'', d_last_price = 0, d_volume = 3, d_bid_price1 = 0,
     d_bid_volume1 = 0, d_ask_price1 = 0, d_ask_volume1 = 0, d_upper_limit_price = 0, d_lower_limit_price = 0, d_open_price = 0,
     d_highest_price = 0, d_lowest_price = 0, d_pre_settlement_price = 0, d_open_interest = 0, d_turnover = 0,
     d_update_time = ''09:30:00'', d_update_millisec = 0, d_trading_day = ''20240102''\<rparr>"

definition sample_sys :: gateway_sys where
  "sample_sys = \<lparr>gs_gw = sample_gateway, gs_md = empty_side, gs_td = empty_side, gs_calls = [], gs_thread = True,
     gs_md_spi = md_spi_new, gs_td_requests = []\<rparr>"

definition sample_events :: "gateway_event list" where
  "sample_events = [GwDepth 6 7 (Some sample_depth), GwDepth 8 9 (Some (sample_depth\<lparr>d_instrument_id := ''IO''\<rparr>)), GwDispatch False 10]"


text \<open>C26: However a run of the gateway's executable goes, with libraries that are missing, lack the
  function or refuse to create their object, with or without a registration: when it is over every
  library that was opened has been closed as often, and every API object that was created has been
  released as often.\<close>

theorem ctp_resources_balanced:
  assumes "gateway_main cx ld float_int files status ack reply tevs evs args = Some (code, sent, Some s)"
  shows "opened p (gs_calls s) = closed_libs p (gs_calls s) \<and> created p (gs_calls s) = released p (gs_calls s)"
proof -
  from assms obtain cfg threw s0 where st: "gateway_start cx ld cfg ack reply tevs (gateway_sys_new cfg status) = Some (threw, s0)"
    and rest: "(if threw then do { (sent, s1) \<leftarrow> gateway_destroy cx s0; Some (2, sent, Some s1) }
       else do { (o1, g) \<leftarrow> gateway_run cx (if gs_thread s0 then evs else []) (gs_gw s0);
                 (o2, s1) \<leftarrow> gateway_stop cx (s0\<lparr>gs_gw := g\<rparr>);
                 (o3, s2) \<leftarrow> gateway_destroy cx s1;
                 Some (0, o1 @ o2 @ o3, Some s2) }) = Some (code, sent, Some s)"
    by (auto simp: gateway_main_def split: sum.splits bind_splits)
  have "balanced (gateway_sys_new cfg status)"
    by (simp add: balanced_def gateway_sys_new_def count_defs empty_side_def holds_def)
  then have k: "balanced s0" "cleaned s0" "\<not> gw_stopping (gs_gw s0)"
    using start_keeps [OF st] by (simp_all add: gateway_sys_new_def gateway_new_def)
  have "balanced s \<and> gs_md s = empty_side \<and> gs_td s = empty_side"
  proof (cases threw)
    case True
    with rest k(3) have "\<exists>sent. gateway_stop cx s0 = Some (sent, s)" by (auto simp: gateway_destroy_def split: bind_splits)
    with stop_empties k show ?thesis by blast
  next
    case False
    with rest obtain o1 g o2 s1 where r: "gateway_run cx (if gs_thread s0 then evs else []) (gs_gw s0) = Some (o1, g)"
      "gateway_stop cx (s0\<lparr>gs_gw := g\<rparr>) = Some (o2, s1)" and d: "\<exists>o3. gateway_destroy cx s1 = Some (o3, s)"
      by (auto split: bind_splits)
    have "balanced (s0\<lparr>gs_gw := g\<rparr>)" "cleaned (s0\<lparr>gs_gw := g\<rparr>)" "\<not> gw_stopping g"
      using k run_flags [OF r(1)] by (simp_all add: balanced_def cleaned_def)
    with stop_empties [OF r(2)] d show ?thesis by (auto simp: gateway_destroy_def)
  qed
  then show ?thesis by (auto simp: balanced_def)
qed

definition sample_ack :: message where
  "sample_ack = default_message\<lparr>msg_type := ACK, sender := ''engine'', event := ''registered'',
     msg_payload := [(''module_id'', AString ''ctp_gateway_1''), (''event_pub_port'', AInt 5556), (''event_sub_port'', AInt 5557)]\<rparr>"

definition sample_cx :: codec where
  "sample_cx = sample_codec [message_doc sample_base sample_ack]"

lemma sample_registers: "\<exists>m'. start_workers sample_cx (Some (serialize sample_cx sample_ack)) m = Some m' \<and> tm_registered m'"
proof -
  have "deserialize sample_cx (serialize sample_cx sample_ack) =
      Inr (sample_ack\<lparr>msg_payload := norm_entries sample_cx (msg_payload sample_ack)\<rparr>)"
    unfolding sample_cx_def by (rule deserialize_serialize) (simp_all add: sample_ack_def default_message_def wf_message_def message_type_from_str_def)
  then show ?thesis
    by (simp add: start_workers_def register_with_engine_def handle_ack_def take_ports_def sample_ack_def default_message_def
        port_value_def Let_def)
qed

lemma stop_calls: "gateway_stop cx s = Some (sent, s') \<Longrightarrow> set (gs_calls s) \<subseteq> set (gs_calls s')"
  by (auto simp: gateway_stop_def cleanup_ctp_def Let_def split: bind_splits if_splits prod.splits)

theorem ctp_resources_balanced_witness:
  "\<exists>sent s. gateway_main sample_cx sample_loader (\<lambda>_. 0) (\<lambda>_. Some (Some sample_file)) id (Some (serialize sample_cx sample_ack))
     (\<lambda>_. sample_static ''unknown product'') [] [] [''--config'', ''gateway.json''] = Some (0, sent, Some s) \<and>
     LibOpen ''/d/libthostmduserapi_se.so'' 1 \<in> set (gs_calls s) \<and> LibClose 1 \<in> set (gs_calls s)"
proof -
  let ?reply = "\<lambda>_ :: nat. sample_static ''unknown product''" and ?ack = "Some (serialize sample_cx sample_ack)"
  let ?s0 = "gateway_sys_new sample_config id"
  obtain m where m: "start_workers sample_cx ?ack (gw_module (gateway_new sample_config id)) = Some m" "tm_registered m"
    using sample_registers by blast
  obtain n g2 where r: "resolve_instruments sample_config ?reply ((gateway_new sample_config id)\<lparr>gw_started := True, gw_module := m\<rparr>) = (n, g2)"
    by fastforce
  have g2: "gw_ring g2 = ring_new zero_tick 65536" "\<not> gw_stopping g2"
    using r by (auto simp: resolve_instruments_def gateway_new_def Let_def simp del: resolve_attempts.simps)
  obtain s1 where st: "gateway_start sample_cx sample_loader sample_config ?ack ?reply [] ?s0 = Some (False, s1)"
    "LibOpen ''/d/libthostmduserapi_se.so'' 1 \<in> set (gs_calls s1)" "gs_thread s1" "gw_ring (gs_gw s1) = gw_ring g2" "\<not> gw_stopping (gs_gw s1)"
    using m r g2(2) sample_creates(1)
    by (auto simp: gateway_start_def init_ctp_def init_td_def init_md_def sample_config_def gateway_sys_new_def adopt_side_def
        dll_move_def empty_side_def api_delete_def gateway_new_def Let_def)
  have ring: "ring_inv (gw_ring (gs_gw s1))" "read_pos (gw_ring (gs_gw s1)) \<le> write_pos (gw_ring (gs_gw s1))"
    unfolding st(4) g2(1) by (simp_all add: ring_inv_new) (simp add: ring_new_def Let_def)
  from stop_drains [OF st(3,5) ring, of sample_cx] obtain sent s where
    stop: "gateway_stop sample_cx s1 = Some (sent, s)" "gw_stopping (gs_gw s)" by blast
  have main: "gateway_main sample_cx sample_loader (\<lambda>_. 0) (\<lambda>_. Some (Some sample_file)) id ?ack ?reply [] []
      [''--config'', ''gateway.json''] = Some (0, sent, Some s)"
    using st(1) stop by (simp add: gateway_main_def from_sample_file gateway_destroy_def)
  have o: "LibOpen ''/d/libthostmduserapi_se.so'' 1 \<in> set (gs_calls s)" using st(2) stop_calls [OF stop(1)] by blast
  then have "opened 1 (gs_calls s) \<noteq> 0"
    by (auto simp: opened_def filter_empty_conv intro!: bexI [of _ "LibOpen ''/d/libthostmduserapi_se.so'' 1"])
  then have "closed_libs 1 (gs_calls s) \<noteq> 0" using ctp_resources_balanced [OF main, of 1] by simp
  then have "LibClose 1 \<in> set (gs_calls s)" by (auto simp: closed_libs_def filter_empty_conv)
  with main o show ?thesis by blast
qed

end
