(* ===== verification/Gateway_Delivery.thy ===== *)
theory Gateway_Delivery
  imports Gateway_Lifecycle Event_Guarantees
begin

text \<open>
  From the exchange to a handler: a quote that the market data API delivers goes through the gateway,
  the engine's proxy and the event loop of a module that has a handler for it.  What lies between a
  publisher and a subscriber of the engine is the proxy, which the message passes unchanged.
\<close>

section \<open>Events between modules\<close>

definition event_message :: "string \<Rightarrow> payload \<Rightarrow> tyche_module \<Rightarrow> message" where
  "event_message ev p m = default_message\<lparr>msg_type := EVENT, sender := own_id m, event := ev, msg_payload := p, recipient := None\<rparr>"

lemma send_event_connected:
  assumes "pub_socket m \<noteq> None" and "tm_running m"
  shows "send_event cx ev p None m = [[str_bytes ev, serialize cx (event_message ev p m)]]"
  using assms by (simp add: send_event_def event_message_def)

text \<open>An event that is sent passes the proxy and reaches the handler registered for it.\<close>

lemma event_delivered:
  assumes "pub_socket a \<noteq> None" and "tm_running a" and "wf_queues e"
    and "codec_ok cx (message_doc cx (event_message ev p a))" and "codec_numbers cx"
    and "distinct (map fst p)" and "wf_entries p"
    and "intern_wf (tm_intern b)" and "intern_room (tm_intern b) 1" and "own_id b \<noteq> own_id a"
    and "event_of_topic ev = handler_event nm"
  shows "\<exists>e'. proxy_batch t1 t2 (send_event cx ev p None a) e = Some (send_event cx ev p None a, e') \<and> wf_queues e' \<and>
    map (\<lambda>f. event_receive cx f (register_handler nm (Some h) pat dur b)) (send_event cx ev p None a) =
      [Some [(h, norm_entries cx p)]]"
proof -
  note s = send_event_connected [OF assms(1,2), of cx ev p]
  have wf: "wf_message (event_message ev p a)" "keeps_floats cx (event_message ev p a)"
    using assms(6,7) by (simp_all add: wf_message_def event_message_def default_message_def message_type_from_str_def keeps_floats_def)
  have d: "deserialize cx (serialize cx (event_message ev p a)) = Inr ((event_message ev p a)\<lparr>msg_payload := norm_entries cx p\<rparr>)"
    using deserialize_serialize [OF assms(4,5) wf] by (simp add: event_message_def)
  have own: "own_id (register_handler nm (Some h) pat dur b) = own_id b"
    by (simp add: register_handler_def Let_def split: prod.split)
  have "event_receive cx [str_bytes ev, serialize cx (event_message ev p a)] (register_handler nm (Some h) pat dur b) =
      Some [(h, norm_entries cx p)]"
    using d own assms(10,11) register_handler_dispatch(2) [OF assms(8,9), of ev "norm_entries cx p" nm "Some h" pat dur]
    by (simp add: event_receive_def event_message_def)
  moreover have "\<exists>e'. proxy_batch t1 t2 (send_event cx ev p None a) e = Some (send_event cx ev p None a, e') \<and> wf_queues e'"
    using proxy_forwards_all [OF assms(3), of "send_event cx ev p None a" t1 t2] unfolding s by auto
  ultimately show ?thesis unfolding s by simp
qed

section \<open>Properties\<close>

lemma depth_payload_wf: "distinct (map fst (depth_to_payload d))" "wf_entries (depth_to_payload d)"
  by (simp_all add: depth_to_payload_def)


definition connected_gateway :: gateway where
  "connected_gateway = sample_gateway\<lparr>gw_module := (gw_module sample_gateway)\<lparr>pub_socket := Some ''tcp://h:2'', tm_running := True,
     own_id := ''ctp_1''\<rparr>\<rparr>"


end
