(* ===== verification/Quote_Validator.thy ===== *)
theory Quote_Validator
  imports Gateway_Quotes Engine_Main
begin

text \<open>
  The check of a quote against the one before it, \<^verbatim>\<open>src/modules/ctp_gateway_cpp/src/quote_validator.h\<close>.
  Comparing, negating and testing floating-point numbers is done on their bits, as IEEE 754 has it;
  rounded subtraction and division are the parameter \<open>fpu\<close>.
\<close>

section \<open>Floating-point numbers\<close>

record fpu =
  fp_sub :: "double_bits \<Rightarrow> double_bits \<Rightarrow> double_bits"
  fp_div :: "double_bits \<Rightarrow> double_bits \<Rightarrow> double_bits"

definition fp_magnitude :: "double_bits \<Rightarrow> nat" where
  "fp_magnitude d = unat d mod 2 ^ 63"

definition fp_negative :: "double_bits \<Rightarrow> bool" where
  "fp_negative d \<longleftrightarrow> 2 ^ 63 \<le> unat d"

definition fp_nan :: "double_bits \<Rightarrow> bool" where
  "fp_nan d \<longleftrightarrow> fp_magnitude d > 0x7FF0000000000000"

text \<open>Without the numbers that are none, the order of the values; both zeros have key 0.\<close>

definition fp_key :: "double_bits \<Rightarrow> int" where
  "fp_key d = (if fp_negative d then - int (fp_magnitude d) else int (fp_magnitude d))"

definition fp_le :: "double_bits \<Rightarrow> double_bits \<Rightarrow> bool" where
  "fp_le a b \<longleftrightarrow> \<not> fp_nan a \<and> \<not> fp_nan b \<and> fp_key a \<le> fp_key b"

definition fp_less :: "double_bits \<Rightarrow> double_bits \<Rightarrow> bool" where
  "fp_less a b \<longleftrightarrow> \<not> fp_nan a \<and> \<not> fp_nan b \<and> fp_key a < fp_key b"

definition fp_zero :: "double_bits \<Rightarrow> bool" where
  "fp_zero d \<longleftrightarrow> fp_magnitude d = 0"

definition fp_neg :: "double_bits \<Rightarrow> double_bits" where
  "fp_neg d = d + 2 ^ 63"

section \<open>Times of day\<close>

text \<open>One \<^verbatim>\<open>%d\<close> of \<^verbatim>\<open>sscanf\<close>, and the format \<^verbatim>\<open>%d:%d:%d\<close>; the arrays are too short for a number that
  does not fit an \<^verbatim>\<open>int\<close>.\<close>

definition scan_int :: "string \<Rightarrow> (int \<times> string) option" where
  "scan_int s =
     (let s1 = dropWhile is_space s;
          neg = (s1 \<noteq> [] \<and> hd s1 = CHR ''-'');
          s2 = (if s1 \<noteq> [] \<and> (hd s1 = CHR ''-'' \<or> hd s1 = CHR ''+'') then tl s1 else s1);
          ds = takeWhile is_digit s2;
          v = int (read_base 10 ds)
      in if ds = [] then None else Some (if neg then - v else v, dropWhile is_digit s2))"

definition scan_char :: "char \<Rightarrow> string \<Rightarrow> string option" where
  "scan_char c s = (case s of [] \<Rightarrow> None | x # xs \<Rightarrow> if x = c then Some xs else None)"

definition scan_time :: "string \<Rightarrow> (int \<times> int \<times> int) option" where
  "scan_time s =
     do { (h, s1) \<leftarrow> scan_int s; s2 \<leftarrow> scan_char (CHR '':'') s1;
          (m, s3) \<leftarrow> scan_int s2; s4 \<leftarrow> scan_char (CHR '':'') s3;
          (sec, _) \<leftarrow> scan_int s4; Some (h, m, sec) }"

definition day_ms :: "int \<times> int \<times> int \<Rightarrow> i32 \<Rightarrow> u64" where
  "day_ms hms millis = (case hms of (h, m, s) \<Rightarrow>
     word_of_int h * 3600000 + word_of_int m * 60000 + word_of_int s * 1000 + scast millis)"

section \<open>Validation\<close>

definition has_day :: "quote_tick \<Rightarrow> bool" where
  "has_day t \<longleftrightarrow> qt_trading_day t ! 0 \<noteq> CHR 0x00"

definition cross_day :: "quote_tick \<Rightarrow> quote_tick \<Rightarrow> bool" where
  "cross_day cur prv \<longleftrightarrow> has_day cur \<and> has_day prv \<and> c_str (qt_trading_day cur) \<noteq> c_str (qt_trading_day prv)"

definition MAX_PRICE_JUMP_RATIO :: double_bits where
  "MAX_PRICE_JUMP_RATIO = 0x3FB999999999999A"

definition is_price_within_limits :: "fpu \<Rightarrow> quote_tick \<Rightarrow> quote_tick \<Rightarrow> bool" where
  "is_price_within_limits fp cur prv =
     (if fp_le (qt_last_price prv) 0 then True
      else if fp_le (qt_lower_limit_price prv) 0 \<or> fp_le (qt_upper_limit_price prv) 0 then True
      else if fp_le (qt_last_price prv) (qt_lower_limit_price prv) \<or> fp_le (qt_upper_limit_price prv) (qt_last_price prv) then True
      else
        let price_diff = fp_sub fp (qt_last_price cur) (qt_last_price prv);
            ratio = (if fp_le 0 price_diff then fp_div fp price_diff (qt_last_price prv)
                     else fp_div fp (fp_neg price_diff) (qt_last_price prv))
        in if fp_less MAX_PRICE_JUMP_RATIO ratio
           then fp_le (qt_lower_limit_price cur) (qt_last_price cur) \<and> fp_le (qt_last_price cur) (qt_upper_limit_price cur)
           else True)"

definition is_timestamp_regression :: "quote_tick \<Rightarrow> quote_tick \<Rightarrow> bool" where
  "is_timestamp_regression cur prv =
     (if cross_day cur prv then False
      else case scan_time (c_str (qt_update_time cur)) of
        None \<Rightarrow> False
      | Some c \<Rightarrow>
          (case scan_time (c_str (qt_update_time prv)) of
             None \<Rightarrow> False
           | Some p \<Rightarrow> day_ms c (qt_update_millisec cur) < day_ms p (qt_update_millisec prv)))"

definition validate :: "fpu \<Rightarrow> quote_tick \<Rightarrow> quote_tick option \<Rightarrow> bool" where
  "validate fp cur prev =
     (case prev of
        None \<Rightarrow> True
      | Some prv \<Rightarrow>
          if fp_zero (qt_last_price prv) then True
          else if cross_day cur prv then True
          else if \<not> is_price_within_limits fp cur prv then False
          else if is_timestamp_regression cur prv then False
          else if sint (qt_volume cur) < sint (qt_volume prv) then False
          else True)"

text \<open>A stream of ticks of one instrument, each checked against the one accepted before it.\<close>

fun accepted :: "fpu \<Rightarrow> quote_tick option \<Rightarrow> quote_tick list \<Rightarrow> quote_tick list" where
  "accepted fp prev [] = []"
| "accepted fp prev (t # ts) = (if validate fp t prev then t # accepted fp (Some t) ts else accepted fp prev ts)"

section \<open>Accepted streams\<close>

definition same_day_time :: "quote_tick \<Rightarrow> u64 option" where
  "same_day_time t = map_option (\<lambda>hms. day_ms hms (qt_update_millisec t)) (scan_time (c_str (qt_update_time t)))"

lemma validate_Some:
  assumes "validate fp cur (Some prv)" and "\<not> fp_zero (qt_last_price prv)" and "\<not> cross_day cur prv"
  shows "sint (qt_volume prv) \<le> sint (qt_volume cur)"
    and "same_day_time prv = Some x \<Longrightarrow> same_day_time cur = Some y \<Longrightarrow> x \<le> y"
  using assms by (auto simp: validate_def is_timestamp_regression_def same_day_time_def split: if_splits option.splits)

definition proper_tick :: "string \<Rightarrow> quote_tick \<Rightarrow> bool" where
  "proper_tick day t \<longleftrightarrow> \<not> fp_zero (qt_last_price t) \<and> c_str (qt_trading_day t) = day \<and> same_day_time t \<noteq> None"

definition tick_le :: "quote_tick \<Rightarrow> quote_tick \<Rightarrow> bool" where
  "tick_le a b \<longleftrightarrow> sint (qt_volume a) \<le> sint (qt_volume b) \<and> the (same_day_time a) \<le> the (same_day_time b)"

lemma proper_step:
  assumes "validate fp t (Some p)" and "proper_tick day p" and "proper_tick day t"
  shows "tick_le p t"
proof -
  have "\<not> cross_day t p" using assms(2,3) by (auto simp: cross_day_def proper_tick_def)
  with validate_Some [OF assms(1)] assms(2,3) show ?thesis by (auto simp: tick_le_def proper_tick_def)
qed

lemma tick_le_trans: "tick_le a b \<Longrightarrow> tick_le b c \<Longrightarrow> tick_le a c"
  by (auto simp: tick_le_def)

lemma accepted_after:
  "\<forall>t \<in> set ts. proper_tick day t \<Longrightarrow> proper_tick day p \<Longrightarrow>
     sorted_wrt tick_le (p # accepted fp (Some p) ts)"
proof (induction ts arbitrary: p)
  case (Cons t ts)
  show ?case
  proof (cases "validate fp t (Some p)")
    case True
    then have "tick_le p t" using Cons.prems by (auto intro: proper_step)
    moreover have "sorted_wrt tick_le (t # accepted fp (Some t) ts)" using Cons by simp
    ultimately show ?thesis using True by (auto intro: tick_le_trans)
  next
    case False
    then show ?thesis using Cons by simp
  qed
qed simp

section \<open>Properties\<close>

text \<open>Of the ticks of an instrument on one trading day, with a price and a readable time, those that
  are accepted have times of day and traded volumes that never decrease.\<close>

lemma accepted_monotone:
  assumes "\<forall>t \<in> set ts. proper_tick day t"
  shows "sorted_wrt tick_le (accepted fp None ts)"
proof (cases ts)
  case (Cons t ts')
  then have "accepted fp None ts = t # accepted fp (Some t) ts'" by (simp add: validate_def)
  with accepted_after [of ts' day t fp] assms Cons show ?thesis by simp
qed simp

definition sample_tick :: "string \<Rightarrow> i32 \<Rightarrow> quote_tick" where
  "sample_tick tm vol = zero_tick\<lparr>qt_last_price := 1, qt_trading_day := copied 9 ''20240102'', qt_update_time := copied 9 tm, qt_volume := vol\<rparr>"

lemma sample_times: "scan_time ''09:30:01'' = Some (9, 30, 1)" "scan_time ''09:30:00'' = Some (9, 30, 0)"
  by code_simp+

lemma sample_tick_proper: "scan_time (take 8 (c_str tm)) \<noteq> None \<Longrightarrow> proper_tick ''20240102'' (sample_tick tm vol)"
  by (auto simp: proper_tick_def sample_tick_def fp_zero_def fp_magnitude_def same_day_time_def c_str_def [of "''20240102''"])

lemma accepted_monotone_witness:
  "sorted_wrt tick_le (accepted \<lparr>fp_sub = (-), fp_div = (div)\<rparr> None [sample_tick ''09:30:01'' 5, sample_tick ''09:30:00'' 6, sample_tick ''09:30:01'' 5])"
proof (rule accepted_monotone)
  show "\<forall>t \<in> set [sample_tick ''09:30:01'' 5, sample_tick ''09:30:00'' 6, sample_tick ''09:30:01'' 5]. proper_tick ''20240102'' t"
    using sample_times by (simp add: sample_tick_proper c_str_def)
qed

end
