(* ===== verification/Gateway_Log.thy ===== *)
theory Gateway_Log
  imports Gateway_Quotes "HOL-Library.Signed_Division"
begin

text \<open>
  The gateway's log lines, \<^verbatim>\<open>gateway_log.h\<close>: the time stamp, the prefix with the level and the stream, and
  the macros, which format into a buffer of 1024 characters.  The C library's conversion to local time is a
  parameter, and what \<^verbatim>\<open>snprintf\<close> would write into a buffer without end is an argument.
\<close>

section \<open>Definitions\<close>

text \<open>The fields as the C library has them: years from 1900, months from 0.\<close>

record tm =
  tm_year :: int
  tm_mon :: int
  tm_mday :: int
  tm_hour :: int
  tm_min :: int
  tm_sec :: int

definition tm_zero :: tm where
  "tm_zero = \<lparr>tm_year = 0, tm_mon = 0, tm_mday = 0, tm_hour = 0, tm_min = 0, tm_sec = 0\<rparr>"

definition put_time :: "tm \<Rightarrow> string" where
  "put_time t = show_int (1900 + tm_year t) @ ''-'' @ pad_left 2 (show_int (tm_mon t + 1)) @ ''-'' @ pad_left 2 (show_int (tm_mday t))
     @ ''T'' @ pad_left 2 (show_int (tm_hour t)) @ '':'' @ pad_left 2 (show_int (tm_min t)) @ '':'' @ pad_left 2 (show_int (tm_sec t))"

text \<open>\<open>now\<close> counts nanoseconds from the epoch; the conversions to seconds and milliseconds cut toward zero, and a
  conversion to local time that fails leaves the buffer as it was initialised.\<close>

definition iso8601_timestamp :: "(int \<Rightarrow> tm option) \<Rightarrow> int \<Rightarrow> string" where
  "iso8601_timestamp localtime now =
     (let ms = (now sdiv 10 ^ 6) smod 1000;
          tm_buf = (case localtime (now sdiv 10 ^ 9) of Some t \<Rightarrow> t | None \<Rightarrow> tm_zero)
      in put_time tm_buf @ ''.'' @ pad_left 3 (show_int ms))"

datatype log_level = Info | Warn | Error
datatype out_stream = Cout | Cerr

fun level_name :: "log_level \<Rightarrow> string" where
  "level_name Info = ''INFO''"
| "level_name Warn = ''WARN''"
| "level_name Error = ''ERROR''"

fun level_stream :: "log_level \<Rightarrow> out_stream" where
  "level_stream Info = Cout"
| "level_stream Warn = Cerr"
| "level_stream Error = Cerr"

definition log_line :: "(int \<Rightarrow> tm option) \<Rightarrow> int \<Rightarrow> log_level \<Rightarrow> string \<Rightarrow> out_stream \<times> string" where
  "log_line localtime now lv msg =
     (level_stream lv, ''['' @ iso8601_timestamp localtime now @ '']['' @ level_name lv @ ''][CtpGateway] '' @ msg @ [CHR 0x0A])"

text \<open>\<^verbatim>\<open>snprintf\<close> keeps what fits before the terminating zero; the string made of the buffer ends at its first zero.\<close>

definition log_buf :: "string \<Rightarrow> string" where
  "log_buf formatted = c_str (take 1023 formatted)"

definition log_macro :: "(int \<Rightarrow> tm option) \<Rightarrow> int \<Rightarrow> log_level \<Rightarrow> string \<Rightarrow> out_stream \<times> string" where
  "log_macro localtime now lv formatted = log_line localtime now lv (log_buf formatted)"

section \<open>Decimal fields\<close>

definition dec :: "char \<Rightarrow> bool" where
  "dec c \<longleftrightarrow> 48 \<le> (of_char c :: nat) \<and> (of_char c :: nat) \<le> 57"

definition shape :: "string \<Rightarrow> string" where
  "shape s = map (\<lambda>c. if dec c then CHR ''d'' else c) s"

lemma shape_append [simp]: "shape (s @ t) = shape s @ shape t"
  by (simp add: shape_def)

lemma shape_Cons [simp]: "shape (c # s) = (if dec c then CHR ''d'' else c) # shape s"
  by (simp add: shape_def)

lemma dec_show_base: "list_all dec (show_base 10 n)"
proof (induction "10 :: nat" n rule: show_base.induct)
  case (1 n)
  have "dec (digit_char d)" if "d < 10" for d using that by (simp add: dec_def digit_char_def)
  with 1 show ?case by (subst show_base.simps) simp
qed

lemma length_show_base_le: "n < 10 ^ Suc k \<Longrightarrow> length (show_base 10 n) \<le> Suc k"
proof (induction k arbitrary: n)
  case 0
  then show ?case by (subst show_base.simps) simp
next
  case (Suc k)
  then have "n div 10 < 10 ^ Suc k" by (simp add: less_mult_imp_div_less)
  from Suc.IH [OF this] show ?case by (subst show_base.simps) simp
qed

lemma length_show_base_ge: "10 ^ k \<le> n \<Longrightarrow> Suc k \<le> length (show_base 10 n)"
proof (induction k arbitrary: n)
  case 0
  then show ?case by (subst show_base.simps) simp
next
  case (Suc k)
  have "(10 :: nat) \<le> 10 ^ Suc k" by simp
  with Suc.prems have big: "\<not> n < 10" by linarith
  from Suc.prems have "10 ^ k \<le> n div 10" by (simp add: less_eq_div_iff_mult_less_eq)
  from Suc.IH [OF this] big show ?case by (subst show_base.simps) simp
qed

lemma shape_dec: "list_all dec s \<Longrightarrow> shape s = replicate (length s) (CHR ''d'')"
  by (induction s) (simp_all add: shape_def)

lemma shape_field:
  assumes "0 \<le> i" "i < 10 ^ Suc k"
  shows "shape (pad_left (Suc k) (show_int i)) = replicate (Suc k) (CHR ''d'')"
proof -
  have "nat i < 10 ^ Suc k" using assms by (simp add: nat_less_iff)
  from length_show_base_le [OF this] have "length (show_base 10 (nat i)) \<le> Suc k" .
  moreover have "list_all dec (pad_left (Suc k) (show_base 10 (nat i)))"
    by (simp add: pad_left_def dec_show_base) (simp add: list_all_iff dec_def)
  ultimately show ?thesis
    using assms(1) shape_dec [of "pad_left (Suc k) (show_base 10 (nat i))"]
    by (simp add: show_int_def show_nat_def pad_left_def del: replicate_Suc)
qed

lemma shape_year:
  assumes "1000 \<le> i" "i < 10000"
  shows "shape (show_int i) = replicate 4 (CHR ''d'')"
proof -
  have "length (show_base 10 (nat i)) = 4"
    using length_show_base_le [of "nat i" 3] length_show_base_ge [of 3 "nat i"] assms by (simp add: nat_less_iff le_nat_iff)
  with shape_field [of i 3] assms show ?thesis by (simp add: show_int_def show_nat_def pad_left_def)
qed

section \<open>The lines can be read back\<close>

text \<open>The ranges that the C library documents for the fields, a leap second included, in years of four digits.\<close>

definition tm_ok :: "tm \<Rightarrow> bool" where
  "tm_ok t \<longleftrightarrow> 1000 \<le> 1900 + tm_year t \<and> 1900 + tm_year t \<le> 9999 \<and> 0 \<le> tm_mon t \<and> tm_mon t \<le> 11 \<and> 1 \<le> tm_mday t \<and> tm_mday t \<le> 31
     \<and> 0 \<le> tm_hour t \<and> tm_hour t \<le> 23 \<and> 0 \<le> tm_min t \<and> tm_min t \<le> 59 \<and> 0 \<le> tm_sec t \<and> tm_sec t \<le> 60"

lemma timestamp_shape:
  assumes "0 \<le> now" "localtime (now div 10 ^ 9) = Some t" "tm_ok t"
  shows "shape (iso8601_timestamp localtime now) = ''dddd-dd-ddTdd:dd:dd.ddd''"
proof -
  have "(now sdiv 10 ^ 6) smod 1000 = (now div 10 ^ 6) mod 1000" "now sdiv 10 ^ 9 = now div 10 ^ 9"
    using assms(1) by (simp_all add: signed_divide_int_def signed_modulo_int_def sgn_if pos_imp_zdiv_nonneg_iff minus_div_mult_eq_mod)
  moreover have "shape (show_int (1900 + tm_year t)) = ''dddd''"
    using assms(3) shape_year [of "1900 + tm_year t"] by (simp add: tm_ok_def eval_nat_numeral)
  moreover have "shape (pad_left 2 (show_int i)) = ''dd''" if "0 \<le> i" "i < 100" for i
    using shape_field [of i 1] that by (simp add: numeral_2_eq_2)
  moreover have "shape (pad_left 3 (show_int ((now div 10 ^ 6) mod 1000))) = ''ddd''"
    using shape_field [of "(now div 10 ^ 6) mod 1000" 2] by (simp add: eval_nat_numeral)
  ultimately show ?thesis using assms(2,3) by (simp add: iso8601_timestamp_def put_time_def tm_ok_def dec_def)
qed

fun name_level :: "string \<Rightarrow> log_level option" where
  "name_level s = (if s = ''INFO'' then Some Info else if s = ''WARN'' then Some Warn else if s = ''ERROR'' then Some Error else None)"

definition parse_line :: "string \<Rightarrow> (string \<times> log_level \<times> string) option" where
  "parse_line l =
     (let ts = take 23 (drop 1 l); r = drop 26 l; nm = takeWhile (\<lambda>c. c \<noteq> CHR '']'') r
      in case name_level nm of None \<Rightarrow> None | Some lv \<Rightarrow> Some (ts, lv, butlast (drop (length nm + 14) r)))"

text \<open>Every line has the form that the tests match, and its time, level and message can be read back; the
  message is what was formatted, as far as it fits the buffer.\<close>

lemma log_parses:
  assumes "0 \<le> now" "localtime (now div 10 ^ 9) = Some t" "tm_ok t"
  shows "parse_line (snd (log_macro localtime now lv formatted)) = Some (iso8601_timestamp localtime now, lv, log_buf formatted)"
proof -
  have "length (shape (iso8601_timestamp localtime now)) = 23" by (simp add: timestamp_shape [of now localtime t, OF assms])
  then have len: "length (iso8601_timestamp localtime now) = 23" by (simp add: shape_def)
  show ?thesis by (cases lv) (simp_all add: log_macro_def log_line_def parse_line_def len Let_def)
qed

definition sample_tm :: tm where
  "sample_tm = \<lparr>tm_year = 124, tm_mon = 1, tm_mday = 29, tm_hour = 9, tm_min = 5, tm_sec = 7\<rparr>"

lemma log_parses_witness:
  "parse_line (snd (log_macro (\<lambda>_. Some sample_tm) 1709197507042000000 Warn ''queue full'')) =
     Some (iso8601_timestamp (\<lambda>_. Some sample_tm) 1709197507042000000, Warn, ''queue full'')"
  using log_parses [of 1709197507042000000 "\<lambda>_. Some sample_tm" sample_tm Warn "''queue full''"]
  by (simp add: sample_tm_def tm_ok_def log_buf_def c_str_def)

text \<open>A message that fits and has no line break makes one line.\<close>

lemma log_one_line:
  assumes "0 \<le> now" "localtime (now div 10 ^ 9) = Some t" "tm_ok t" "length formatted < 1024" "CHR 0x00 \<notin> set formatted"
    and "CHR 0x0A \<notin> set formatted"
  shows "\<exists>l. snd (log_macro localtime now lv formatted) = l @ [CHR 0x0A] \<and> CHR 0x0A \<notin> set l \<and> suffix formatted l"
proof -
  let ?ts = "iso8601_timestamp localtime now"
  have "CHR 0x0A \<notin> set (shape ?ts)" by (simp add: timestamp_shape [of now localtime t, OF assms(1-3)])
  then have "CHR 0x0A \<notin> set ?ts" by (auto simp: shape_def dec_def)
  moreover have "c_str formatted = formatted" using c_str_pad [OF assms(5), of 0] by simp
  then have "log_buf formatted = formatted" using assms(4) by (simp add: log_buf_def)
  moreover have "CHR 0x0A \<notin> set (level_name lv)" by (cases lv) simp_all
  ultimately show ?thesis using assms(6)
    by (intro exI [of _ "''['' @ ?ts @ '']['' @ level_name lv @ ''][CtpGateway] '' @ formatted"])
       (simp add: log_macro_def log_line_def suffix_def)
qed

end
