(* ===== verification/Gateway_Mock.thy ===== *)
theory Gateway_Mock
  imports Gateway_Quotes
begin

text \<open>
  The test doubles of the CTP interfaces, \<^verbatim>\<open>mock_ctp_api.h\<close>: \<^verbatim>\<open>MockMdApi\<close> and \<^verbatim>\<open>MockTdApi\<close>.  A member function
  returns the new state and the callbacks that it makes, each with the object it goes to; in every member
  function the callback comes after the changes of the state, and what it returns is read when it is back.
\<close>

section \<open>The market data double\<close>

record call_record =
  cr_method :: string
  cr_front_address :: string
  cr_instruments :: "string list"
  cr_request_id :: i32

definition call_record_new :: call_record where
  "call_record_new = \<lparr>cr_method = [], cr_front_address = [], cr_instruments = [], cr_request_id = 0\<rparr>"

record login_field =
  lf_trading_day :: string
  lf_broker_id :: string
  lf_user_id :: string

record 's mock_md_api =
  mm_calls :: "call_record list"
  mm_last_call :: call_record
  mm_spi :: "'s option"
  mm_auto_connect_on_init :: bool
  mm_auto_login_success :: bool
  mm_subscribe_return_value :: i32
  mm_req_user_login_return_value :: i32

definition mock_md_new :: "'s mock_md_api" where
  "mock_md_new = \<lparr>mm_calls = [], mm_last_call = call_record_new, mm_spi = None, mm_auto_connect_on_init = False,
     mm_auto_login_success = False, mm_subscribe_return_value = 0, mm_req_user_login_return_value = 0\<rparr>"

text \<open>The callbacks; a login response has the fields, the error code, the request and whether it is the last.\<close>

datatype 'd mock_callback = OnFrontConnected | OnRspAuthenticate i32 i32 bool | OnRspUserLogin login_field i32 i32 bool
  | OnRtnDepthMarketData 'd

definition to_spi :: "'s option \<Rightarrow> 'd mock_callback \<Rightarrow> ('s \<times> 'd mock_callback) list" where
  "to_spi spi cb = (case spi of Some s \<Rightarrow> [(s, cb)] | None \<Rightarrow> [])"

definition login_response :: "login_field option \<Rightarrow> login_field" where
  "login_response req =
     (case req of Some r \<Rightarrow> \<lparr>lf_trading_day = copied 9 (lf_trading_day r), lf_broker_id = copied 11 (lf_broker_id r),
                             lf_user_id = copied 16 (lf_user_id r)\<rparr>
      | None \<Rightarrow> \<lparr>lf_trading_day = replicate 9 (CHR 0x00), lf_broker_id = replicate 11 (CHR 0x00),
                 lf_user_id = replicate 16 (CHR 0x00)\<rparr>)"

definition simulate_login_response :: "'s option \<Rightarrow> login_field option \<Rightarrow> i32 \<Rightarrow> ('s \<times> 'd mock_callback) list" where
  "simulate_login_response spi req request_id = to_spi spi (OnRspUserLogin (login_response req) 0 request_id True)"

datatype ('s, 'd) mock_md_op =
    MdRegisterFront "string option" | MdRegisterSpi "'s option" | MdInit | MdJoin | MdRelease
  | MdSubscribeMarketData "string option list" | MdReqUserLogout i32 | MdReqUserLogin "login_field option" i32
  | MdSetAutoConnectOnInit bool | MdSetAutoLoginSuccess bool | MdSetSubscribeReturn i32 | MdSetLoginReturn i32
  | MdClearCalls | MdSimulateFrontConnected | MdSimulateLoginResponse "login_field option" i32 | MdSimulateDepth 'd

text \<open>Every call of the interface is written over the last record, and the result is appended to the list.\<close>

definition md_record :: "(call_record \<Rightarrow> call_record) \<Rightarrow> string \<Rightarrow> 's mock_md_api \<Rightarrow> 's mock_md_api" where
  "md_record f method m = (let r = f ((mm_last_call m)\<lparr>cr_method := method\<rparr>) in m\<lparr>mm_last_call := r, mm_calls := mm_calls m @ [r]\<rparr>)"

fun mock_md_do :: "('s, 'd) mock_md_op \<Rightarrow> 's mock_md_api \<Rightarrow> ('s \<times> 'd mock_callback) list \<times> 's mock_md_api" where
  "mock_md_do (MdRegisterFront address) m =
     ([], md_record (cr_front_address_update (\<lambda>_. case address of Some a \<Rightarrow> c_str a | None \<Rightarrow> [])) ''RegisterFront'' m)"
| "mock_md_do (MdRegisterSpi spi) m = ([], md_record id ''RegisterSpi'' (m\<lparr>mm_spi := spi\<rparr>))"
| "mock_md_do MdInit m = (if mm_auto_connect_on_init m then to_spi (mm_spi m) OnFrontConnected else [], md_record id ''Init'' m)"
| "mock_md_do MdJoin m = ([], md_record id ''Join'' m)"
| "mock_md_do MdRelease m = ([], md_record id ''Release'' m)"
| "mock_md_do (MdSubscribeMarketData ids) m =
     ([], md_record (cr_instruments_update (\<lambda>_. map c_str (List.map_filter id ids))) ''SubscribeMarketData'' m)"
| "mock_md_do (MdReqUserLogout rid) m = ([], md_record (cr_request_id_update (\<lambda>_. rid)) ''ReqUserLogout'' m)"
| "mock_md_do (MdReqUserLogin req rid) m =
     (if mm_auto_login_success m \<and> mm_spi m \<noteq> None \<and> req \<noteq> None then simulate_login_response (mm_spi m) req rid else [],
      md_record (cr_request_id_update (\<lambda>_. rid)) ''ReqUserLogin'' m)"
| "mock_md_do (MdSetAutoConnectOnInit v) m = ([], m\<lparr>mm_auto_connect_on_init := v\<rparr>)"
| "mock_md_do (MdSetAutoLoginSuccess v) m = ([], m\<lparr>mm_auto_login_success := v\<rparr>)"
| "mock_md_do (MdSetSubscribeReturn v) m = ([], m\<lparr>mm_subscribe_return_value := v\<rparr>)"
| "mock_md_do (MdSetLoginReturn v) m = ([], m\<lparr>mm_req_user_login_return_value := v\<rparr>)"
| "mock_md_do MdClearCalls m = ([], m\<lparr>mm_calls := []\<rparr>)"
| "mock_md_do MdSimulateFrontConnected m = (to_spi (mm_spi m) OnFrontConnected, m)"
| "mock_md_do (MdSimulateLoginResponse req rid) m = (simulate_login_response (mm_spi m) req rid, m)"
| "mock_md_do (MdSimulateDepth d) m = (to_spi (mm_spi m) (OnRtnDepthMarketData d), m)"

text \<open>What the functions with a result return, in the state at their return.\<close>

fun mock_md_returns :: "('s, 'd) mock_md_op \<Rightarrow> 's mock_md_api \<Rightarrow> i32 option" where
  "mock_md_returns MdJoin m = Some 0"
| "mock_md_returns (MdSubscribeMarketData ids) m = Some (mm_subscribe_return_value m)"
| "mock_md_returns (MdReqUserLogout rid) m = Some 0"
| "mock_md_returns (MdReqUserLogin req rid) m = Some (mm_req_user_login_return_value m)"
| "mock_md_returns _ m = None"

fun mock_md_run :: "('s, 'd) mock_md_op list \<Rightarrow> 's mock_md_api \<Rightarrow> ('s \<times> 'd mock_callback) list \<times> 's mock_md_api" where
  "mock_md_run [] m = ([], m)"
| "mock_md_run (a # as) m = (let (cbs, m1) = mock_md_do a m; (cbs', m2) = mock_md_run as m1 in (cbs @ cbs', m2))"

section \<open>The trading double\<close>

text \<open>Its records have no instruments.\<close>

record 's mock_td_api =
  mt_calls :: "call_record list"
  mt_last_call :: call_record
  mt_spi :: "'s option"
  mt_auto_connect_on_init :: bool
  mt_auto_auth_success :: bool
  mt_auto_login_success :: bool
  mt_req_authenticate_return_value :: i32
  mt_req_user_login_return_value :: i32

definition mock_td_new :: "'s mock_td_api" where
  "mock_td_new = \<lparr>mt_calls = [], mt_last_call = call_record_new, mt_spi = None, mt_auto_connect_on_init = False,
     mt_auto_auth_success = False, mt_auto_login_success = False, mt_req_authenticate_return_value = 0,
     mt_req_user_login_return_value = 0\<rparr>"

datatype 's mock_td_op =
    TdRegisterFront "string option" | TdRegisterSpi "'s option" | TdInit | TdJoin | TdRelease
  | TdSubscribePublicTopic i32 | TdSubscribePrivateTopic i32 | TdReqUserLogout i32
  | TdReqAuthenticate bool i32 | TdReqUserLogin "login_field option" i32
  | TdSetAutoConnectOnInit bool | TdSetAutoAuthSuccess bool | TdSetAutoLoginSuccess bool | TdSetAuthReturn i32 | TdSetLoginReturn i32
  | TdClearCalls | TdSimulateFrontConnected | TdSimulateAuthResponse i32 | TdSimulateLoginResponse "login_field option" i32

definition td_record :: "(call_record \<Rightarrow> call_record) \<Rightarrow> string \<Rightarrow> 's mock_td_api \<Rightarrow> 's mock_td_api" where
  "td_record f method m = (let r = f ((mt_last_call m)\<lparr>cr_method := method\<rparr>) in m\<lparr>mt_last_call := r, mt_calls := mt_calls m @ [r]\<rparr>)"

text \<open>Of an authentication request only whether there is one matters.\<close>

fun mock_td_do :: "'s mock_td_op \<Rightarrow> 's mock_td_api \<Rightarrow> ('s \<times> unit mock_callback) list \<times> 's mock_td_api" where
  "mock_td_do (TdRegisterFront address) m =
     ([], td_record (cr_front_address_update (\<lambda>_. case address of Some a \<Rightarrow> c_str a | None \<Rightarrow> [])) ''RegisterFront'' m)"
| "mock_td_do (TdRegisterSpi spi) m = ([], td_record id ''RegisterSpi'' (m\<lparr>mt_spi := spi\<rparr>))"
| "mock_td_do TdInit m = (if mt_auto_connect_on_init m then to_spi (mt_spi m) OnFrontConnected else [], td_record id ''Init'' m)"
| "mock_td_do TdJoin m = ([], td_record id ''Join'' m)"
| "mock_td_do TdRelease m = ([], td_record id ''Release'' m)"
| "mock_td_do (TdSubscribePublicTopic resume) m = ([], td_record id ''SubscribePublicTopic'' m)"
| "mock_td_do (TdSubscribePrivateTopic resume) m = ([], td_record id ''SubscribePrivateTopic'' m)"
| "mock_td_do (TdReqUserLogout rid) m = ([], td_record (cr_request_id_update (\<lambda>_. rid)) ''ReqUserLogout'' m)"
| "mock_td_do (TdReqAuthenticate field rid) m =
     (if mt_auto_auth_success m \<and> mt_spi m \<noteq> None \<and> field then to_spi (mt_spi m) (OnRspAuthenticate 0 rid True) else [],
      td_record (cr_request_id_update (\<lambda>_. rid)) ''ReqAuthenticate'' m)"
| "mock_td_do (TdReqUserLogin req rid) m =
     (if mt_auto_login_success m \<and> mt_spi m \<noteq> None \<and> req \<noteq> None then simulate_login_response (mt_spi m) req rid else [],
      td_record (cr_request_id_update (\<lambda>_. rid)) ''ReqUserLogin'' m)"
| "mock_td_do (TdSetAutoConnectOnInit v) m = ([], m\<lparr>mt_auto_connect_on_init := v\<rparr>)"
| "mock_td_do (TdSetAutoAuthSuccess v) m = ([], m\<lparr>mt_auto_auth_success := v\<rparr>)"
| "mock_td_do (TdSetAutoLoginSuccess v) m = ([], m\<lparr>mt_auto_login_success := v\<rparr>)"
| "mock_td_do (TdSetAuthReturn v) m = ([], m\<lparr>mt_req_authenticate_return_value := v\<rparr>)"
| "mock_td_do (TdSetLoginReturn v) m = ([], m\<lparr>mt_req_user_login_return_value := v\<rparr>)"
| "mock_td_do TdClearCalls m = ([], m\<lparr>mt_calls := []\<rparr>)"
| "mock_td_do TdSimulateFrontConnected m = (to_spi (mt_spi m) OnFrontConnected, m)"
| "mock_td_do (TdSimulateAuthResponse rid) m = (to_spi (mt_spi m) (OnRspAuthenticate 0 rid True), m)"
| "mock_td_do (TdSimulateLoginResponse req rid) m = (simulate_login_response (mt_spi m) req rid, m)"

fun mock_td_returns :: "'s mock_td_op \<Rightarrow> 's mock_td_api \<Rightarrow> i32 option" where
  "mock_td_returns TdJoin m = Some 0"
| "mock_td_returns (TdReqUserLogout rid) m = Some 0"
| "mock_td_returns (TdReqAuthenticate field rid) m = Some (mt_req_authenticate_return_value m)"
| "mock_td_returns (TdReqUserLogin req rid) m = Some (mt_req_user_login_return_value m)"
| "mock_td_returns _ m = None"

fun mock_td_run :: "'s mock_td_op list \<Rightarrow> 's mock_td_api \<Rightarrow> ('s \<times> unit mock_callback) list \<times> 's mock_td_api" where
  "mock_td_run [] m = ([], m)"
| "mock_td_run (a # as) m = (let (cbs, m1) = mock_td_do a m; (cbs', m2) = mock_td_run as m1 in (cbs @ cbs', m2))"

section \<open>What is recorded and who is called\<close>

text \<open>A recorder: calls made of edits of the last record, and the list they leave.  Both doubles are one.\<close>

locale recorder =
  fixes step :: "'op \<Rightarrow> 'm \<Rightarrow> 'cb list \<times> 'm" and calls :: "'m \<Rightarrow> call_record list" and last_call :: "'m \<Rightarrow> call_record"
    and edit :: "'op \<Rightarrow> (call_record \<Rightarrow> call_record) option" and clears :: "'op \<Rightarrow> bool"
    and name :: "'op \<Rightarrow> string"
    and run :: "'op list \<Rightarrow> 'm \<Rightarrow> 'cb list \<times> 'm"
  assumes recorded: "\<not> clears a \<Longrightarrow> edit a = Some f \<Longrightarrow> calls (snd (step a m)) = calls m @ [f (last_call m)] \<and> last_call (snd (step a m)) = f (last_call m)"
    and silent: "\<not> clears a \<Longrightarrow> edit a = None \<Longrightarrow> calls (snd (step a m)) = calls m \<and> last_call (snd (step a m)) = last_call m"
    and cleared: "clears a \<Longrightarrow> calls (snd (step a m)) = [] \<and> last_call (snd (step a m)) = last_call m"
    and named: "edit a = Some f \<Longrightarrow> cr_method (f r) = name a"
    and run_Nil: "run [] m = ([], m)"
    and run_Cons: "run (a # as) m = (fst (step a m) @ fst (run as (snd (step a m))), snd (run as (snd (step a m))))"
begin

definition edits :: "'op list \<Rightarrow> (call_record \<Rightarrow> call_record) list" where
  "edits as = List.map_filter edit as"

text \<open>A run without a clearing appends one record per call of the interface, each the one before with its edit.\<close>

lemma run_records:
  "list_all (\<lambda>a. \<not> clears a) as \<Longrightarrow>
     calls (snd (run as m)) = calls m @ map (\<lambda>n. fold id (take (Suc n) (edits as)) (last_call m)) [0..<length (edits as)] \<and>
     last_call (snd (run as m)) = fold id (edits as) (last_call m)"
proof (induction as arbitrary: m)
  case (Cons a as)
  show ?case
  proof (cases "edit a")
    case (Some f)
    then have "edits (a # as) = f # edits as" by (simp add: edits_def List.map_filter_simps)
    with Cons recorded [OF _ Some] show ?thesis
      by (simp add: run_Cons map_upt_Suc del: upt_Suc)
  next
    case None
    then have "edits (a # as) = edits as" by (simp add: edits_def List.map_filter_simps)
    with Cons silent [OF _ None] show ?thesis by (simp add: run_Cons)
  qed
qed (simp add: run_Nil edits_def List.map_filter_simps)

lemma run_methods:
  "list_all (\<lambda>a. \<not> clears a) as \<Longrightarrow>
     map cr_method (calls (snd (run as m))) = map cr_method (calls m) @ map name (filter (\<lambda>a. edit a \<noteq> None) as)"
proof (induction as arbitrary: m)
  case (Cons a as)
  then show ?case
    by (cases "edit a") (simp_all add: run_Cons silent recorded named)
qed (simp add: run_Nil)

end

fun md_method :: "('s, 'd) mock_md_op \<Rightarrow> string" where
  "md_method (MdRegisterFront _) = ''RegisterFront''"
| "md_method (MdRegisterSpi _) = ''RegisterSpi''"
| "md_method MdInit = ''Init''"
| "md_method MdJoin = ''Join''"
| "md_method MdRelease = ''Release''"
| "md_method (MdSubscribeMarketData _) = ''SubscribeMarketData''"
| "md_method (MdReqUserLogout _) = ''ReqUserLogout''"
| "md_method (MdReqUserLogin _ _) = ''ReqUserLogin''"
| "md_method _ = []"

fun md_fields :: "('s, 'd) mock_md_op \<Rightarrow> call_record \<Rightarrow> call_record" where
  "md_fields (MdRegisterFront address) r = r\<lparr>cr_front_address := (case address of Some a \<Rightarrow> c_str a | None \<Rightarrow> [])\<rparr>"
| "md_fields (MdSubscribeMarketData ids) r = r\<lparr>cr_instruments := map c_str (List.map_filter id ids)\<rparr>"
| "md_fields (MdReqUserLogout rid) r = r\<lparr>cr_request_id := rid\<rparr>"
| "md_fields (MdReqUserLogin req rid) r = r\<lparr>cr_request_id := rid\<rparr>"
| "md_fields _ r = r"

definition md_edit :: "('s, 'd) mock_md_op \<Rightarrow> (call_record \<Rightarrow> call_record) option" where
  "md_edit a = (if md_method a = [] then None else Some (\<lambda>r. md_fields a (r\<lparr>cr_method := md_method a\<rparr>)))"

interpretation mock_md: recorder mock_md_do mm_calls mm_last_call md_edit "\<lambda>a. a = MdClearCalls" md_method mock_md_run
proof
  fix a :: "('a, 'b) mock_md_op" and m :: "'a mock_md_api" and f r
  show "a \<noteq> MdClearCalls \<Longrightarrow> md_edit a = Some f \<Longrightarrow>
      mm_calls (snd (mock_md_do a m)) = mm_calls m @ [f (mm_last_call m)] \<and> mm_last_call (snd (mock_md_do a m)) = f (mm_last_call m)"
    by (cases a) (auto simp: md_edit_def md_record_def Let_def)
  show "a \<noteq> MdClearCalls \<Longrightarrow> md_edit a = None \<Longrightarrow>
      mm_calls (snd (mock_md_do a m)) = mm_calls m \<and> mm_last_call (snd (mock_md_do a m)) = mm_last_call m"
    by (cases a) (auto simp: md_edit_def)
  show "md_edit a = Some f \<Longrightarrow> cr_method (f r) = md_method a"
    by (cases a) (auto simp: md_edit_def)
qed (auto simp: case_prod_beta Let_def)

fun td_method :: "'s mock_td_op \<Rightarrow> string" where
  "td_method (TdRegisterFront _) = ''RegisterFront''"
| "td_method (TdRegisterSpi _) = ''RegisterSpi''"
| "td_method TdInit = ''Init''"
| "td_method TdJoin = ''Join''"
| "td_method TdRelease = ''Release''"
| "td_method (TdSubscribePublicTopic _) = ''SubscribePublicTopic''"
| "td_method (TdSubscribePrivateTopic _) = ''SubscribePrivateTopic''"
| "td_method (TdReqUserLogout _) = ''ReqUserLogout''"
| "td_method (TdReqAuthenticate _ _) = ''ReqAuthenticate''"
| "td_method (TdReqUserLogin _ _) = ''ReqUserLogin''"
| "td_method _ = []"

fun td_fields :: "'s mock_td_op \<Rightarrow> call_record \<Rightarrow> call_record" where
  "td_fields (TdRegisterFront address) r = r\<lparr>cr_front_address := (case address of Some a \<Rightarrow> c_str a | None \<Rightarrow> [])\<rparr>"
| "td_fields (TdReqUserLogout rid) r = r\<lparr>cr_request_id := rid\<rparr>"
| "td_fields (TdReqAuthenticate field rid) r = r\<lparr>cr_request_id := rid\<rparr>"
| "td_fields (TdReqUserLogin req rid) r = r\<lparr>cr_request_id := rid\<rparr>"
| "td_fields _ r = r"

definition td_edit :: "'s mock_td_op \<Rightarrow> (call_record \<Rightarrow> call_record) option" where
  "td_edit a = (if td_method a = [] then None else Some (\<lambda>r. td_fields a (r\<lparr>cr_method := td_method a\<rparr>)))"

interpretation mock_td: recorder mock_td_do mt_calls mt_last_call td_edit "\<lambda>a. a = TdClearCalls" td_method mock_td_run
proof
  fix a :: "'a mock_td_op" and m :: "'a mock_td_api" and f r
  show "a \<noteq> TdClearCalls \<Longrightarrow> td_edit a = Some f \<Longrightarrow>
      mt_calls (snd (mock_td_do a m)) = mt_calls m @ [f (mt_last_call m)] \<and> mt_last_call (snd (mock_td_do a m)) = f (mt_last_call m)"
    by (cases a) (auto simp: td_edit_def td_record_def Let_def)
  show "a \<noteq> TdClearCalls \<Longrightarrow> td_edit a = None \<Longrightarrow>
      mt_calls (snd (mock_td_do a m)) = mt_calls m \<and> mt_last_call (snd (mock_td_do a m)) = mt_last_call m"
    by (cases a) (auto simp: td_edit_def)
  show "td_edit a = Some f \<Longrightarrow> cr_method (f r) = td_method a"
    by (cases a) (auto simp: td_edit_def)
qed (auto simp: case_prod_beta Let_def)

text \<open>Nothing the doubles are asked is missing from the record, and nothing else is in it.\<close>

lemma mock_md_records_calls:
  "list_all (\<lambda>a. a \<noteq> MdClearCalls) as \<Longrightarrow>
     map cr_method (mm_calls (snd (mock_md_run as mock_md_new))) = map md_method (filter (\<lambda>a. md_edit a \<noteq> None) as)"
  using mock_md.run_methods [of as mock_md_new] by (simp add: mock_md_new_def)

lemma mock_td_records_calls:
  "list_all (\<lambda>a. a \<noteq> TdClearCalls) as \<Longrightarrow>
     map cr_method (mt_calls (snd (mock_td_run as mock_td_new))) = map td_method (filter (\<lambda>a. td_edit a \<noteq> None) as)"
  using mock_td.run_methods [of as mock_td_new] by (simp add: mock_td_new_def)

text \<open>But a record keeps the arguments of earlier calls: the address stays in the record of a release, which has none.\<close>

lemma mock_md_record_stale:
  "map (\<lambda>r. (cr_method r, cr_front_address r))
     (mm_calls (snd (mock_md_run [MdRegisterFront (Some ''tcp://a''), MdRelease :: (nat, nat) mock_md_op] mock_md_new))) =
   [(''RegisterFront'', ''tcp://a''), (''Release'', ''tcp://a'')]"
  by (simp add: mock_md_new_def call_record_new_def md_record_def c_str_def Let_def)

text \<open>Callbacks go to the object registered last, and there are none without one.\<close>

lemma mock_md_callbacks: "(s, cb) \<in> set (fst (mock_md_do a m)) \<Longrightarrow> mm_spi m = Some s \<and> mm_spi (snd (mock_md_do a m)) = Some s"
  by (cases a) (auto simp: to_spi_def simulate_login_response_def md_record_def Let_def split: if_splits option.splits)

lemma mock_td_callbacks: "(s, cb) \<in> set (fst (mock_td_do a m)) \<Longrightarrow> mt_spi m = Some s \<and> mt_spi (snd (mock_td_do a m)) = Some s"
  by (cases a) (auto simp: to_spi_def simulate_login_response_def td_record_def Let_def split: if_splits option.splits)

text \<open>The response has the request's fields as long as they fit the vendored fields.\<close>

lemma c_str_whole: "CHR 0x00 \<notin> set s \<Longrightarrow> c_str s = s"
  using c_str_pad [of s 0] by simp

lemma mock_login_echoes:
  assumes "mm_auto_login_success m" "mm_spi m = Some s"
    and "CHR 0x00 \<notin> set (lf_broker_id r)" "length (lf_broker_id r) < 11" "CHR 0x00 \<notin> set (lf_user_id r)" "length (lf_user_id r) < 16"
  shows "\<exists>l. fst (mock_md_do (MdReqUserLogin (Some r) rid) m) = [(s, OnRspUserLogin l 0 rid True)] \<and>
     c_str (lf_broker_id l) = lf_broker_id r \<and> c_str (lf_user_id l) = lf_user_id r"
  using assms by (simp add: simulate_login_response_def to_spi_def login_response_def c_str_whole)

end
