(* ===== verification/Spec2Isabelle.thy ===== *)
theory Spec2Isabelle
  imports Engine_Runs Engine_Main Engine_Lifecycle Ring_Race Shm_Lifetime Object_Pool Rcu_Snapshot Fast_Clock Dynamic_Library
    Gateway_Delivery Quote_Validator Gateway_Log Gateway_Mock
begin

text \<open>
  \<^bold>\<open>Tyche Engine: a verification library of the C++ core.\<close>

  Tyche is a message broker for trading modules.  A central \<^emph>\<open>engine\<close> registers modules, forwards
  their events through one bounded queue per topic, routes job requests to handlers with retries and
  timeouts, watches heartbeats and stores what it cannot deliver.  \<^emph>\<open>Modules\<close> are the engine's clients; the
  \<^emph>\<open>CTP gateway\<close> is a module that brings the quotes of the Chinese futures exchanges in.  Paths below are
  relative to \<^verbatim>\<open>src/src/\<close>.

  \<^bold>\<open>How the code is modelled.\<close>  A struct or class is a record with the names of its members, an enum a
  datatype, a machine integer a word (\<open>i32\<close>, \<open>u64\<close>, ...; floating-point values are their bits), a
  character string a list of characters, a byte string a list of bytes, an unordered map an association
  list in which keys are looked up first match first.  An operation takes the state and gives the new
  one.  \<open>None\<close> is a null or an absent value, undefined behaviour or a loop that does not end, and each
  definition says which; an exception is \<open>Inl\<close> of an error.  Loops that may run for ever are
  \<^theory_text>\<open>partial_function\<close>s whose return is proved, never assumed.  Sockets are what is received, an argument,
  and what is sent, a list of messages.  Clocks and random numbers are arguments.  Worker threads are the
  iterations of their loops, which interleave freely; where threads share memory without a lock, every atomic
  access is a step of its own and the theorems are about all schedules of the steps.  Libraries outside the repository are parameters:
  the MessagePack library (\<open>codec\<close>, with what it promises as \<open>codec_ok\<close> and \<open>codec_numbers\<close>), the JSON
  library's parser, number formatting, shared memory mappings, dynamic libraries (\<open>loader\<close>) and the CTP
  API's callbacks.

  \<^bold>\<open>Shared theories.\<close>
  \<^item> \<open>Tyche_Prelude\<close>: words and their widths, byte strings, association lists, the simplification
    collections \<open>ring_simps\<close>, \<open>alist_simps\<close> and \<open>byte_simps\<close>.
  \<^item> \<open>Fifo_Spec\<close>: the locale \<open>bounded_fifo\<close>, what a queue with an offer and a take promises, with runs of
    operations as the client; interpreted by the ring buffer (\<open>rb\<close>) and the topic queue (\<open>dn\<close>).
  \<^item> \<open>Keyed_Store\<close>: the locales \<open>keyed_store\<close> and \<open>keyed_store_del\<close>, what a table that creates entries on
    demand promises; interpreted by the string table (\<open>si\<close>) and the sharded topic map (\<open>sm\<close>).
  \<^item> \<open>Step_Systems\<close>: \<open>exec\<close>, the schedules of a system of threads, and the locale \<open>stepper\<close>, which carries an invariant
    of the steps to all of them; interpreted by the ring buffer (\<open>mpsc\<close>, \<open>ledger\<close>, \<open>wedge\<close>), the engine's life cycle
    (\<open>life\<close>, \<open>answer\<close>), the market data session (\<open>md\<close>) and the clock (\<open>clock\<close>, \<open>hang\<close>).

  \<^bold>\<open>Data structures of the engine\<close>, \<^verbatim>\<open>tyche/cpp/engine/\<close> and \<^verbatim>\<open>tyche/cpp/\<close>.
  \<^item> \<open>Ring_Buffer\<close> (\<^verbatim>\<open>ring_buffer.h\<close>): every sequence of operations refines a bounded queue; the
    capacity is the least power of two, for requests up to \<open>2 ^ 63\<close>.
  \<^item> \<open>Ring_Concurrent\<close>, \<open>Ring_Mpsc\<close>, \<open>Ring_Race\<close> (\<^verbatim>\<open>ring_buffer.h\<close>): the same buffer with its loads, stores and
    compare-exchanges as steps of any number of producers and one consumer.  As long as no \<^verbatim>\<open>push_overwrite\<close>
    finds the buffer full, every schedule keeps the order, loses and repeats nothing, is free of data races and refines the
    sequential buffer, and \<^verbatim>\<open>try_push\<close> finishes when run alone; otherwise one producer and the consumer can lock it up.
  \<^item> \<open>Object_Pool\<close> (\<^verbatim>\<open>object_pool.h\<close>, \<^verbatim>\<open>adaptive_spin.h\<close>): exclusive use when run by one thread, and the
    interleaving of two threads that breaks it.
  \<^item> \<open>Rcu_Snapshot\<close> (\<^verbatim>\<open>rcu_snapshot.h\<close>): a loaded snapshot never changes, no update is lost.
  \<^item> \<open>Shm_Queue\<close> (\<^verbatim>\<open>shared_memory_queue.cpp\<close>): a queue for one lap, in every interleaving of reader and
    writer, and what goes wrong after it.  \<open>Shm_Lifetime\<close> has the constructor's and destructor's use of the system: what is taken
    is given back, and whose name is removed.
  \<^item> \<open>Fast_Clock\<close> (\<^verbatim>\<open>fast_clock.cpp\<close>): monotone under starting and stopping from any threads, and the schedules that
    hang it or set it back.  \<open>Dynamic_Library\<close> (\<^verbatim>\<open>dynamic_library.cpp\<close>, \<^verbatim>\<open>thread_affinity.cpp\<close>): the account of open libraries.
  \<^item> \<open>Topic_Queue\<close>, \<open>Topic_Map\<close> (\<^verbatim>\<open>topic_queue.h\<close>, \<^verbatim>\<open>sharded_topic_map.cpp\<close>, \<^verbatim>\<open>topic_queue_index.h\<close>): queues by
    back-pressure strategy; the sharded map refines a partial function, with the queues on a heap.
  \<^item> \<open>String_Intern\<close>, \<open>Core_Types\<close>, \<open>Heartbeat\<close>, \<open>Dead_Letter\<close> (\<^verbatim>\<open>string_intern.h\<close>, \<^verbatim>\<open>types.h\<close>,
    \<^verbatim>\<open>heartbeat_manager.cpp\<close>, \<^verbatim>\<open>dead_letter_store.cpp\<close>): identifiers and strings in bijection while
    \<open>intern_room\<close> says that fewer than \<open>2 ^ 32\<close> are in use; liveness counters; JSON text and the replay of
    dead letters.

  \<^bold>\<open>Messages.\<close>  \<open>Message\<close> (\<^verbatim>\<open>message.cpp\<close>) and \<open>Flat_Message\<close> (\<^verbatim>\<open>flat_serializer.h\<close>): round trips up to the
  normal form the formats have, agreement of the three serialisers, reading within bounds.

  \<^bold>\<open>The engine\<close>, \<^verbatim>\<open>engine.cpp\<close>.  \<open>Engine_State\<close> has its state and registration with the invariant
  \<open>wf_engine\<close>; \<open>Job_Router\<close> the router and timeout workers with \<open>wf_router\<close>, and \<open>Job_Guarantees\<close> what they
  promise to requesters; \<open>Engine_Events\<close> and \<open>Event_Guarantees\<close> the event path and the monitor;
  \<open>Engine_Registration\<close> the registration, heartbeat and admin workers; \<open>Engine_Main\<close> (\<^verbatim>\<open>main.cpp\<close>) and
  \<open>Shm_Bridge\<close> (\<^verbatim>\<open>shared_memory_bridge.cpp\<close>) the executable and the bridge to shared memory; \<open>Engine_Lifecycle\<close> starting,
  stopping and signals: the orderly shutdown of a running engine in every schedule, and where it goes wrong.

  \<^bold>\<open>Composition.\<close>  \<open>Tyche_Module\<close> (\<^verbatim>\<open>module.cpp\<close>) is the client; \<open>Engine_Modules\<close> joins it to the engine:
  registration, a job's round trip, the heartbeat that revives jobs.  \<open>Engine_Runs\<close> has the step relation of
  all workers, the invariant of every reachable state, and the ledger: over any run a pending job stays
  pending for its requester until the requester is sent a message about it.

  \<^bold>\<open>The CTP gateway\<close>, \<^verbatim>\<open>modules/ctp_gateway_cpp/src/\<close>.
  \<^item> \<open>Gateway_Config\<close> (\<^verbatim>\<open>config.cpp\<close>): what an accepted configuration guarantees.
  \<^item> \<open>Gateway_Quotes\<close> (\<^verbatim>\<open>ctp_gateway.cpp\<close>, \<^verbatim>\<open>md_spi.cpp\<close>, \<^verbatim>\<open>quote_tick.h\<close>): conversion, routing and dispatch.
  \<^item> \<open>Gateway_Session\<close> (\<^verbatim>\<open>md_spi.cpp\<close>, \<^verbatim>\<open>td_spi.cpp\<close>): the sessions as state machines; the market data session
    also divided into the steps that its lock and its flag make atomic, with the proof that in every
    interleaving it ends up subscribed to the current instruments.
  \<^item> \<open>Gateway_Instruments\<close> (\<^verbatim>\<open>resolve_instruments\<close>): the search with its thirteen attempts, a bound on the
    requests, what is found when the static data module answers, fails or comes up late.
  \<^item> \<open>Ctp_Loader\<close> (\<^verbatim>\<open>ctp_loader.cpp\<close>, \<^verbatim>\<open>dll_handle.h\<close>, \<^verbatim>\<open>ctp_api_raii.h\<close>): which files may be opened, the bounds
    of the export table search, ownership.
  \<^item> \<open>Gateway_Lifecycle\<close> (\<^verbatim>\<open>ctp_gateway.cpp\<close>, \<^verbatim>\<open>main.cpp\<close>): start, a day of quotes, stop; the account of every
    quote, for fewer than \<open>2 ^ 64\<close> events (the buffer's write counter), and the balance of libraries
    and API objects on every path through \<^verbatim>\<open>main\<close>.
  \<^item> \<open>Gateway_Delivery\<close>: a quote's way from the exchange through the gateway, the engine's proxy and the event
    loop of a module to the handler that is registered for it.
  \<^item> \<open>Quote_Validator\<close> (\<^verbatim>\<open>quote_validator.h\<close>): accepted ticks of a day are monotone.
  \<^item> \<open>Gateway_Log\<close> (\<^verbatim>\<open>gateway_log.h\<close>): log lines can be read back.  \<open>Gateway_Mock\<close> (\<^verbatim>\<open>mock_ctp_api.h\<close>): the doubles record
    every call, through the locale \<open>recorder\<close> that both interpret.

  \<^bold>\<open>Bounds.\<close>  Capacities of ring buffers are at most \<open>2 ^ 63\<close>, as the rounding to a power of two needs;
  identifiers of strings are below \<open>2 ^ 32 - 1\<close> (\<open>intern_room\<close>); a flat message's lengths fit 16 bits; a new
  module identifier is found within the hundred attempts the code makes.  In the concurrent buffer fewer than
  \<open>2 ^ 62\<close> positions are taken, so that its 64-bit counters do not wrap.  No definition has fuel.

  \<^bold>\<open>Not modelled.\<close>  Memory orders weaker than sequential consistency: interleavings are of atomic steps.
  Signals that interrupt a handler or a worker, sleeping and what is printed.  The platform itself: sockets and their
  options, the loader, the scheduler, the cycle counter.  The vendored CTP headers, the interface of the API and its
  forwarding adapter (\<^verbatim>\<open>ictp_api.h\<close>, \<^verbatim>\<open>ctp_api_adapter.h\<close>), which the gateway does not use, and the Python and Rust
  implementations.
\<close>

end
